(* ===== verification/Prelude.thy ===== *)
theory Prelude
  imports Main "HOL-Library.AList"
begin

text \<open>
  Shared vocabulary of the development: the JavaScript idioms the TypeScript source uses
  everywhere (nullish coalescing, optional properties, insertion-ordered \<open>Map\<close>, string
  helpers, truncating arithmetic), the result type of fallible operations, and the generic
  lemmas on lists and association lists the component theories share.

  Conventions.  A value that may be \<open>undefined\<close> (or \<open>null\<close>, where the code does not tell the
  two apart) is an \<open>option\<close>.  A thrown error is the left side of a sum.  A JavaScript \<open>Map\<close>,
  whose iteration order is insertion order, is an association list changed only by
  \<open>AList.update\<close> (which overwrites in place or appends) and \<open>AList.delete\<close>.  Strings are lists
  of 8-bit characters.  Wall-clock milliseconds are integers.
\<close>

section \<open>Collections of facts\<close>

named_theorems js_simps \<open>unfolding of the JavaScript idioms\<close>
named_theorems step_defs \<open>definitions of the state-changing operations\<close>

section \<open>Optional values\<close>

text \<open>\<open>a ?? b\<close> with a defined default, and with a default that may itself be undefined.\<close>

fun nullish :: "'a option \<Rightarrow> 'a \<Rightarrow> 'a" where
  "nullish None d = d"
| "nullish (Some x) d = x"

fun nullish_opt :: "'a option \<Rightarrow> 'a option \<Rightarrow> 'a option" where
  "nullish_opt None d = d"
| "nullish_opt (Some x) d = Some x"

text \<open>\<open>s || undefined\<close> on strings: the empty string is falsy.\<close>

definition or_undef :: "string \<Rightarrow> string option" where
  "or_undef s = (if s = [] then None else Some s)"

text \<open>A string that is present and truthy.\<close>

fun truthy :: "string option \<Rightarrow> bool" where
  "truthy None = False"
| "truthy (Some s) = (s \<noteq> [])"

text \<open>\<open>a || b\<close> on an optional string with a string default.\<close>

fun or_default :: "string option \<Rightarrow> string \<Rightarrow> string" where
  "or_default None d = d"
| "or_default (Some s) d = (if s = [] then d else s)"

text \<open>The difference of two timestamps that may be missing.\<close>

fun diff_opt :: "int option \<Rightarrow> int option \<Rightarrow> int option" where
  "diff_opt (Some finish) (Some start) = Some (finish - start)"
| "diff_opt _ _ = None"

lemma nullish_opt_None_iff [simp]: "nullish_opt a b = None \<longleftrightarrow> a = None \<and> b = None"
  by (cases a) auto

lemma nullish_opt_None_right [simp]: "nullish_opt a None = a"
  by (cases a) auto

lemma or_undef_eq_Some [simp]: "or_undef s = Some t \<longleftrightarrow> s \<noteq> [] \<and> t = s"
  by (auto simp: or_undef_def)

lemma or_undef_eq_None [simp]: "or_undef s = None \<longleftrightarrow> s = []"
  by (auto simp: or_undef_def)

lemma nullish_idem [simp]: "nullish e (nullish e x) = nullish e x"
  by (cases e) auto

lemma truthy_iff: "truthy s \<longleftrightarrow> (\<exists>t. s = Some t \<and> t \<noteq> [])"
  by (cases s) auto

section \<open>Results\<close>

text \<open>Running a computation that may throw, then the rest of the function.\<close>

fun bind_res :: "'e + 'a \<Rightarrow> ('a \<Rightarrow> 'e + 'b) \<Rightarrow> 'e + 'b" where
  "bind_res (Inl e) f = Inl e"
| "bind_res (Inr x) f = f x"

lemma bind_res_Inr [simp]: "bind_res r f = Inr y \<longleftrightarrow> (\<exists>x. r = Inr x \<and> f x = Inr y)"
  by (cases r) auto

lemma bind_res_Inl [simp]:
  "bind_res r f = Inl e \<longleftrightarrow> r = Inl e \<or> (\<exists>x. r = Inr x \<and> f x = Inl e)"
  by (cases r) auto

lemma bind_res_cong [fundef_cong]:
  "r = r' \<Longrightarrow> (\<And>x. r' = Inr x \<Longrightarrow> f x = g x) \<Longrightarrow> bind_res r f = bind_res r' g"
  by (cases r') auto

section \<open>Strings\<close>

definition starts_with :: "string \<Rightarrow> string \<Rightarrow> bool" where
  "starts_with s p \<longleftrightarrow> take (length p) s = p"

definition ends_with :: "string \<Rightarrow> string \<Rightarrow> bool" where
  "ends_with s p \<longleftrightarrow> starts_with (rev s) (rev p)"

fun str_includes :: "string \<Rightarrow> string \<Rightarrow> bool" where
  "str_includes [] p = (p = [])"
| "str_includes (c # s) p = (starts_with (c # s) p \<or> str_includes s p)"

text \<open>
  JavaScript white space, for \<open>trim\<close> and for \<open>\s\<close> in a regular expression: the 8-bit part of
  the set (tab, line feed, vertical tab, form feed, carriage return, space, no-break space).
\<close>

definition js_space :: "char \<Rightarrow> bool" where
  "js_space c \<longleftrightarrow> of_char c \<in> {9, 10, 11, 12, 13, 32, 160 :: nat}"

definition trim :: "string \<Rightarrow> string" where
  "trim s = rev (dropWhile js_space (rev (dropWhile js_space s)))"

text \<open>\<open>toLowerCase\<close> on the ASCII letters, the only ones the compared literals contain.\<close>

definition lower_char :: "char \<Rightarrow> char" where
  "lower_char c = (if 65 \<le> (of_char c :: nat) \<and> (of_char c :: nat) \<le> 90
     then char_of (of_char c + 32 :: nat) else c)"

definition to_lower :: "string \<Rightarrow> string" where
  "to_lower s = map lower_char s"

text \<open>\<open>xs.join(sep)\<close>.\<close>

fun join :: "string \<Rightarrow> string list \<Rightarrow> string" where
  "join sep [] = []"
| "join sep [x] = x"
| "join sep (x # y # ys) = x @ sep @ join sep (y # ys)"

lemma starts_with_append [simp]: "starts_with (p @ s) p"
  by (simp add: starts_with_def)

lemma starts_with_iff: "starts_with s p \<longleftrightarrow> (\<exists>t. s = p @ t)"
  unfolding starts_with_def by (metis append_eq_conv_conj append_take_drop_id)

lemma str_includes_iff: "str_includes s p \<longleftrightarrow> (\<exists>u v. s = u @ p @ v)"
proof (induction s)
  case Nil
  then show ?case by simp
next
  case IH: (Cons c s)
  show ?case
  proof
    assume "str_includes (c # s) p"
    then consider "starts_with (c # s) p" | "str_includes s p" by auto
    then show "\<exists>u v. c # s = u @ p @ v"
    proof cases
      case 1
      then show ?thesis by (metis append_Nil starts_with_iff)
    next
      case 2
      then show ?thesis using IH.IH by (metis append_Cons)
    qed
  next
    assume "\<exists>u v. c # s = u @ p @ v"
    then obtain u v where e: "c # s = u @ p @ v" by blast
    show "str_includes (c # s) p"
    proof (cases u)
      case Nil
      with e have "starts_with (c # s) p" by (simp add: starts_with_iff)
      then show ?thesis by simp
    next
      case (Cons d u')
      with e have "s = u' @ p @ v" by simp
      then have "str_includes s p" using IH.IH by blast
      then show ?thesis by simp
    qed
  qed
qed

section \<open>Numbers\<close>

text \<open>The decimal text of an integer, as \<open>String(n)\<close> and template literals give it.\<close>

definition digit_char :: "nat \<Rightarrow> char" where
  "digit_char d = char_of (48 + d)"

fun nat_text :: "nat \<Rightarrow> string" where
  "nat_text n = (if n < 10 then [digit_char n] else nat_text (n div 10) @ [digit_char (n mod 10)])"

declare nat_text.simps [simp del]

definition int_text :: "int \<Rightarrow> string" where
  "int_text i = (if i < 0 then ''-'' @ nat_text (nat (- i)) else nat_text (nat i))"

text \<open>The remainder operator \<open>%\<close> of JavaScript takes the sign of the dividend.\<close>

definition js_rem :: "int \<Rightarrow> int \<Rightarrow> int" where
  "js_rem a b = sgn a * (\<bar>a\<bar> mod \<bar>b\<bar>)"

lemma js_rem_nonneg: "0 \<le> a \<Longrightarrow> 0 < b \<Longrightarrow> js_rem a b = a mod b"
  by (cases "a = 0") (auto simp: js_rem_def)

section \<open>Lists\<close>

lemma find_SomeD: "List.find p xs = Some x \<Longrightarrow> x \<in> set xs \<and> p x"
  by (induction xs) (auto split: if_splits)

lemma find_NoneD: "List.find p xs = None \<Longrightarrow> x \<in> set xs \<Longrightarrow> \<not> p x"
  by (induction xs) (auto split: if_splits)

text \<open>\<open>xs.find(p)\<close> is \<open>List.find\<close>; \<open>xs.filter(p).length\<close> is counted by the abbreviation below.\<close>

abbreviation count_if :: "('a \<Rightarrow> bool) \<Rightarrow> 'a list \<Rightarrow> nat" where
  "count_if p xs \<equiv> length (filter p xs)"

lemma count_if_disjoint:
  "(\<And>x. x \<in> set xs \<Longrightarrow> \<not> (p x \<and> q x)) \<Longrightarrow> count_if p xs + count_if q xs \<le> length xs"
  by (induction xs) (auto simp: less_Suc_eq_le intro: le_SucI)

text \<open>The last defined value of a list of candidates, over an initial value.\<close>

fun last_def :: "'a option \<Rightarrow> 'a option list \<Rightarrow> 'a option" where
  "last_def d [] = d"
| "last_def d (x # xs) = last_def (nullish_opt x d) xs"

text \<open>An association list with distinct keys is determined by its keys and its lookups.\<close>

lemma alist_eqI:
  "map fst xs = map fst ys \<Longrightarrow> distinct (map fst ys) \<Longrightarrow> map_of xs = map_of ys \<Longrightarrow> xs = ys"
proof (induction xs arbitrary: ys)
  case Nil
  then show ?case by simp
next
  case (Cons x xs)
  then obtain y ys' where ys: "ys = y # ys'" by (cases ys) auto
  obtain k v where x: "x = (k, v)" by (cases x)
  obtain w where y: "y = (k, w)" using Cons.prems(1) ys x by (cases y) auto
  have keys: "map fst xs = map fst ys'" "distinct (map fst ys')" "k \<notin> set (map fst ys')"
    using Cons.prems(1,2) ys x y by auto
  have "map_of (x # xs) k = map_of ys k" by (rule fun_cong [OF Cons.prems(3)])
  then have vw: "v = w" using x y ys by simp
  have "map_of xs j = map_of ys' j" for j
  proof (cases "j = k")
    case True
    with keys have "j \<notin> fst ` set xs" "j \<notin> fst ` set ys'" by (auto simp flip: set_map)
    then show ?thesis by (simp add: map_of_eq_None_iff [THEN iffD2])
  next
    case False
    have "map_of (x # xs) j = map_of ys j" by (rule fun_cong [OF Cons.prems(3)])
    with False x y ys show ?thesis by simp
  qed
  then have "map_of xs = map_of ys'" by (rule ext)
  with Cons.IH keys x y vw ys show ?case by auto
qed

lemma set_update_subset: "set (AList.update k v m) \<subseteq> insert (k, v) (set m)"
  by (induction m) auto

text \<open>Folding a list of overwrites twice is folding it once.\<close>

lemma foldl_hom:
  "(\<And>s x. h (f s x) = g (h s) x) \<Longrightarrow> h (foldl f s xs) = foldl g (h s) xs"
  by (induction xs arbitrary: s) auto

lemma overwrite_again:
  "foldl (\<lambda>x e. nullish (v e) x) (foldl (\<lambda>x e. nullish (v e) x) a es) es =
     foldl (\<lambda>x e. nullish (v e) x) a es"
proof (cases "\<exists>e \<in> set es. v e \<noteq> None")
  case True
  have const: "\<exists>e \<in> set xs. v e \<noteq> None \<Longrightarrow>
      foldl (\<lambda>x e. nullish (v e) x) b xs = foldl (\<lambda>x e. nullish (v e) x) c xs" for b c xs
  proof (induction xs rule: rev_induct)
    case (snoc x xs)
    then show ?case by (cases "v x") auto
  qed simp
  show ?thesis by (rule const [OF True])
next
  case False
  then have "foldl (\<lambda>x e. nullish (v e) x) b es = b" for b
    by (induction es arbitrary: b) auto
  then show ?thesis by simp
qed

lemma keep_first_again:
  "foldl (\<lambda>x e. nullish_opt x (v e)) (foldl (\<lambda>x e. nullish_opt x (v e)) a es) es =
     foldl (\<lambda>x e. nullish_opt x (v e)) a es"
proof -
  have fixed: "foldl (\<lambda>x e. nullish_opt x (v e)) (Some b) xs = Some b" for b xs
    by (induction xs) auto
  have stays: "foldl (\<lambda>x e. nullish_opt x (v e)) a xs = None \<Longrightarrow>
      \<forall>e \<in> set xs. v e = None" for xs
  proof (induction xs rule: rev_induct)
    case (snoc x xs)
    then show ?case by simp
  qed simp
  show ?thesis
  proof (cases "foldl (\<lambda>x e. nullish_opt x (v e)) a es")
    case None
    then have "a = None" by (cases a) (auto simp: fixed)
    with None show ?thesis by simp
  next
    case (Some b)
    then show ?thesis by (simp add: fixed)
  qed
qed

lemma overwritten_field_again:
  assumes "\<And>s x. h (f s x) = nullish (v x) (h s)"
  shows "h (foldl f (foldl f s xs) xs) = h (foldl f s xs)"
  using overwrite_again [of v "h s" xs] foldl_hom [of h f "\<lambda>a x. nullish (v x) a", OF assms] by simp

lemma kept_field_again:
  assumes "\<And>s x. h (f s x) = nullish_opt (h s) (v x)"
  shows "h (foldl f (foldl f s xs) xs) = h (foldl f s xs)"
  using keep_first_again [of v "h s" xs] foldl_hom [of h f "\<lambda>a x. nullish_opt a (v x)", OF assms]
  by simp

end
