(* ===== verification/Json.thy ===== *)
theory Json
  imports Prelude
begin

text \<open>
  The JavaScript values the program passes around as \<open>unknown\<close>: executor outputs, predecessor
  outputs read back from the store, event payloads.  The theory gives the two standard
  operations the source applies to them, \<open>String(v)\<close> and \<open>JSON.stringify(v)\<close>.

  A number is represented by the text \<open>Number::toString\<close> gives for it: the source never
  computes with such a number, it only prints it.  An object is the list of its own enumerable
  properties in the order the language enumerates them.  A function value (reachable only
  through inherited properties) carries its source text.
\<close>

datatype jsval =
    JUndef
  | JNull
  | JBool bool
  | JNum string
  | JStr string
  | JArr "jsval list"
  | JObj "(string \<times> jsval) list"
  | JFun string

text \<open>\<open>v == null\<close>.\<close>

fun is_nullish :: "jsval \<Rightarrow> bool" where
  "is_nullish JUndef = True"
| "is_nullish JNull = True"
| "is_nullish _ = False"

text \<open>\<open>typeof v === "object"\<close> (which holds for null).\<close>

fun is_object :: "jsval \<Rightarrow> bool" where
  "is_object JNull = True"
| "is_object (JArr _) = True"
| "is_object (JObj _) = True"
| "is_object _ = False"

section \<open>JSON.stringify\<close>

definition hex_digit :: "nat \<Rightarrow> char" where
  "hex_digit d = (if d < 10 then char_of (48 + d) else char_of (87 + d))"

text \<open>The escape of one character inside a JSON string literal.\<close>

definition quote_char :: "char \<Rightarrow> string" where
  "quote_char c =
     (let n = (of_char c :: nat) in
      if n = 34 then [CHR 0x5C, CHR 0x22]
      else if n = 92 then [CHR 0x5C, CHR 0x5C]
      else if n = 8 then [CHR 0x5C, CHR ''b'']
      else if n = 9 then [CHR 0x5C, CHR ''t'']
      else if n = 10 then [CHR 0x5C, CHR ''n'']
      else if n = 12 then [CHR 0x5C, CHR ''f'']
      else if n = 13 then [CHR 0x5C, CHR ''r'']
      else if n < 32 then [CHR 0x5C, CHR ''u'', CHR ''0'', CHR ''0'', hex_digit (n div 16),
                           hex_digit (n mod 16)]
      else [c])"

definition quote :: "string \<Rightarrow> string" where
  "quote s = CHR 0x22 # concat (map quote_char s) @ [CHR 0x22]"

definition num_json :: "string \<Rightarrow> string" where
  "num_json t = (if t \<in> {''NaN'', ''Infinity'', ''-Infinity''} then ''null'' else t)"

text \<open>
  \<open>JSON.stringify\<close> on a value without \<open>toJSON\<close>: undefined and functions have no text at the
  top level, become \<open>null\<close> inside an array and are skipped inside an object.
\<close>

fun stringify :: "jsval \<Rightarrow> string option"
  and stringify_elems :: "jsval list \<Rightarrow> string list"
  and stringify_props :: "(string \<times> jsval) list \<Rightarrow> string list" where
  "stringify JUndef = None"
| "stringify (JFun _) = None"
| "stringify JNull = Some ''null''"
| "stringify (JBool b) = Some (if b then ''true'' else ''false'')"
| "stringify (JNum t) = Some (num_json t)"
| "stringify (JStr s) = Some (quote s)"
| "stringify (JArr xs) = Some (''['' @ join '','' (stringify_elems xs) @ '']'')"
| "stringify (JObj ps) = Some (''{'' @ join '','' (stringify_props ps) @ ''}'')"
| "stringify_elems [] = []"
| "stringify_elems (x # xs) =
     (case stringify x of None \<Rightarrow> ''null'' | Some t \<Rightarrow> t) # stringify_elems xs"
| "stringify_props [] = []"
| "stringify_props ((k, x) # ps) =
     (case stringify x of
        None \<Rightarrow> stringify_props ps
      | Some t \<Rightarrow> (quote k @ '':'' @ t) # stringify_props ps)"

lemma stringify_Some_iff: "stringify v \<noteq> None \<longleftrightarrow> v \<noteq> JUndef \<and> (\<forall>t. v \<noteq> JFun t)"
  by (cases v) auto

section \<open>String(v)\<close>

text \<open>
  \<open>String(v)\<close> for the values the source hands to it (never an object: those are printed with
  \<open>JSON.stringify\<close>).  For objects the conversion is a parameter of the caller, since it runs the
  object's own \<open>toString\<close>; no caller reaches that case.
\<close>

fun string_of :: "jsval \<Rightarrow> string option" where
  "string_of JUndef = Some ''undefined''"
| "string_of JNull = Some ''null''"
| "string_of (JBool b) = Some (if b then ''true'' else ''false'')"
| "string_of (JNum t) = Some t"
| "string_of (JStr s) = Some s"
| "string_of (JFun t) = Some t"
| "string_of _ = None"

end
