(* ===== verification/Registry.thy ===== *)
theory Registry
  imports Prelude
begin

text \<open>
  The node registry of \<open>features/workflows/nodes/node-registry.ts\<close>, the graph types built on it
  (\<open>lib/db/schema.ts\<close>), and the catalog \<open>features/workflows/lib/planner-catalog.ts\<close> derives from
  it for the planner.  Presentation (icon, accent classes) is left out of a definition.

  The registry and the catalog are plain JavaScript objects that the code indexes with strings
  that come from outside, so a lookup also finds the properties every object inherits from
  \<open>Object.prototype\<close>; \<open>js_lookup\<close> keeps the two cases apart.
\<close>

section \<open>Types\<close>

datatype step_kind = Trigger | Action

record node_field =
  nf_key :: string
  nf_label :: string
  nf_placeholder :: "string option"
  nf_multiline :: "bool option"
  nf_required :: "bool option"

record node_output =
  no_path :: string
  no_label :: string

record node_definition =
  nd_type :: string
  nd_kind :: step_kind
  nd_label :: string
  nd_fields :: "node_field list"
  nd_outputs :: "node_output list"

record step_node_data =
  sd_type :: string
  sd_kind :: step_kind
  sd_title :: string
  sd_values :: "(string \<times> string) list"

record step_node =
  sn_id :: string
  sn_position :: "int \<times> int"
  sn_data :: step_node_data

record edge =
  eg_id :: string
  eg_source :: string
  eg_target :: string

record workflow_graph =
  wg_nodes :: "step_node list"
  wg_edges :: "edge list"

section \<open>The registry\<close>

abbreviation text_field :: "string \<Rightarrow> string \<Rightarrow> string \<Rightarrow> node_field" where
  "text_field k l p \<equiv>
     \<lparr>nf_key = k, nf_label = l, nf_placeholder = Some p, nf_multiline = None,
      nf_required = Some True\<rparr>"

abbreviation area_field :: "string \<Rightarrow> string \<Rightarrow> string \<Rightarrow> node_field" where
  "area_field k l p \<equiv>
     \<lparr>nf_key = k, nf_label = l, nf_placeholder = Some p, nf_multiline = Some True,
      nf_required = Some True\<rparr>"

abbreviation out :: "string \<Rightarrow> string \<Rightarrow> node_output" where
  "out p l \<equiv> \<lparr>no_path = p, no_label = l\<rparr>"

text \<open>The ellipsis that ends one placeholder is written as its UTF-8 bytes.\<close>

definition nodeRegistry :: "(string \<times> node_definition) list" where
  "nodeRegistry =
    [(''start'',
       \<lparr>nd_type = ''start'', nd_kind = Trigger, nd_label = ''Start'', nd_fields = [],
        nd_outputs = []\<rparr>),
     (''open-url'',
       \<lparr>nd_type = ''open-url'', nd_kind = Action, nd_label = ''Open URL'',
        nd_fields = [text_field ''url'' ''URL'' ''https://youtube.com''],
        nd_outputs = [out ''url'' ''URL'', out ''title'' ''Title'']\<rparr>),
     (''act'',
       \<lparr>nd_type = ''act'', nd_kind = Action, nd_label = ''Act'',
        nd_fields = [area_field ''instruction'' ''Instruction'' ''Click the sign in button''],
        nd_outputs = [out ''success'' ''Success'', out ''message'' ''Message'',
                      out ''url'' ''URL'']\<rparr>),
     (''extract'',
       \<lparr>nd_type = ''extract'', nd_kind = Action, nd_label = ''Extract'',
        nd_fields = [area_field ''instruction'' ''Instruction'' ''Extract the product price''],
        nd_outputs = [out ''extraction'' ''Extraction'']\<rparr>),
     (''observe'',
       \<lparr>nd_type = ''observe'', nd_kind = Action, nd_label = ''Observe'',
        nd_fields = [area_field ''instruction'' ''Instruction'' ''Find the sign in button''],
        nd_outputs = [out ''matches'' ''Matches'', out ''matches[0].selector'' ''Selector'',
                      out ''matches[0].description'' ''Description'']\<rparr>),
     (''agent'',
       \<lparr>nd_type = ''agent'', nd_kind = Action, nd_label = ''Agent'',
        nd_fields = [area_field ''instruction'' ''Instruction''
                       ''Search for the stock price of NVDA''],
        nd_outputs = [out ''success'' ''Success'', out ''message'' ''Message'',
                      out ''completed'' ''Completed'']\<rparr>),
     (''send-email'',
       \<lparr>nd_type = ''send-email'', nd_kind = Action, nd_label = ''Send Email'',
        nd_fields = [text_field ''to'' ''To'' ''person@example.com'',
                     text_field ''subject'' ''Subject'' ''Hello'',
                     area_field ''body'' ''Body''
                       (''Write your message'' @ [CHR 0xE2, CHR 0x80, CHR 0xA6])],
        nd_outputs = [out ''id'' ''Email ID'']\<rparr>)]"

section \<open>Lookups in a plain object\<close>

text \<open>The properties of \<open>Object.prototype\<close>; every one of them has a truthy value.\<close>

definition object_proto_names :: "string list" where
  "object_proto_names =
     [''constructor'', ''__defineGetter__'', ''__defineSetter__'', ''hasOwnProperty'',
      ''__lookupGetter__'', ''__lookupSetter__'', ''isPrototypeOf'', ''propertyIsEnumerable'',
      ''toString'', ''valueOf'', ''__proto__'', ''toLocaleString'']"

datatype 'a lookup = Missing | Inherited | Own 'a

fun lookup_case :: "'a option \<Rightarrow> bool \<Rightarrow> 'a lookup" where
  "lookup_case (Some x) i = Own x"
| "lookup_case None i = (if i then Inherited else Missing)"

definition js_lookup :: "(string \<times> 'a) list \<Rightarrow> string \<Rightarrow> 'a lookup" where
  "js_lookup m k = lookup_case (map_of m k) (k \<in> set object_proto_names)"

lemma js_lookup_Own_iff: "js_lookup m k = Own x \<longleftrightarrow> map_of m k = Some x"
  by (cases "map_of m k") (auto simp: js_lookup_def)

lemma js_lookup_Missing_iff:
  "js_lookup m k = Missing \<longleftrightarrow> k \<notin> fst ` set m \<and> k \<notin> set object_proto_names"
  using map_of_eq_None_iff [of m k] by (cases "map_of m k") (auto simp: js_lookup_def)

section \<open>The planner catalog\<close>

record catalog_item =
  ci_type :: string
  ci_kind :: step_kind
  ci_label :: string
  ci_fields :: "node_field list"
  ci_outputs :: "node_output list"

definition catalog_entry :: "node_definition \<Rightarrow> catalog_item" where
  "catalog_entry d =
     \<lparr>ci_type = nd_type d, ci_kind = nd_kind d, ci_label = nd_label d,
      ci_fields = map (\<lambda>f. \<lparr>nf_key = nf_key f, nf_label = nf_label f,
        nf_placeholder = nf_placeholder f, nf_multiline = nf_multiline f,
        nf_required = nf_required f\<rparr>) (nd_fields d),
      ci_outputs = map (\<lambda>p. \<lparr>no_path = no_path p, no_label = no_label p\<rparr>) (nd_outputs d)\<rparr>"

text \<open>The loop over \<open>Object.entries\<close>, each iteration an assignment to one key.\<close>

definition getPlannerNodeCatalog :: "(string \<times> catalog_item) list" where
  "getPlannerNodeCatalog =
     foldl (\<lambda>c (k, d). AList.update k (catalog_entry d) c) [] nodeRegistry"

lemma fold_update_fresh:
  "distinct (map fst c @ map fst es) \<Longrightarrow>
     foldl (\<lambda>c (k, d). AList.update k (f d) c) c es = c @ map (\<lambda>(k, d). (k, f d)) es"
proof (induction es arbitrary: c)
  case (Cons e es)
  obtain k d where e: "e = (k, d)" by (cases e)
  have "AList.update k (f d) c = c @ [(k, f d)]"
    using Cons.prems e by (induction c) auto
  then show ?case using Cons.IH [of "c @ [(k, f d)]"] Cons.prems e by auto
qed simp

lemma distinct_registry: "distinct (map fst nodeRegistry)"
  by (simp add: nodeRegistry_def)

lemma catalog_eq: "getPlannerNodeCatalog = map (\<lambda>(k, d). (k, catalog_entry d)) nodeRegistry"
  unfolding getPlannerNodeCatalog_def
  using fold_update_fresh [of "[]" nodeRegistry catalog_entry] distinct_registry by simp

lemma map_of_catalog:
  "map_of getPlannerNodeCatalog k = map_option catalog_entry (map_of nodeRegistry k)"
  unfolding catalog_eq by (simp add: map_of_map)

lemma js_lookup_catalog:
  "js_lookup getPlannerNodeCatalog k =
     (case js_lookup nodeRegistry k of
        Own d \<Rightarrow> Own (catalog_entry d) | Inherited \<Rightarrow> Inherited | Missing \<Rightarrow> Missing)"
  by (cases "map_of nodeRegistry k") (simp_all add: js_lookup_def map_of_catalog)

text \<open>Every entry of the registry is stored under its own type, and only Start is a trigger.\<close>

lemma registry_entry:
  "map_of nodeRegistry k = Some d \<Longrightarrow>
     nd_type d = k \<and> (nd_kind d = Trigger \<longleftrightarrow> k = ''start'') \<and> distinct (map nf_key (nd_fields d))"
  by (auto simp: nodeRegistry_def split: if_splits)

lemma start_registered: "\<exists>d. map_of nodeRegistry ''start'' = Some d"
  by (simp add: nodeRegistry_def)

end
