(* ===== verification/Schema.thy ===== *)
theory Schema
  imports Json Registry
begin

text \<open>
  The tables of \<open>lib/db/schema.ts\<close> the TypeScript code reads or writes, one record per row type,
  and a database as the lists of its rows.  Identifiers are strings, \<open>timestamp\<close> columns are
  wall-clock milliseconds, a nullable column is an option.  The order of the rows of a table is
  the order a query without \<open>ORDER BY\<close> returns them in, which is unspecified: every theorem
  quantifies over it.
\<close>

record workflow_row =
  wf_id :: string
  wf_orgId :: string
  wf_name :: string
  wf_graph :: "workflow_graph option"
  wf_createdAt :: int
  wf_updatedAt :: int

record live_view_row =
  lv_sessionId :: string
  lv_runId :: "string option"
  lv_connectedAt :: int

record run_artifact_row =
  ra_runId :: string
  ra_orgId :: string
  ra_screenshotBase64 :: "string option"
  ra_createdAt :: int

record workflow_version_row =
  wv_id :: string
  wv_workflowId :: string
  wv_orgId :: string
  wv_versionNumber :: int
  wv_graph :: workflow_graph
  wv_graphHash :: "string option"
  wv_createdAt :: int

record workflow_run_row =
  wr_id :: string
  wr_orgId :: string
  wr_workflowId :: string
  wr_workflowVersionId :: "string option"
  wr_engine :: string
  wr_status :: string
  wr_outcome :: "string option"
  wr_cancelReason :: "string option"
  wr_cancelRequestedAt :: "int option"
  wr_browserbaseSessionId :: "string option"
  wr_dagJson :: "string option"
  wr_createdAt :: int
  wr_startedAt :: "int option"
  wr_finishedAt :: "int option"

record node_run_row =
  nr_id :: string
  nr_runId :: string
  nr_nodeId :: string
  nr_nodeType :: string
  nr_status :: string
  nr_attemptCount :: int
  nr_output :: "jsval option"
  nr_failureReason :: "string option"
  nr_retryWaitUntil :: "int option"
  nr_retryReason :: "string option"
  nr_startedAt :: "int option"
  nr_finishedAt :: "int option"

record task_attempt_row =
  ta_id :: string
  ta_nodeRunId :: string
  ta_attemptNumber :: int
  ta_workerId :: "string option"
  ta_status :: string
  ta_output :: "jsval option"
  ta_error :: "string option"
  ta_startedAt :: "int option"
  ta_finishedAt :: "int option"
  ta_leaseAcquiredAt :: "int option"
  ta_leaseRenewedAt :: "int option"
  ta_leaseExpiresAt :: "int option"
  ta_leaseExpiredAt :: "int option"

record worker_row =
  wk_workerId :: string
  wk_envPrefix :: string
  wk_status :: string
  wk_registeredAt :: int
  wk_lastHeartbeatAt :: "int option"

record db =
  db_workflows :: "workflow_row list"
  db_liveViews :: "live_view_row list"
  db_artifacts :: "run_artifact_row list"
  db_versions :: "workflow_version_row list"
  db_runs :: "workflow_run_row list"
  db_nodeRuns :: "node_run_row list"
  db_attempts :: "task_attempt_row list"
  db_workers :: "worker_row list"

section \<open>Keys\<close>

text \<open>The primary keys and unique constraints, which the database enforces on every write.\<close>

definition db_keys :: "db \<Rightarrow> bool" where
  "db_keys d \<longleftrightarrow>
     distinct (map wf_id (db_workflows d)) \<and>
     distinct (map lv_sessionId (db_liveViews d)) \<and>
     distinct (map ra_runId (db_artifacts d)) \<and>
     distinct (map wv_id (db_versions d)) \<and>
     distinct (map (\<lambda>v. (wv_workflowId v, wv_versionNumber v)) (db_versions d)) \<and>
     distinct (map wr_id (db_runs d)) \<and>
     distinct (map nr_id (db_nodeRuns d)) \<and>
     distinct (map (\<lambda>n. (nr_runId n, nr_nodeId n)) (db_nodeRuns d)) \<and>
     distinct (map ta_id (db_attempts d)) \<and>
     distinct (map (\<lambda>a. (ta_nodeRunId a, ta_attemptNumber a)) (db_attempts d)) \<and>
     distinct (map wk_workerId (db_workers d))"

definition empty_db :: db where
  "empty_db = \<lparr>db_workflows = [], db_liveViews = [], db_artifacts = [], db_versions = [],
     db_runs = [], db_nodeRuns = [], db_attempts = [], db_workers = []\<rparr>"

lemma empty_db_keys [simp]: "db_keys empty_db"
  by (simp add: db_keys_def empty_db_def)

text \<open>Replacing one table keeps the keys when the new table has them.\<close>

lemma keys_of:
  assumes "db_keys d"
  shows "distinct (map wf_id (db_workflows d))" "distinct (map lv_sessionId (db_liveViews d))"
    "distinct (map ra_runId (db_artifacts d))" "distinct (map wv_id (db_versions d))"
    "distinct (map (\<lambda>v. (wv_workflowId v, wv_versionNumber v)) (db_versions d))"
    "distinct (map wr_id (db_runs d))" "distinct (map nr_id (db_nodeRuns d))"
    "distinct (map (\<lambda>n. (nr_runId n, nr_nodeId n)) (db_nodeRuns d))"
    "distinct (map ta_id (db_attempts d))"
    "distinct (map (\<lambda>a. (ta_nodeRunId a, ta_attemptNumber a)) (db_attempts d))"
    "distinct (map wk_workerId (db_workers d))"
  using assms by (simp_all add: db_keys_def)

lemma keys_update:
  assumes "db_keys d"
  shows "distinct (map wf_id ws) \<Longrightarrow> db_keys (d\<lparr>db_workflows := ws\<rparr>)"
    "distinct (map lv_sessionId ls) \<Longrightarrow> db_keys (d\<lparr>db_liveViews := ls\<rparr>)"
    "distinct (map ra_runId as) \<Longrightarrow> db_keys (d\<lparr>db_artifacts := as\<rparr>)"
    "distinct (map wv_id vs) \<Longrightarrow> distinct (map (\<lambda>v. (wv_workflowId v, wv_versionNumber v)) vs) \<Longrightarrow>
       db_keys (d\<lparr>db_versions := vs\<rparr>)"
    "distinct (map wr_id rs) \<Longrightarrow> db_keys (d\<lparr>db_runs := rs\<rparr>)"
    "distinct (map ta_id ts) \<Longrightarrow> distinct (map (\<lambda>a. (ta_nodeRunId a, ta_attemptNumber a)) ts) \<Longrightarrow>
       db_keys (d\<lparr>db_attempts := ts\<rparr>)"
    "distinct (map wk_workerId ks) \<Longrightarrow> db_keys (d\<lparr>db_workers := ks\<rparr>)"
  using assms by (simp_all add: db_keys_def)

text \<open>An update of rows that leaves a key alone, and a filter, keep that key distinct.\<close>

lemma distinct_key_map:
  "(\<And>x. key (f x) = key x) \<Longrightarrow> distinct (map key (map f xs)) = distinct (map key xs)"
  by (simp add: comp_def)

lemma distinct_key_filter: "distinct (map key xs) \<Longrightarrow> distinct (map key (filter p xs))"
  by (rule distinct_map_filter)

section \<open>Queries\<close>

text \<open>\<open>const [row] = await db.select().from(t).where(p)\<close>: the first row returned, if any.\<close>

definition select_one :: "('r \<Rightarrow> bool) \<Rightarrow> 'r list \<Rightarrow> 'r option" where
  "select_one p rows = List.find p rows"

lemma select_one_Some:
  "select_one p rows = Some r \<Longrightarrow> r \<in> set rows \<and> p r"
  by (auto simp: select_one_def find_Some_iff)

lemma select_one_None [simp]: "select_one p rows = None \<longleftrightarrow> (\<forall>r \<in> set rows. \<not> p r)"
  by (auto simp: select_one_def find_None_iff)

lemma select_one_Nil [simp]: "select_one p [] = None"
  by (simp add: select_one_def)

lemma select_one_Cons [simp]:
  "select_one p (r # rows) = (if p r then Some r else select_one p rows)"
  by (simp add: select_one_def)

text \<open>A lookup by a key with distinct values does not depend on the order of the rows.\<close>

lemma select_one_key:
  assumes "distinct (map key rows)" and "r \<in> set rows"
  shows "select_one (\<lambda>x. key x = key r) rows = Some r"
  using assms by (induction rows) auto

lemma select_one_key_and:
  assumes "distinct (map key rows)" and "r \<in> set rows"
  shows "select_one (\<lambda>x. key x = key r \<and> p x) rows = (if p r then Some r else None)"
proof -
  have "x = r" if "x \<in> set rows" "key x = key r" for x
    using assms that by (auto simp: distinct_map dest: inj_onD)
  moreover have "select_one (\<lambda>x. key x = key r \<and> p x) rows = Some r" if "p r"
    using assms that by (induction rows) auto
  ultimately show ?thesis by auto
qed

section \<open>Reaching a store\<close>

text \<open>
  What one query sees: the database state at that moment, or an error when the store cannot be
  reached (a connection, configuration or missing-table error).  A function that makes several
  queries gets one such view for each, since other writers run in between.
\<close>

datatype db_error = Unreachable

type_synonym store = "db_error + db"

end
