(* ===== verification/RunView.thy ===== *)
theory RunView
  imports Json
begin

text \<open>
  The normalized run view model of \<open>features/workflows/lib/run-view-model.ts\<close>: one shape for
  the runs of both engines, the mapping of a Trigger.dev run and of a scheduler \<open>GetRun\<close> reply
  into it, and the reducer that folds the Evo event stream into it.  Dates and \<open>wall_ms\<close> are
  wall-clock milliseconds.  \<open>JSON.parse\<close> is the argument \<open>parse\<close> (\<open>None\<close> for a syntax error).
\<close>

section \<open>The model\<close>

datatype engine = Legacy | Evo

datatype norm_status = RQueued | RRunning | RSucceeded | RFailed | RCanceled | RUnknown

datatype step_status = SPending | SRunning | SDone | SFailed | SCanceled

record run_step =
  st_nodeId :: string
  st_type :: string
  st_title :: string
  st_status :: step_status
  st_durationMs :: "int option"
  st_output :: "jsval option"
  st_error :: "string option"

record vm_base =
  vm_id :: string
  vm_engine :: engine
  vm_status :: norm_status
  vm_createdAt :: "int option"
  vm_steps :: "run_step list"
  vm_session :: "string option"
  vm_liveSession :: "string option"
  vm_finalUrl :: "string option"
  vm_durationMs :: "int option"

record view_model = vm_base +
  vm_isLive :: bool
  vm_isTerminal :: bool
  vm_completedCount :: nat
  vm_failedCount :: nat
  vm_totalCount :: nat

fun isNormalizedLive :: "norm_status \<Rightarrow> bool" where
  "isNormalizedLive s = (s = RQueued \<or> s = RRunning)"

fun isNormalizedTerminal :: "norm_status \<Rightarrow> bool" where
  "isNormalizedTerminal s = (s = RSucceeded \<or> s = RFailed \<or> s = RCanceled)"

definition finalizeViewModel :: "vm_base \<Rightarrow> view_model" where
  "finalizeViewModel vm = vm_base.extend vm
     (view_model.fields
        (isNormalizedLive (vm_status vm))
        (isNormalizedTerminal (vm_status vm))
        (count_if (\<lambda>s. st_status s = SDone) (vm_steps vm))
        (count_if (\<lambda>s. st_status s = SFailed) (vm_steps vm))
        (length (vm_steps vm)))"

section \<open>Legacy Trigger.dev runs\<close>

text \<open>
  The task's output and the metadata it publishes while it runs carry the same four optional
  items; the metadata is untyped in the SDK and read under casts.
\<close>

record legacy_payload =
  lp_steps :: "run_step list option"
  lp_session :: "string option"
  lp_finalUrl :: "string option"
  lp_durationMs :: "int option"

record legacy_run =
  lr_id :: string
  lr_status :: string
  lr_createdAt :: int
  lr_output :: "legacy_payload option"
  lr_metadata :: "legacy_payload option"

text \<open>\<open>o?.f\<close>: the field of an object that may be missing.\<close>

definition opt_field :: "('r \<Rightarrow> 'a option) \<Rightarrow> 'r option \<Rightarrow> 'a option" where
  "opt_field f r = Option.bind r f"

definition mapLegacyStatus :: "string \<Rightarrow> norm_status" where
  "mapLegacyStatus s =
     (if s \<in> {''QUEUED'', ''WAITING_FOR_DEPLOY'', ''DELAYED''} then RQueued
      else if s \<in> {''EXECUTING'', ''REATTEMPTING'', ''FROZEN''} then RRunning
      else if s = ''COMPLETED'' then RSucceeded
      else if s \<in> {''FAILED'', ''CRASHED'', ''SYSTEM_FAILURE'', ''TIMED_OUT''} then RFailed
      else if s = ''CANCELED'' then RCanceled
      else RUnknown)"

text \<open>Sum of the known step durations, the fallback when no total was published.\<close>

definition sum_durations :: "run_step list \<Rightarrow> int option" where
  "sum_durations ss =
     (if ss \<noteq> [] then Some (foldl (\<lambda>t s. t + nullish (st_durationMs s) 0) 0 ss) else None)"

definition triggerRunToViewModel :: "legacy_run \<Rightarrow> view_model" where
  "triggerRunToViewModel run =
     (let status = mapLegacyStatus (lr_status run);
          out = lr_output run;
          meta = lr_metadata run;
          steps = nullish (nullish_opt (opt_field lp_steps out) (opt_field lp_steps meta)) [];
          durationMs = nullish_opt (opt_field lp_durationMs out)
            (nullish_opt (opt_field lp_durationMs meta) (sum_durations steps))
      in finalizeViewModel
        \<lparr>vm_id = lr_id run, vm_engine = Legacy, vm_status = status,
         vm_createdAt = Some (lr_createdAt run), vm_steps = steps,
         vm_session = opt_field lp_session out,
         vm_liveSession = nullish_opt (opt_field lp_session meta) (opt_field lp_session out),
         vm_finalUrl = nullish_opt (opt_field lp_finalUrl out) (opt_field lp_finalUrl meta),
         vm_durationMs = durationMs\<rparr>)"

section \<open>Scheduler run details\<close>

record evo_node_status =
  en_nodeId :: string
  en_nodeType :: string
  en_state :: string
  en_attemptNumber :: int
  en_output :: string
  en_error :: string
  en_startedAtMs :: "int option"
  en_finishedAtMs :: "int option"

record evo_run_detail =
  ed_runId :: string
  ed_status :: string
  ed_outcome :: string
  ed_createdAtMs :: "int option"
  ed_finishedAtMs :: "int option"
  ed_nodes :: "evo_node_status list"

definition mapEvoNodeState :: "string \<Rightarrow> step_status" where
  "mapEvoNodeState s =
     (if s = ''NODE_STATE_SUCCEEDED'' then SDone
      else if s \<in> {''NODE_STATE_FAILED'', ''NODE_STATE_DEAD_LETTER''} then SFailed
      else if s = ''NODE_STATE_CANCELED'' then SCanceled
      else if s = ''NODE_STATE_RUNNING'' then SRunning
      else SPending)"

definition mapEvoRunStatus :: "string \<Rightarrow> norm_status" where
  "mapEvoRunStatus s =
     (if s = ''RUN_QUEUED'' then RQueued
      else if s = ''RUN_RUNNING'' then RRunning
      else if s = ''RUN_SUCCEEDED'' then RSucceeded
      else if s = ''RUN_FAILED'' then RFailed
      else if s = ''RUN_CANCELED'' then RCanceled
      else RUnknown)"

text \<open>
  The opaque output string: parsed when it is JSON, kept as the raw string when it is not, and
  absent when it is empty.
\<close>

definition parse_or_raw :: "(string \<Rightarrow> jsval option) \<Rightarrow> string \<Rightarrow> jsval" where
  "parse_or_raw parse s = (case parse s of Some v \<Rightarrow> v | None \<Rightarrow> JStr s)"

definition evo_node_step :: "(string \<Rightarrow> jsval option) \<Rightarrow> evo_node_status \<Rightarrow> run_step" where
  "evo_node_step parse n =
     \<lparr>st_nodeId = en_nodeId n, st_type = en_nodeType n, st_title = en_nodeId n,
      st_status = mapEvoNodeState (en_state n),
      st_durationMs = diff_opt (en_finishedAtMs n) (en_startedAtMs n),
      st_output = (if en_output n = [] then None else Some (parse_or_raw parse (en_output n))),
      st_error = or_undef (en_error n)\<rparr>"

definition evoRunDetailToViewModel ::
    "(string \<Rightarrow> jsval option) \<Rightarrow> evo_run_detail \<Rightarrow> view_model" where
  "evoRunDetailToViewModel parse d = finalizeViewModel
     \<lparr>vm_id = ed_runId d, vm_engine = Evo, vm_status = mapEvoRunStatus (ed_status d),
      vm_createdAt = ed_createdAtMs d,
      vm_steps = map (evo_node_step parse) (ed_nodes d),
      vm_session = None, vm_liveSession = None, vm_finalUrl = None,
      vm_durationMs = diff_opt (ed_finishedAtMs d) (ed_createdAtMs d)\<rparr>"

section \<open>The event reducer\<close>

record evo_event =
  ev_run_id :: string
  ev_node_id :: string
  ev_kind :: string
  ev_detail :: string
  ev_wall_ms :: int
  ev_node_type :: "string option"
  ev_node_title :: "string option"
  ev_output_json :: "string option"
  ev_session :: "string option"
  ev_final_url :: "string option"

datatype event_kind =
    RunStarted | NodeDispatched | NodeSucceeded | NodeFailed | NodeCanceled
  | NodeRetryScheduled | NodeDeadLettered | RunFinished | BrowserSessionOpened | OtherKind

text \<open>The branch of the reducer's \<open>switch (ev.kind)\<close>.\<close>

definition kind_of :: "string \<Rightarrow> event_kind" where
  "kind_of k =
     (if k = ''run_started'' then RunStarted
      else if k = ''node_dispatched'' then NodeDispatched
      else if k = ''node_succeeded'' then NodeSucceeded
      else if k = ''node_failed'' then NodeFailed
      else if k = ''node_canceled'' then NodeCanceled
      else if k = ''node_retry_scheduled'' then NodeRetryScheduled
      else if k = ''node_dead_lettered'' then NodeDeadLettered
      else if k = ''run_finished'' then RunFinished
      else if k = ''browser_session_opened'' then BrowserSessionOpened
      else OtherKind)"

record red_step = run_step +
  rs_startedAtMs :: "int option"
  rs_finishedAtMs :: "int option"

record red_state =
  rd_status :: norm_status
  rd_createdAt :: "int option"
  rd_finishedAtMs :: "int option"
  rd_startedAtMs :: "int option"
  rd_session :: "string option"
  rd_finalUrl :: "string option"
  rd_steps :: "(string \<times> red_step) list"

definition init_red :: red_state where
  "init_red = \<lparr>rd_status = RQueued, rd_createdAt = None, rd_finishedAtMs = None,
     rd_startedAtMs = None, rd_session = None, rd_finalUrl = None, rd_steps = []\<rparr>"

definition new_step :: "string \<Rightarrow> red_step" where
  "new_step n = \<lparr>st_nodeId = n, st_type = [], st_title = n, st_status = SPending,
     st_durationMs = None, st_output = None, st_error = None,
     rs_startedAtMs = None, rs_finishedAtMs = None\<rparr>"

text \<open>\<open>ensureStep\<close> followed by mutations of the step it returns.\<close>

definition with_step ::
    "string \<Rightarrow> (red_step \<Rightarrow> red_step) \<Rightarrow> (string \<times> red_step) list \<Rightarrow> (string \<times> red_step) list" where
  "with_step n f m =
     AList.update n (f (case map_of m n of Some s \<Rightarrow> s | None \<Rightarrow> new_step n)) m"

definition set_duration :: "evo_event \<Rightarrow> red_step \<Rightarrow> red_step" where
  "set_duration ev s =
     (case rs_startedAtMs s of
        None \<Rightarrow> s
      | Some t \<Rightarrow> s\<lparr>st_durationMs := Some (ev_wall_ms ev - t)\<rparr>)"

definition on_dispatched :: "evo_event \<Rightarrow> red_step \<Rightarrow> red_step" where
  "on_dispatched ev s =
     (let type = nullish (ev_node_type ev) (ev_detail ev);
          s1 = (if type \<noteq> [] then s\<lparr>st_type := type\<rparr> else s);
          s2 = (if truthy (ev_node_title ev) then s1\<lparr>st_title := the (ev_node_title ev)\<rparr> else s1);
          s3 = (if st_status s2 = SPending then s2\<lparr>st_status := SRunning\<rparr> else s2)
      in s3\<lparr>rs_startedAtMs := Some (ev_wall_ms ev)\<rparr>)"

definition on_succeeded ::
    "(string \<Rightarrow> jsval option) \<Rightarrow> evo_event \<Rightarrow> red_step \<Rightarrow> red_step" where
  "on_succeeded parse ev s =
     (let s1 = s\<lparr>st_status := SDone, rs_finishedAtMs := Some (ev_wall_ms ev)\<rparr>;
          outputJson = nullish (ev_output_json ev) (ev_detail ev);
          s2 = (if outputJson \<noteq> []
                then s1\<lparr>st_output := Some (parse_or_raw parse outputJson)\<rparr> else s1)
      in set_duration ev s2)"

definition on_failed :: "evo_event \<Rightarrow> red_step \<Rightarrow> red_step" where
  "on_failed ev s =
     (let s1 = (if truthy (ev_node_type ev) then s\<lparr>st_type := the (ev_node_type ev)\<rparr> else s)
      in set_duration ev
        (s1\<lparr>st_status := SFailed, st_error := or_undef (ev_detail ev),
            rs_finishedAtMs := Some (ev_wall_ms ev)\<rparr>))"

definition on_canceled :: "evo_event \<Rightarrow> red_step \<Rightarrow> red_step" where
  "on_canceled ev s =
     (if st_status s \<noteq> SDone \<and> st_status s \<noteq> SFailed then s\<lparr>st_status := SCanceled\<rparr> else s)
       \<lparr>rs_finishedAtMs := Some (ev_wall_ms ev)\<rparr>"

definition on_retry_scheduled :: "red_step \<Rightarrow> red_step" where
  "on_retry_scheduled s =
     (if st_status s \<noteq> SDone \<and> st_status s \<noteq> SFailed then s\<lparr>st_status := SRunning\<rparr> else s)"

definition on_dead_lettered :: "evo_event \<Rightarrow> red_step \<Rightarrow> red_step" where
  "on_dead_lettered ev s =
     (if st_status s \<noteq> SDone
      then s\<lparr>st_status := SFailed, st_error := or_undef (ev_detail ev),
             rs_finishedAtMs := Some (ev_wall_ms ev)\<rparr>
      else s)"

definition finish_status :: "string \<Rightarrow> norm_status" where
  "finish_status detail =
     (if detail = ''succeeded'' then RSucceeded
      else if detail = ''canceled'' \<or> detail = ''stopped'' \<or> detail = ''timeout'' then RCanceled
      else RFailed)"

text \<open>What a node event does to its step.\<close>

definition step_action ::
    "(string \<Rightarrow> jsval option) \<Rightarrow> evo_event \<Rightarrow> (red_step \<Rightarrow> red_step) option" where
  "step_action parse ev =
     (case kind_of (ev_kind ev) of
        NodeDispatched \<Rightarrow> Some (on_dispatched ev)
      | NodeSucceeded \<Rightarrow> Some (on_succeeded parse ev)
      | NodeFailed \<Rightarrow> Some (on_failed ev)
      | NodeCanceled \<Rightarrow> Some (on_canceled ev)
      | NodeRetryScheduled \<Rightarrow> Some on_retry_scheduled
      | NodeDeadLettered \<Rightarrow> Some (on_dead_lettered ev)
      | _ \<Rightarrow> None)"

text \<open>What a run-level event does to the run's own variables.\<close>

definition run_action :: "evo_event \<Rightarrow> red_state \<Rightarrow> red_state" where
  "run_action ev st =
     (case kind_of (ev_kind ev) of
        RunStarted \<Rightarrow>
          st\<lparr>rd_status := RRunning, rd_startedAtMs := Some (ev_wall_ms ev),
             rd_createdAt := nullish_opt (rd_createdAt st) (Some (ev_wall_ms ev)),
             rd_session := (if truthy (ev_session ev) then ev_session ev else rd_session st)\<rparr>
      | RunFinished \<Rightarrow>
          st\<lparr>rd_finishedAtMs := Some (ev_wall_ms ev), rd_status := finish_status (ev_detail ev),
             rd_session := (if truthy (ev_session ev) then ev_session ev else rd_session st),
             rd_finalUrl := (if truthy (ev_final_url ev) then ev_final_url ev
                             else rd_finalUrl st)\<rparr>
      | BrowserSessionOpened \<Rightarrow>
          st\<lparr>rd_session := (if truthy (ev_session ev) then ev_session ev
                            else if ev_detail ev \<noteq> [] then Some (ev_detail ev)
                            else rd_session st)\<rparr>
      | _ \<Rightarrow> st)"

text \<open>One iteration of the loop over the events.\<close>

definition reduce_event ::
    "(string \<Rightarrow> jsval option) \<Rightarrow> string \<Rightarrow> red_state \<Rightarrow> evo_event \<Rightarrow> red_state" where
  "reduce_event parse runId st ev =
     (if ev_run_id ev \<noteq> runId then st
      else case step_action parse ev of
        Some f \<Rightarrow> st\<lparr>rd_steps := with_step (ev_node_id ev) f (rd_steps st)\<rparr>
      | None \<Rightarrow> run_action ev st)"

definition reduce_events ::
    "(string \<Rightarrow> jsval option) \<Rightarrow> string \<Rightarrow> red_state \<Rightarrow> evo_event list \<Rightarrow> red_state" where
  "reduce_events parse runId = foldl (reduce_event parse runId)"

definition red_view :: "string \<Rightarrow> red_state \<Rightarrow> view_model" where
  "red_view runId st = finalizeViewModel
     \<lparr>vm_id = runId, vm_engine = Evo, vm_status = rd_status st,
      vm_createdAt = rd_createdAt st,
      vm_steps = map (run_step.truncate \<circ> snd) (rd_steps st),
      vm_session = rd_session st, vm_liveSession = rd_session st,
      vm_finalUrl = rd_finalUrl st,
      vm_durationMs = diff_opt (rd_finishedAtMs st) (rd_startedAtMs st)\<rparr>"

definition reduceEvoEvents ::
    "(string \<Rightarrow> jsval option) \<Rightarrow> string \<Rightarrow> evo_event list \<Rightarrow> view_model" where
  "reduceEvoEvents parse runId events = red_view runId (reduce_events parse runId init_red events)"

section \<open>Redelivery\<close>

text \<open>
  A client that reconnects receives a stretch of the stream again.  The lemmas below show when
  folding that stretch a second time changes nothing.  The effect of a whole list of events on
  one step is summarised in normal form: what it does to the status (seven possible maps), and
  per field the value it writes, if any, which for the fields guarded by the status depends on
  whether the step was done beforehand.
\<close>

datatype st_eff = EId | EDisp | ECanc | ERetry | EDead | EConst step_status

fun apply_eff :: "st_eff \<Rightarrow> step_status \<Rightarrow> step_status" where
  "apply_eff EId s = s"
| "apply_eff EDisp s = (if s = SPending then SRunning else s)"
| "apply_eff ECanc s = (if s = SDone \<or> s = SFailed then s else SCanceled)"
| "apply_eff ERetry s = (if s = SDone \<or> s = SFailed then s else SRunning)"
| "apply_eff EDead s = (if s = SDone then s else SFailed)"
| "apply_eff (EConst c) s = c"

fun next_eff :: "event_kind \<Rightarrow> st_eff \<Rightarrow> st_eff" where
  "next_eff NodeSucceeded e = EConst SDone"
| "next_eff NodeFailed e = EConst SFailed"
| "next_eff NodeDispatched EId = EDisp"
| "next_eff NodeCanceled EId = ECanc"
| "next_eff NodeCanceled EDisp = ECanc"
| "next_eff NodeCanceled ERetry = ECanc"
| "next_eff NodeRetryScheduled EId = ERetry"
| "next_eff NodeRetryScheduled EDisp = ERetry"
| "next_eff NodeRetryScheduled ECanc = ERetry"
| "next_eff NodeDeadLettered (EConst c) = EConst c"
| "next_eff NodeDeadLettered e = EDead"
| "next_eff _ e = e"

datatype dur_eff = DKeep | DSet int | DFrom int

record eff =
  ef_st :: st_eff
  ef_type :: "string option"
  ef_title :: "string option"
  ef_out :: "jsval option option"
  ef_errD :: "string option option"
  ef_errN :: "string option option"
  ef_finD :: "int option option"
  ef_finN :: "int option option"
  ef_start :: "int option option"
  ef_dur :: dur_eff

definition id_eff :: eff where
  "id_eff = \<lparr>ef_st = EId, ef_type = None, ef_title = None, ef_out = None, ef_errD = None,
     ef_errN = None, ef_finD = None, ef_finN = None, ef_start = None, ef_dur = DKeep\<rparr>"

fun apply_dur :: "dur_eff \<Rightarrow> int option \<Rightarrow> int option \<Rightarrow> int option" where
  "apply_dur DKeep start d = d"
| "apply_dur (DSet x) start d = Some x"
| "apply_dur (DFrom w) start d = (case start of None \<Rightarrow> d | Some t \<Rightarrow> Some (w - t))"

definition apply_effect :: "eff \<Rightarrow> red_step \<Rightarrow> red_step" where
  "apply_effect E s = s\<lparr>st_type := nullish (ef_type E) (st_type s),
     st_title := nullish (ef_title E) (st_title s),
     st_status := apply_eff (ef_st E) (st_status s),
     st_durationMs := apply_dur (ef_dur E) (rs_startedAtMs s) (st_durationMs s),
     st_output := nullish (ef_out E) (st_output s),
     st_error := nullish (if st_status s = SDone then ef_errD E else ef_errN E) (st_error s),
     rs_startedAtMs := nullish (ef_start E) (rs_startedAtMs s),
     rs_finishedAtMs :=
       nullish (if st_status s = SDone then ef_finD E else ef_finN E) (rs_finishedAtMs s)\<rparr>"

definition dur_of :: "eff \<Rightarrow> int \<Rightarrow> dur_eff" where
  "dur_of E w = (case ef_start E of Some (Some t) \<Rightarrow> DSet (w - t) | _ \<Rightarrow> DFrom w)"

definition next_effect :: "(string \<Rightarrow> jsval option) \<Rightarrow> evo_event \<Rightarrow> eff \<Rightarrow> eff" where
  "next_effect parse ev E =
     (let k = kind_of (ev_kind ev); w = ev_wall_ms ev;
          E1 = E\<lparr>ef_st := next_eff k (ef_st E)\<rparr>;
          ty = nullish (ev_node_type ev) (ev_detail ev);
          oj = nullish (ev_output_json ev) (ev_detail ev)
      in case k of
        NodeDispatched \<Rightarrow> E1\<lparr>ef_start := Some (Some w),
          ef_type := (if ty \<noteq> [] then Some ty else ef_type E),
          ef_title := (if truthy (ev_node_title ev) then ev_node_title ev else ef_title E)\<rparr>
      | NodeSucceeded \<Rightarrow> E1\<lparr>ef_finD := Some (Some w), ef_finN := Some (Some w),
          ef_out := (if oj \<noteq> [] then Some (Some (parse_or_raw parse oj)) else ef_out E),
          ef_dur := dur_of E w\<rparr>
      | NodeFailed \<Rightarrow> E1\<lparr>ef_finD := Some (Some w), ef_finN := Some (Some w),
          ef_errD := Some (or_undef (ev_detail ev)), ef_errN := Some (or_undef (ev_detail ev)),
          ef_type := (if truthy (ev_node_type ev) then ev_node_type ev else ef_type E),
          ef_dur := dur_of E w\<rparr>
      | NodeCanceled \<Rightarrow> E1\<lparr>ef_finD := Some (Some w), ef_finN := Some (Some w)\<rparr>
      | NodeRetryScheduled \<Rightarrow> E1
      | NodeDeadLettered \<Rightarrow>
          (case ef_st E of
             EConst c \<Rightarrow> if c = SDone then E1
               else E1\<lparr>ef_finD := Some (Some w), ef_finN := Some (Some w),
                       ef_errD := Some (or_undef (ev_detail ev)),
                       ef_errN := Some (or_undef (ev_detail ev))\<rparr>
           | _ \<Rightarrow> E1\<lparr>ef_finN := Some (Some w), ef_errN := Some (or_undef (ev_detail ev))\<rparr>)
      | _ \<Rightarrow> E)"

definition wf_effect :: "eff \<Rightarrow> bool" where
  "wf_effect E \<longleftrightarrow>
     (case ef_st E of
        EConst c \<Rightarrow> (c = SDone \<or> c = SFailed) \<and> ef_finD E = ef_finN E \<and>
          (ef_errD E = ef_errN E \<or> c = SDone \<and> ef_errD E = None)
      | _ \<Rightarrow> ef_errD E = None) \<and>
     (ef_start E = None \<longrightarrow> (\<forall>x. ef_dur E \<noteq> DSet x)) \<and> ef_start E \<noteq> Some None"

definition ord_effect :: "eff \<Rightarrow> bool" where
  "ord_effect E \<longleftrightarrow> (case ef_dur E of DFrom w \<Rightarrow> ef_start E = None | _ \<Rightarrow> True)"

lemma apply_id_eff [simp]: "apply_effect id_eff s = s"
  by (simp add: apply_effect_def id_eff_def)

lemma wf_id_eff [simp]: "wf_effect id_eff" "ord_effect id_eff"
  by (simp_all add: wf_effect_def ord_effect_def id_eff_def)

lemmas step_action_defs = step_action_def on_dispatched_def on_succeeded_def on_failed_def
  on_canceled_def on_retry_scheduled_def on_dead_lettered_def set_duration_def

lemma truthy_the [simp]: "truthy s \<Longrightarrow> Some (the s) = s"
  by (cases s) auto

lemma wf_next_effect: "wf_effect E \<Longrightarrow> wf_effect (next_effect parse ev E)"
  by (cases "ef_st E"; cases "kind_of (ev_kind ev)")
    (auto simp: wf_effect_def next_effect_def Let_def dur_of_def split: option.splits)

lemma apply_effect_idem:
  assumes "wf_effect E" and "ord_effect E"
  shows "apply_effect E (apply_effect E s) = apply_effect E s"
  using assms
  by (cases "ef_st E"; cases "ef_dur E"; cases s)
    (auto simp: apply_effect_def wf_effect_def ord_effect_def nullish_idem split: option.splits)

lemma apply_next_effect:
  assumes "wf_effect E" and "step_action parse ev = Some f"
  shows "apply_effect (next_effect parse ev E) s = f (apply_effect E s)"
proof (cases "kind_of (ev_kind ev)")
  case NodeDispatched
  with assms show ?thesis
    by (cases "ef_st E"; cases s)
      (auto simp: step_action_defs apply_effect_def next_effect_def Let_def wf_effect_def
        truthy_iff)
next
  case NodeSucceeded
  with assms show ?thesis
    by (cases "ef_start E"; cases "ef_dur E"; cases s)
      (auto simp: step_action_defs apply_effect_def next_effect_def Let_def dur_of_def
        wf_effect_def split: option.splits)
next
  case NodeFailed
  with assms show ?thesis
    by (cases "ef_start E"; cases "ef_dur E"; cases s)
      (auto simp: step_action_defs apply_effect_def next_effect_def Let_def dur_of_def
        wf_effect_def truthy_iff split: option.splits)
next
  case NodeCanceled
  with assms show ?thesis
    by (cases "ef_st E"; cases s)
      (auto simp: step_action_defs apply_effect_def next_effect_def Let_def wf_effect_def)
next
  case NodeRetryScheduled
  with assms show ?thesis
    by (cases "ef_st E"; cases s)
      (auto simp: step_action_defs apply_effect_def next_effect_def Let_def wf_effect_def)
next
  case NodeDeadLettered
  with assms show ?thesis
    by (cases "ef_st E"; cases s)
      (auto simp: step_action_defs apply_effect_def next_effect_def Let_def wf_effect_def)
qed (use assms in \<open>auto simp: step_action_def\<close>)

text \<open>One step of the map, seen through the entry of one node.\<close>

definition node_event ::
    "(string \<Rightarrow> jsval option) \<Rightarrow> string \<Rightarrow> string \<Rightarrow> red_step option \<Rightarrow> evo_event \<Rightarrow> red_step option"
  where
  "node_event parse runId n entry ev =
     (if ev_run_id ev = runId \<and> ev_node_id ev = n then
        (case step_action parse ev of
           None \<Rightarrow> entry
         | Some f \<Rightarrow> Some (f (case entry of Some s \<Rightarrow> s | None \<Rightarrow> new_step n)))
      else entry)"

definition touches :: "(string \<Rightarrow> jsval option) \<Rightarrow> string \<Rightarrow> string \<Rightarrow> evo_event \<Rightarrow> bool" where
  "touches parse runId n ev \<longleftrightarrow>
     ev_run_id ev = runId \<and> ev_node_id ev = n \<and> step_action parse ev \<noteq> None"

definition list_effect ::
    "(string \<Rightarrow> jsval option) \<Rightarrow> string \<Rightarrow> string \<Rightarrow> evo_event list \<Rightarrow> eff" where
  "list_effect parse runId n =
     foldl (\<lambda>E ev. if touches parse runId n ev then next_effect parse ev E else E) id_eff"

lemma run_action_steps [simp]: "rd_steps (run_action ev st) = rd_steps st"
  by (simp add: run_action_def split: event_kind.splits)

lemma map_of_reduce_event:
  "map_of (rd_steps (reduce_event parse r st ev)) n = node_event parse r n (map_of (rd_steps st) n) ev"
  by (auto simp: reduce_event_def node_event_def with_step_def update_conv' split: option.splits)

lemma map_of_reduce_events:
  "map_of (rd_steps (reduce_events parse r st es)) n =
     foldl (node_event parse r n) (map_of (rd_steps st) n) es"
  by (induction es rule: rev_induct) (simp_all add: reduce_events_def map_of_reduce_event)

lemma wf_list_effect: "wf_effect (list_effect parse r n es)"
  by (induction es rule: rev_induct) (simp_all add: list_effect_def wf_next_effect)

lemma node_events_effect:
  "foldl (node_event parse r n) entry es =
     (if \<exists>ev \<in> set es. touches parse r n ev
      then Some (apply_effect (list_effect parse r n es)
                  (case entry of Some s \<Rightarrow> s | None \<Rightarrow> new_step n))
      else entry)"
proof (induction es rule: rev_induct)
  case Nil
  then show ?case by simp
next
  case (snoc ev es)
  show ?case
  proof (cases "touches parse r n ev")
    case True
    then obtain f where f: "step_action parse ev = Some f"
      by (auto simp: touches_def)
    have no: "list_effect parse r n es = id_eff" if "\<not> (\<exists>ev \<in> set es. touches parse r n ev)"
      using that by (induction es rule: rev_induct) (auto simp: list_effect_def)
    have "list_effect parse r n (es @ [ev]) = next_effect parse ev (list_effect parse r n es)"
      using True by (simp add: list_effect_def)
    then show ?thesis
      using True f snoc.IH no apply_next_effect [OF wf_list_effect f]
      by (auto simp: node_event_def touches_def)
  next
    case False
    then have "node_event parse r n x ev = x" for x
      by (auto simp: node_event_def touches_def split: option.splits)
    with False snoc.IH show ?thesis by (simp add: list_effect_def)
  qed
qed

text \<open>
  A stretch of events is orderly when no node is dispatched after a completion that no earlier
  dispatch of the stretch precedes: a stretch may begin in the middle of an attempt, but a
  dispatch never follows the completion of that attempt.
\<close>

fun orderly :: "string \<Rightarrow> string list \<Rightarrow> string list \<Rightarrow> evo_event list \<Rightarrow> bool" where
  "orderly runId D C [] = True"
| "orderly runId D C (ev # es) =
     (if ev_run_id ev \<noteq> runId then orderly runId D C es
      else case kind_of (ev_kind ev) of
        NodeDispatched \<Rightarrow>
          ev_node_id ev \<notin> set C \<and> orderly runId (ev_node_id ev # D) C es
      | NodeSucceeded \<Rightarrow>
          orderly runId D (if ev_node_id ev \<in> set D then C else ev_node_id ev # C) es
      | NodeFailed \<Rightarrow>
          orderly runId D (if ev_node_id ev \<in> set D then C else ev_node_id ev # C) es
      | _ \<Rightarrow> orderly runId D C es)"

lemma ef_start_next:
  "ef_start (next_effect parse ev E) =
     (if kind_of (ev_kind ev) = NodeDispatched then Some (Some (ev_wall_ms ev)) else ef_start E)"
  by (auto simp: next_effect_def Let_def split: event_kind.splits st_eff.splits)

lemma ef_dur_next:
  "ef_dur (next_effect parse ev E) =
     (if kind_of (ev_kind ev) = NodeSucceeded \<or> kind_of (ev_kind ev) = NodeFailed
      then dur_of E (ev_wall_ms ev) else ef_dur E)"
  by (auto simp: next_effect_def Let_def split: event_kind.splits st_eff.splits)

lemma dur_of_DFrom: "dur_of E w = DFrom v \<Longrightarrow> ef_start E \<noteq> Some None \<Longrightarrow> ef_start E = None"
  by (auto simp: dur_of_def split: option.splits)

lemma dur_of_started: "ef_start E = Some (Some t) \<Longrightarrow> dur_of E w = DSet (w - t)"
  by (simp add: dur_of_def)

lemma ord_effect_iff: "ord_effect E \<longleftrightarrow> (\<forall>w. ef_dur E = DFrom w \<longrightarrow> ef_start E = None)"
  by (auto simp: ord_effect_def split: dur_eff.splits)

lemma orderly_effect:
  assumes "orderly r D C es" and "n \<in> set D \<longrightarrow> ef_start E \<noteq> None"
    and "\<forall>w. ef_dur E = DFrom w \<longrightarrow> n \<in> set C" and "ord_effect E" and "ef_start E \<noteq> Some None"
  shows "ord_effect (foldl (\<lambda>E ev. if touches parse r n ev then next_effect parse ev E else E) E es)"
  using assms
proof (induction es arbitrary: D C E)
  case Nil
  then show ?case by simp
next
  case (Cons ev es)
  note IH = Cons.IH [of D C] Cons.IH [of "ev_node_id ev # D" C] Cons.IH [of D "ev_node_id ev # C"]
  show ?case
  proof (cases "touches parse r n ev")
    case False
    show ?thesis
    proof (cases "ev_run_id ev = r")
      case False
      with Cons show ?thesis by (simp add: touches_def)
    next
      case True
      with False have "ev_node_id ev = n \<Longrightarrow> step_action parse ev = None"
        by (auto simp: touches_def)
      with True \<open>\<not> touches parse r n ev\<close> Cons.prems IH [of E] show ?thesis
        by (cases "kind_of (ev_kind ev)") (auto simp: step_action_def split: if_splits)
    qed
  next
    case True
    then have own: "ev_run_id ev = r" "ev_node_id ev = n" by (auto simp: touches_def)
    have "ord_effect (foldl (\<lambda>E ev. if touches parse r n ev then next_effect parse ev E else E)
            (next_effect parse ev E) es)"
      using Cons.prems own IH [of "next_effect parse ev E"]
      by (cases "kind_of (ev_kind ev)")
        (auto simp: ef_start_next ef_dur_next ord_effect_iff dur_of_started
          split: if_splits dest: dur_of_DFrom)
    with True show ?thesis by simp
  qed
qed

lemma orderly_list_effect: "orderly r [] [] es \<Longrightarrow> ord_effect (list_effect parse r n es)"
  unfolding list_effect_def by (rule orderly_effect) (auto simp: id_eff_def ord_effect_def)

lemma node_events_again:
  assumes "orderly r [] [] es"
  shows "foldl (node_event parse r n) (foldl (node_event parse r n) entry es) es =
    foldl (node_event parse r n) entry es"
  using apply_effect_idem [OF wf_list_effect orderly_list_effect [OF assms]]
  by (simp add: node_events_effect)

lemma keys_reduce_event:
  "map fst (rd_steps (reduce_event parse r st ev)) =
     (if touches parse r (ev_node_id ev) ev \<and> ev_node_id ev \<notin> set (map fst (rd_steps st))
      then map fst (rd_steps st) @ [ev_node_id ev] else map fst (rd_steps st))"
  by (auto simp: reduce_event_def touches_def with_step_def update_keys split: option.splits)

lemma distinct_keys_reduce:
  "distinct (map fst (rd_steps st)) \<Longrightarrow>
     distinct (map fst (rd_steps (reduce_events parse r st es)))"
  by (induction es rule: rev_induct) (simp_all add: reduce_events_def keys_reduce_event)

lemma keys_reduce_same:
  "(\<And>ev. ev \<in> set es \<Longrightarrow> touches parse r (ev_node_id ev) ev \<Longrightarrow>
       ev_node_id ev \<in> set (map fst (rd_steps st))) \<Longrightarrow>
     map fst (rd_steps (reduce_events parse r st es)) = map fst (rd_steps st)"
  by (induction es rule: rev_induct) (auto simp: reduce_events_def keys_reduce_event)

lemma keys_touched:
  "ev \<in> set es \<Longrightarrow> touches parse r (ev_node_id ev) ev \<Longrightarrow>
     ev_node_id ev \<in> set (map fst (rd_steps (reduce_events parse r st es)))"
  by (induction es rule: rev_induct) (auto simp: reduce_events_def keys_reduce_event)

lemma steps_again:
  assumes "orderly r [] [] es" and "distinct (map fst (rd_steps st))"
  shows "rd_steps (reduce_events parse r (reduce_events parse r st es) es) =
    rd_steps (reduce_events parse r st es)" (is "?m2 = ?m1")
proof (rule alist_eqI)
  show "map fst ?m2 = map fst ?m1" by (rule keys_reduce_same) (rule keys_touched)
  show "distinct (map fst ?m1)" using assms(2) by (rule distinct_keys_reduce)
  show "map_of ?m2 = map_of ?m1"
    by (rule ext) (simp add: map_of_reduce_events node_events_again [OF assms(1)])
qed

text \<open>The run's own variables are overwritten, or kept once set; neither minds a repetition.\<close>

lemma run_fields_again:
  fixes st :: red_state and es :: "evo_event list" and r :: string
    and parse :: "string \<Rightarrow> jsval option"
  defines "once \<equiv> reduce_events parse r st es"
  defines "again \<equiv> reduce_events parse r once es"
  shows "rd_status again = rd_status once" and "rd_finishedAtMs again = rd_finishedAtMs once"
    and "rd_startedAtMs again = rd_startedAtMs once" and "rd_session again = rd_session once"
    and "rd_finalUrl again = rd_finalUrl once" and "rd_createdAt again = rd_createdAt once"
proof -
  note unf = again_def once_def reduce_events_def
  note ev_defs = reduce_event_def run_action_def step_action_def
  show "rd_status again = rd_status once"
    unfolding unf
    by (rule overwritten_field_again [where v = "\<lambda>ev. if ev_run_id ev \<noteq> r then None else
          case kind_of (ev_kind ev) of RunStarted \<Rightarrow> Some RRunning
          | RunFinished \<Rightarrow> Some (finish_status (ev_detail ev)) | _ \<Rightarrow> None"])
      (auto simp: ev_defs split: event_kind.splits)
  show "rd_finishedAtMs again = rd_finishedAtMs once"
    unfolding unf
    by (rule overwritten_field_again [where v = "\<lambda>ev. if ev_run_id ev \<noteq> r then None else
          case kind_of (ev_kind ev) of RunFinished \<Rightarrow> Some (Some (ev_wall_ms ev)) | _ \<Rightarrow> None"])
      (auto simp: ev_defs split: event_kind.splits)
  show "rd_startedAtMs again = rd_startedAtMs once"
    unfolding unf
    by (rule overwritten_field_again [where v = "\<lambda>ev. if ev_run_id ev \<noteq> r then None else
          case kind_of (ev_kind ev) of RunStarted \<Rightarrow> Some (Some (ev_wall_ms ev)) | _ \<Rightarrow> None"])
      (auto simp: ev_defs split: event_kind.splits)
  show "rd_session again = rd_session once"
    unfolding unf
    by (rule overwritten_field_again [where v = "\<lambda>ev. if ev_run_id ev \<noteq> r then None else
          case kind_of (ev_kind ev) of
            RunStarted \<Rightarrow> if truthy (ev_session ev) then Some (ev_session ev) else None
          | RunFinished \<Rightarrow> if truthy (ev_session ev) then Some (ev_session ev) else None
          | BrowserSessionOpened \<Rightarrow> if truthy (ev_session ev) then Some (ev_session ev)
              else if ev_detail ev \<noteq> [] then Some (Some (ev_detail ev)) else None
          | _ \<Rightarrow> None"])
      (auto simp: ev_defs split: event_kind.splits)
  show "rd_finalUrl again = rd_finalUrl once"
    unfolding unf
    by (rule overwritten_field_again [where v = "\<lambda>ev. if ev_run_id ev \<noteq> r then None else
          case kind_of (ev_kind ev) of
            RunFinished \<Rightarrow> if truthy (ev_final_url ev) then Some (ev_final_url ev) else None
          | _ \<Rightarrow> None"])
      (auto simp: ev_defs split: event_kind.splits)
  show "rd_createdAt again = rd_createdAt once"
    unfolding unf
    by (rule kept_field_again [where v = "\<lambda>ev. if ev_run_id ev \<noteq> r then None else
          case kind_of (ev_kind ev) of RunStarted \<Rightarrow> Some (ev_wall_ms ev) | _ \<Rightarrow> None"])
      (auto simp: ev_defs split: event_kind.splits)
qed

lemma reduce_events_again:
  assumes "orderly r [] [] es" and "distinct (map fst (rd_steps st))"
  shows "reduce_events parse r (reduce_events parse r st es) es = reduce_events parse r st es"
  using run_fields_again [of parse r st es] steps_again [OF assms, of parse]
  by (intro red_state.equality) simp_all

lemma reduce_events_append:
  "reduce_events parse r st (es @ fs) = reduce_events parse r (reduce_events parse r st es) fs"
  by (simp add: reduce_events_def)

lemma reduce_events_one: "reduce_events parse r st [ev] = reduce_event parse r st ev"
  by (simp add: reduce_events_def)

lemma distinct_reduce_init: "distinct (map fst (rd_steps (reduce_events parse r init_red es)))"
  by (rule distinct_keys_reduce) (simp add: init_red_def)

section \<open>What a view promises\<close>

text \<open>The derived part of a view model agrees with its status and its steps.\<close>

definition coherent_view :: "view_model \<Rightarrow> bool" where
  "coherent_view v \<longleftrightarrow>
     vm_isLive v = isNormalizedLive (vm_status v) \<and>
     vm_isTerminal v = isNormalizedTerminal (vm_status v) \<and>
     \<not> (vm_isLive v \<and> vm_isTerminal v) \<and>
     vm_completedCount v + vm_failedCount v \<le> vm_totalCount v \<and>
     vm_totalCount v = length (vm_steps v)"

lemma vm_finalize [simp]:
  "vm_id (finalizeViewModel b) = vm_id b" "vm_engine (finalizeViewModel b) = vm_engine b"
  "vm_status (finalizeViewModel b) = vm_status b"
  "vm_createdAt (finalizeViewModel b) = vm_createdAt b"
  "vm_steps (finalizeViewModel b) = vm_steps b" "vm_session (finalizeViewModel b) = vm_session b"
  "vm_liveSession (finalizeViewModel b) = vm_liveSession b"
  "vm_finalUrl (finalizeViewModel b) = vm_finalUrl b"
  "vm_durationMs (finalizeViewModel b) = vm_durationMs b"
  "vm_isLive (finalizeViewModel b) = isNormalizedLive (vm_status b)"
  "vm_isTerminal (finalizeViewModel b) = isNormalizedTerminal (vm_status b)"
  "vm_completedCount (finalizeViewModel b) = count_if (\<lambda>s. st_status s = SDone) (vm_steps b)"
  "vm_failedCount (finalizeViewModel b) = count_if (\<lambda>s. st_status s = SFailed) (vm_steps b)"
  "vm_totalCount (finalizeViewModel b) = length (vm_steps b)"
  by (simp_all add: finalizeViewModel_def vm_base.extend_def view_model.fields_def)

lemma coherent_finalize: "coherent_view (finalizeViewModel b)"
  by (auto simp: coherent_view_def intro!: count_if_disjoint)

text \<open>A settled step: its outcome is known.\<close>

definition settled :: "step_status \<Rightarrow> bool" where
  "settled s \<longleftrightarrow> s = SDone \<or> s = SFailed"

lemma settled_apply_eff:
  "wf_effect E \<Longrightarrow> settled s \<Longrightarrow> settled (apply_eff (ef_st E) s)"
  by (cases "ef_st E") (auto simp: settled_def wf_effect_def)

lemma st_status_apply [simp]: "st_status (apply_effect E s) = apply_eff (ef_st E) (st_status s)"
  by (simp add: apply_effect_def)

lemma settled_reduce:
  assumes "map_of (rd_steps st) n = Some s" and "settled (st_status s)"
  shows "\<exists>s'. map_of (rd_steps (reduce_events parse r st es)) n = Some s' \<and>
    settled (st_status s')"
  using assms wf_list_effect [of parse r n es]
  by (auto simp: map_of_reduce_events node_events_effect settled_apply_eff)

text \<open>The entries of the map are keyed by their own node ids, in order of first appearance.\<close>

definition keyed :: "(string \<times> red_step) list \<Rightarrow> bool" where
  "keyed m \<longleftrightarrow> (\<forall>(n, s) \<in> set m. st_nodeId s = n)"

lemma st_nodeId_action: "step_action parse ev = Some f \<Longrightarrow> st_nodeId (f s) = st_nodeId s"
  by (auto simp: step_action_defs Let_def split: event_kind.splits option.splits if_splits)

lemma keyed_with_step:
  assumes "keyed m" and "\<And>s. st_nodeId (f s) = st_nodeId s"
  shows "keyed (with_step n f m)"
proof -
  have "st_nodeId (f (case map_of m n of Some s \<Rightarrow> s | None \<Rightarrow> new_step n)) = n"
    using assms by (auto simp: keyed_def new_step_def split: option.splits dest!: map_of_SomeD)
  then show ?thesis
    using assms(1) set_update_subset [of n _ m] by (fastforce simp: keyed_def with_step_def)
qed

lemma keyed_reduce: "keyed (rd_steps st) \<Longrightarrow> keyed (rd_steps (reduce_events parse r st es))"
proof (induction es rule: rev_induct)
  case (snoc ev es)
  then have "keyed (rd_steps (reduce_events parse r st es))" by blast
  then show ?case
    by (auto simp: reduce_events_append reduce_events_one reduce_event_def
        intro: keyed_with_step st_nodeId_action split: option.splits)
qed (simp add: reduce_events_def)

lemma keyed_map: "keyed m \<Longrightarrow> map (st_nodeId \<circ> snd) m = map fst m"
  by (auto simp: keyed_def)

text \<open>Appending keys that are new, keeping the order of first appearance.\<close>

definition first_seen :: "'a list \<Rightarrow> 'a list" where
  "first_seen xs = rev (remdups (rev xs))"

lemma first_seen_snoc:
  "first_seen (xs @ [x]) = (if x \<in> set xs then first_seen xs else first_seen xs @ [x])"
  by (simp add: first_seen_def)

lemma set_first_seen [simp]: "set (first_seen xs) = set xs"
  by (simp add: first_seen_def)

definition node_ids :: "(string \<Rightarrow> jsval option) \<Rightarrow> string \<Rightarrow> evo_event list \<Rightarrow> string list" where
  "node_ids parse r es =
     map ev_node_id (filter (\<lambda>ev. ev_run_id ev = r \<and> step_action parse ev \<noteq> None) es)"

lemma keys_first_seen:
  "map fst (rd_steps (reduce_events parse r init_red es)) = first_seen (node_ids parse r es)"
proof (induction es rule: rev_induct)
  case Nil
  then show ?case by (simp add: reduce_events_def init_red_def node_ids_def first_seen_def)
next
  case (snoc ev es)
  let ?st = "reduce_events parse r init_red es"
  have "set (map fst (rd_steps ?st)) = set (node_ids parse r es)"
    by (simp add: snoc.IH del: set_map)
  with snoc.IH show ?case
    by (auto simp: reduce_events_append reduce_events_one keys_reduce_event
        node_ids_def first_seen_snoc touches_def simp del: set_map)
qed

section \<open>Properties\<close>

text \<open>
   C29. Redelivery is harmless: when a reconnecting client receives the events \<open>b\<close> a second time
  before the new events \<open>c\<close>, the folded view is the one of a single delivery, whatever came
  before, as long as the redelivered stretch is orderly.
\<close>

theorem redelivery_harmless:
  assumes "orderly r [] [] b"
  shows "reduceEvoEvents parse r (a @ b @ b @ c) = reduceEvoEvents parse r (a @ b @ c)"
  by (simp add: reduceEvoEvents_def reduce_events_append
      reduce_events_again [OF assms distinct_reduce_init])

definition sample_event :: "string \<Rightarrow> string \<Rightarrow> string \<Rightarrow> int \<Rightarrow> evo_event" where
  "sample_event kind node detail t =
     \<lparr>ev_run_id = ''r'', ev_node_id = node, ev_kind = kind, ev_detail = detail, ev_wall_ms = t,
      ev_node_type = None, ev_node_title = None, ev_output_json = None, ev_session = None,
      ev_final_url = None\<rparr>"

theorem redelivery_harmless_witness:
  "orderly ''r'' [] [] [sample_event ''node_succeeded'' ''n'' ''ok'' 9,
       sample_event ''node_dispatched'' ''m'' ''act'' 10] \<and>
   reduceEvoEvents (\<lambda>s. None) ''r''
     ([sample_event ''node_dispatched'' ''n'' ''act'' 4] @
      [sample_event ''node_succeeded'' ''n'' ''ok'' 9, sample_event ''node_dispatched'' ''m'' ''act'' 10] @
      [sample_event ''node_succeeded'' ''n'' ''ok'' 9, sample_event ''node_dispatched'' ''m'' ''act'' 10] @
      [sample_event ''run_finished'' [] ''succeeded'' 12]) =
   reduceEvoEvents (\<lambda>s. None) ''r''
     ([sample_event ''node_dispatched'' ''n'' ''act'' 4] @
      [sample_event ''node_succeeded'' ''n'' ''ok'' 9, sample_event ''node_dispatched'' ''m'' ''act'' 10] @
      [sample_event ''run_finished'' [] ''succeeded'' 12])"
proof -
  have "orderly ''r'' [] [] [sample_event ''node_succeeded'' ''n'' ''ok'' 9,
      sample_event ''node_dispatched'' ''m'' ''act'' 10]"
    by (simp add: sample_event_def kind_of_def)
  then show ?thesis using redelivery_harmless by blast
qed

text \<open>
   The reducer is not idempotent for a single late duplicate: delivering the run's own
  \<open>run_started\<close> again after the run finished makes the finished run read as live.  The comment
  of the reducer promises that applying the same event twice does not change the result.
\<close>

theorem late_duplicate_revives_run:
  assumes "vm_isTerminal (reduceEvoEvents parse r es)" and "ev \<in> set es"
    and "ev_run_id ev = r" and "ev_kind ev = ''run_started''"
  shows "vm_isLive (reduceEvoEvents parse r (es @ [ev])) \<and>
    \<not> vm_isTerminal (reduceEvoEvents parse r (es @ [ev]))"
  using assms
  by (simp add: reduceEvoEvents_def reduce_events_append reduce_events_one reduce_event_def
      step_action_def run_action_def kind_of_def red_view_def)

theorem late_duplicate_revives_run_witness:
  "vm_isLive (reduceEvoEvents (\<lambda>s. None) ''r''
     ([sample_event ''run_started'' [] [] 1, sample_event ''run_finished'' [] ''succeeded'' 5] @
      [sample_event ''run_started'' [] [] 1]))"
proof -
  let ?es = "[sample_event ''run_started'' [] [] 1, sample_event ''run_finished'' [] ''succeeded'' 5]"
  have "vm_isTerminal (reduceEvoEvents (\<lambda>s. None) ''r'' ?es)"
    by (simp add: reduceEvoEvents_def reduce_events_def reduce_event_def step_action_def
        run_action_def kind_of_def red_view_def sample_event_def finish_status_def)
  then show ?thesis
    using late_duplicate_revives_run [of "\<lambda>s. None" "''r''" ?es "sample_event ''run_started'' [] [] 1"]
    by (simp add: sample_event_def)
qed

text \<open>
   Isolation: the view of a run depends only on the run's own events; the events of other
  runs in the shared stream never reach it.
\<close>

theorem other_runs_ignored:
  "reduceEvoEvents parse r es = reduceEvoEvents parse r (filter (\<lambda>ev. ev_run_id ev = r) es)"
proof -
  have "reduce_events parse r st es = reduce_events parse r st (filter (\<lambda>ev. ev_run_id ev = r) es)"
    for st
    by (induction es arbitrary: st) (simp_all add: reduce_events_def reduce_event_def)
  then show ?thesis by (simp add: reduceEvoEvents_def)
qed

text \<open>
   Shape of the view: the steps are exactly the nodes the run's node events mention, each
  once and in the order of their first event; the counters, the live and the terminal flag agree
  with the steps and the status.
\<close>

theorem view_steps_and_counters:
  "map st_nodeId (vm_steps (reduceEvoEvents parse r es)) = first_seen (node_ids parse r es) \<and>
   distinct (map st_nodeId (vm_steps (reduceEvoEvents parse r es))) \<and>
   coherent_view (reduceEvoEvents parse r es)"
proof -
  let ?m = "rd_steps (reduce_events parse r init_red es)"
  have "keyed ?m" by (rule keyed_reduce) (simp add: init_red_def keyed_def)
  then have "map (st_nodeId \<circ> snd) ?m = map fst ?m" by (rule keyed_map)
  moreover have "map st_nodeId (vm_steps (reduceEvoEvents parse r es)) = map (st_nodeId \<circ> snd) ?m"
    by (simp add: reduceEvoEvents_def red_view_def run_step.truncate_def comp_def)
  moreover have "coherent_view (reduceEvoEvents parse r es)"
    by (simp add: reduceEvoEvents_def red_view_def coherent_finalize)
  ultimately show ?thesis
    using distinct_reduce_init [of parse r es] by (simp add: keys_first_seen)
qed

text \<open>
   A settled step stays settled: once a step of the view is done or failed, no later event
  makes it pending, running or canceled again.
\<close>

theorem settled_step_stays_settled:
  assumes "s \<in> set (vm_steps (reduceEvoEvents parse r es))" and "settled (st_status s)"
  shows "\<exists>s' \<in> set (vm_steps (reduceEvoEvents parse r (es @ fs))).
    st_nodeId s' = st_nodeId s \<and> settled (st_status s')"
proof -
  let ?st = "reduce_events parse r init_red es"
  have keyed: "keyed (rd_steps (reduce_events parse r init_red xs))" for xs
    by (rule keyed_reduce) (simp add: init_red_def keyed_def)
  from assms(1) obtain n t where t: "(n, t) \<in> set (rd_steps ?st)" and s: "s = run_step.truncate t"
    by (auto simp: reduceEvoEvents_def red_view_def)
  have "map_of (rd_steps ?st) n = Some t" "settled (st_status t)"
    using t distinct_reduce_init [of parse r es] s assms(2)
    by (auto simp: map_of_is_SomeI run_step.truncate_def)
  then obtain t' where "map_of (rd_steps (reduce_events parse r init_red (es @ fs))) n = Some t'"
      and settled: "settled (st_status t')"
    unfolding reduce_events_append by (blast dest: settled_reduce)
  then have t': "(n, t') \<in> set (rd_steps (reduce_events parse r init_red (es @ fs)))"
    by (blast dest: map_of_SomeD)
  have "st_nodeId t = n" "st_nodeId t' = n"
    using t t' keyed [of es] keyed [of "es @ fs"] by (auto simp: keyed_def)
  then show ?thesis
    using t' settled s
    by (intro bexI [of _ "run_step.truncate t'"])
      (auto simp: reduceEvoEvents_def red_view_def run_step.truncate_def intro!: rev_image_eqI)
qed

theorem settled_step_stays_settled_witness:
  "\<exists>s' \<in> set (vm_steps (reduceEvoEvents (\<lambda>s. None) ''r''
       ([sample_event ''node_succeeded'' ''n'' ''ok'' 1] @ [sample_event ''node_dispatched'' ''n'' ''act'' 2]))).
     st_nodeId s' = ''n'' \<and> settled (st_status s')"
proof -
  let ?s = "\<lparr>st_nodeId = ''n'', st_type = [], st_title = ''n'', st_status = SDone,
    st_durationMs = None, st_output = Some (JStr ''ok''), st_error = None\<rparr>"
  have "?s \<in> set (vm_steps (reduceEvoEvents (\<lambda>s. None) ''r''
      [sample_event ''node_succeeded'' ''n'' ''ok'' 1]))"
    by (simp add: reduceEvoEvents_def reduce_events_def reduce_event_def step_action_defs
        kind_of_def red_view_def sample_event_def with_step_def init_red_def new_step_def
        parse_or_raw_def run_step.truncate_def Let_def)
  then show ?thesis
    using settled_step_stays_settled [of ?s "\<lambda>s. None" "''r''"
        "[sample_event ''node_succeeded'' ''n'' ''ok'' 1]"
        "[sample_event ''node_dispatched'' ''n'' ''act'' 2]"]
    by (simp add: settled_def)
qed

end
