(* ===== verification/RunConsole.thy ===== *)
theory RunConsole
  imports RunView
begin

text \<open>
  The console runs of \<open>features/workflows/lib/run-console.ts\<close>: the flat record the console,
  canvas and results dialog render for a run of either engine, the two mappings into it, the
  status label, and the newest-first merge of both engines' lists.
\<close>

section \<open>Console runs\<close>

text \<open>Legacy runs keep the provider's status string, Evo runs their normalized status.\<close>

datatype console_status = RawStatus string | NormStatus norm_status

record console_run =
  cr_id :: string
  cr_engine :: engine
  cr_status :: console_status
  cr_createdAt :: int
  cr_isLive :: bool
  cr_isTerminal :: bool
  cr_isCompleted :: bool
  cr_isFailed :: bool
  cr_isCanceled :: bool
  cr_steps :: "run_step list"
  cr_session :: "string option"
  cr_liveSession :: "string option"
  cr_finalUrl :: "string option"
  cr_durationMs :: "int option"
  cr_completedCount :: nat
  cr_failedCount :: nat
  cr_totalCount :: nat

definition isLegacyRunLive :: "legacy_run \<Rightarrow> bool" where
  "isLegacyRunLive run \<longleftrightarrow> lr_status run = ''QUEUED'' \<or> lr_status run = ''EXECUTING''"

definition isLegacyRunTerminal :: "legacy_run \<Rightarrow> bool" where
  "isLegacyRunTerminal run \<longleftrightarrow> lr_status run \<in> {''COMPLETED'', ''FAILED'', ''CANCELED''}"

definition legacyStepsForRun :: "legacy_run \<Rightarrow> run_step list" where
  "legacyStepsForRun run =
     nullish (nullish_opt (opt_field lp_steps (lr_output run))
                          (opt_field lp_steps (lr_metadata run))) []"

definition legacySessionIdForRun :: "legacy_run \<Rightarrow> string option" where
  "legacySessionIdForRun run = opt_field lp_session (lr_output run)"

definition legacyLiveSessionIdForRun :: "legacy_run \<Rightarrow> string option" where
  "legacyLiveSessionIdForRun run =
     nullish_opt (opt_field lp_session (lr_metadata run)) (opt_field lp_session (lr_output run))"

definition toConsoleRunFromLegacy :: "legacy_run \<Rightarrow> console_run" where
  "toConsoleRunFromLegacy run =
     (let steps = legacyStepsForRun run; isLive = isLegacyRunLive run in
      \<lparr>cr_id = lr_id run, cr_engine = Legacy, cr_status = RawStatus (lr_status run),
       cr_createdAt = lr_createdAt run, cr_isLive = isLive,
       cr_isTerminal = isLegacyRunTerminal run,
       cr_isCompleted = (lr_status run = ''COMPLETED'' \<and> \<not> isLive),
       cr_isFailed = (lr_status run = ''FAILED''),
       cr_isCanceled = (lr_status run = ''CANCELED''),
       cr_steps = steps,
       cr_session = legacySessionIdForRun run,
       cr_liveSession = legacyLiveSessionIdForRun run,
       cr_finalUrl = nullish_opt (opt_field lp_finalUrl (lr_output run))
                                 (opt_field lp_finalUrl (lr_metadata run)),
       cr_durationMs = nullish_opt (opt_field lp_durationMs (lr_output run))
         (nullish_opt (opt_field lp_durationMs (lr_metadata run)) (sum_durations steps)),
       cr_completedCount = count_if (\<lambda>s. st_status s = SDone) steps,
       cr_failedCount = count_if (\<lambda>s. st_status s = SFailed) steps,
       cr_totalCount = length steps\<rparr>)"

text \<open>The copy of an Evo step keeps every field (only the static type changes).\<close>

definition evoStepToRunStep :: "run_step \<Rightarrow> run_step" where
  "evoStepToRunStep s =
     \<lparr>st_nodeId = st_nodeId s, st_type = st_type s, st_title = st_title s,
      st_status = st_status s, st_durationMs = st_durationMs s, st_output = st_output s,
      st_error = st_error s\<rparr>"

definition toConsoleRunFromEvo :: "view_model \<Rightarrow> console_run" where
  "toConsoleRunFromEvo vm =
     \<lparr>cr_id = vm_id vm, cr_engine = Evo, cr_status = NormStatus (vm_status vm),
      cr_createdAt = nullish (vm_createdAt vm) 0, cr_isLive = vm_isLive vm,
      cr_isTerminal = vm_isTerminal vm,
      cr_isCompleted = (vm_status vm = RSucceeded),
      cr_isFailed = (vm_status vm = RFailed),
      cr_isCanceled = (vm_status vm = RCanceled),
      cr_steps = map evoStepToRunStep (vm_steps vm),
      cr_session = vm_session vm, cr_liveSession = vm_liveSession vm,
      cr_finalUrl = vm_finalUrl vm, cr_durationMs = vm_durationMs vm,
      cr_completedCount = vm_completedCount vm, cr_failedCount = vm_failedCount vm,
      cr_totalCount = vm_totalCount vm\<rparr>"

fun norm_status_text :: "norm_status \<Rightarrow> string" where
  "norm_status_text RQueued = ''queued''"
| "norm_status_text RRunning = ''running''"
| "norm_status_text RSucceeded = ''succeeded''"
| "norm_status_text RFailed = ''failed''"
| "norm_status_text RCanceled = ''canceled''"
| "norm_status_text RUnknown = ''unknown''"

fun console_status_text :: "console_status \<Rightarrow> string" where
  "console_status_text (RawStatus s) = s"
| "console_status_text (NormStatus s) = norm_status_text s"

text \<open>The label \<open>Running\<dots>\<close> ends with the ellipsis character, written as its UTF-8 bytes.\<close>

definition consoleRunStatusLabel :: "console_run \<Rightarrow> string" where
  "consoleRunStatusLabel run =
     (if cr_isLive run then ''Running'' @ [CHR 0xE2, CHR 0x80, CHR 0xA6]
      else if cr_isCompleted run then ''Completed''
      else if cr_isFailed run then ''Failed''
      else if cr_isCanceled run then ''Stopped''
      else to_lower (console_status_text (cr_status run)))"

section \<open>Merging both engines\<close>

text \<open>The \<open>filter\<close> with its set of ids already seen.\<close>

fun keep_unseen :: "string set \<Rightarrow> console_run list \<Rightarrow> console_run list" where
  "keep_unseen seen [] = []"
| "keep_unseen seen (r # rs) =
     (if cr_id r \<in> seen then keep_unseen seen rs
      else r # keep_unseen (insert (cr_id r) seen) rs)"

text \<open>\<open>Array.prototype.sort\<close> is stable; the comparator orders by descending creation time.\<close>

definition mergeConsoleRuns :: "console_run list \<Rightarrow> console_run list \<Rightarrow> console_run list" where
  "mergeConsoleRuns legacyRuns evoRuns =
     keep_unseen {} (sort_key (\<lambda>r. - cr_createdAt r) (legacyRuns @ evoRuns))"

section \<open>Lemmas\<close>

lemma set_keep_unseen: "set (keep_unseen seen rs) \<subseteq> set rs"
  by (induction seen rs rule: keep_unseen.induct) auto

lemma ids_keep_unseen: "cr_id ` set (keep_unseen seen rs) = cr_id ` set rs - seen"
  by (induction seen rs rule: keep_unseen.induct) auto

lemma distinct_keep_unseen: "distinct (map cr_id (keep_unseen seen rs))"
  by (induction seen rs rule: keep_unseen.induct) (auto simp: ids_keep_unseen)

lemma sorted_wrt_keep_unseen:
  "sorted_wrt P rs \<Longrightarrow> sorted_wrt P (keep_unseen seen rs)"
  by (induction seen rs rule: keep_unseen.induct) (auto dest: set_keep_unseen [THEN subsetD])

lemma keep_unseen_first:
  assumes "sorted_wrt (\<lambda>a b. cr_createdAt b \<le> cr_createdAt a) rs"
    and "r \<in> set (keep_unseen seen rs)" and "q \<in> set rs" and "cr_id q = cr_id r"
  shows "cr_createdAt q \<le> cr_createdAt r"
  using assms
proof (induction seen rs rule: keep_unseen.induct)
  case (2 seen x rs)
  have "cr_id r \<notin> insert (cr_id x) seen" if "r \<in> set (keep_unseen (insert (cr_id x) seen) rs)"
    using that ids_keep_unseen [of "insert (cr_id x) seen" rs] by blast
  moreover have "cr_id r \<notin> seen" if "r \<in> set (keep_unseen seen rs)"
    using that ids_keep_unseen [of seen rs] by blast
  ultimately show ?case using 2 by (auto split: if_splits)
qed simp

lemma sorted_merge_input:
  "sorted_wrt (\<lambda>a b. cr_createdAt b \<le> cr_createdAt a) (sort_key (\<lambda>r. - cr_createdAt r) rs)"
  using sorted_sort_key [of "\<lambda>r. - cr_createdAt r" rs]
  by (simp add: sorted_map)

section \<open>Properties\<close>

text \<open>
   The merged list is newest first, names every run of either engine exactly once, and keeps
  for each id the newest of the runs that carry it.
\<close>

theorem merge_newest_first_unique:
  "sorted_wrt (\<lambda>a b. cr_createdAt b \<le> cr_createdAt a) (mergeConsoleRuns ls es) \<and>
   distinct (map cr_id (mergeConsoleRuns ls es)) \<and>
   cr_id ` set (mergeConsoleRuns ls es) = cr_id ` (set ls \<union> set es) \<and>
   (\<forall>r \<in> set (mergeConsoleRuns ls es). r \<in> set ls \<union> set es \<and>
      (\<forall>q \<in> set ls \<union> set es. cr_id q = cr_id r \<longrightarrow> cr_createdAt q \<le> cr_createdAt r))"
proof -
  let ?m = "sort_key (\<lambda>r. - cr_createdAt r) (ls @ es)"
  have "set (keep_unseen {} ?m) \<subseteq> set ?m" by (rule set_keep_unseen)
  then show ?thesis
    using keep_unseen_first [OF sorted_merge_input, of _ "{}" "ls @ es"] sorted_merge_input
      sorted_wrt_keep_unseen [OF sorted_merge_input, of "{}" "ls @ es"]
    by (auto simp: mergeConsoleRuns_def ids_keep_unseen distinct_keep_unseen)
qed

definition sample_run :: "string \<Rightarrow> int \<Rightarrow> console_run" where
  "sample_run i t = toConsoleRunFromLegacy
     \<lparr>lr_id = i, lr_status = ''COMPLETED'', lr_createdAt = t, lr_output = None, lr_metadata = None\<rparr>"

theorem merge_newest_first_unique_witness:
  "cr_createdAt (sample_run ''a'' 3) \<le> cr_createdAt (sample_run ''a'' 7) \<and>
   sample_run ''a'' 7 \<in> set (mergeConsoleRuns [sample_run ''a'' 3] [sample_run ''a'' 7])"
proof -
  have m: "sample_run ''a'' 7 \<in> set (mergeConsoleRuns [sample_run ''a'' 3] [sample_run ''a'' 7])"
    by (simp add: mergeConsoleRuns_def sample_run_def toConsoleRunFromLegacy_def Let_def)
  then have "cr_createdAt (sample_run ''a'' 3) \<le> cr_createdAt (sample_run ''a'' 7)"
    using merge_newest_first_unique [of "[sample_run ''a'' 3]" "[sample_run ''a'' 7]"]
    by (auto simp: sample_run_def toConsoleRunFromLegacy_def Let_def)
  with m show ?thesis by blast
qed

text \<open>The five flags every consumer renders from.\<close>

definition console_flags :: "console_run \<Rightarrow> bool list" where
  "console_flags r =
     [cr_isLive r, cr_isTerminal r, cr_isCompleted r, cr_isFailed r, cr_isCanceled r]"

text \<open>
   Parity, exactly: the console flags of a legacy run agree with those of the normalized view
  of the same run just when the Trigger.dev status is one of the five the console knows or one
  the normalized model does not know either.  For the other seven statuses (waiting for deploy,
  delayed, reattempting, frozen, crashed, system failure, timed out) they differ: a crashed
  legacy run is neither live nor terminal nor failed in the console.
\<close>

theorem legacy_flags_parity:
  "console_flags (toConsoleRunFromLegacy run) =
     console_flags (toConsoleRunFromEvo (triggerRunToViewModel run)) \<longleftrightarrow>
   lr_status run \<in> {''QUEUED'', ''EXECUTING'', ''COMPLETED'', ''FAILED'', ''CANCELED''} \<or>
   mapLegacyStatus (lr_status run) = RUnknown"
  by (auto simp: console_flags_def toConsoleRunFromLegacy_def toConsoleRunFromEvo_def
      triggerRunToViewModel_def isLegacyRunLive_def isLegacyRunTerminal_def mapLegacyStatus_def
      Let_def split: if_splits)

end
