(* ===== verification/RunEvents.thy ===== *)
theory RunEvents
  imports RunView Schema
begin

text \<open>
  How a client learns what an Evo run did: the reader of the Redis event stream and the durable
  snapshot (\<open>features/workflows/lib/evo-run-events.ts\<close>), the server-sent-event response
  (\<open>evo-run-events-route.ts\<close>), the run list (\<open>evo-runs.ts\<close>) and the artifact readers
  (\<open>evo-run-data.ts\<close>).

  Redis is an input: the reply of each \<open>XRANGE\<close> and \<open>XREAD\<close> is given to the definitions, which
  return what the code does with it.  \<open>JSON.parse\<close> of an event payload is the parameter
  \<open>parse_event\<close>.
\<close>

section \<open>Stream entries\<close>

text \<open>An entry is its id and the flat list of its field names and values.\<close>

type_synonym entry = "string \<times> string list"

text \<open>
  A parsed payload: its \<open>run_id\<close> and \<open>kind\<close>, which are checked, and the whole seen through the
  cast to \<open>EvoRunEvent\<close>, which is not.
\<close>

record raw_event =
  raw_run_id :: jsval
  raw_kind :: jsval
  raw_typed :: evo_event

record streamed_event =
  se_streamId :: string
  se_event :: evo_event

fun js_string :: "jsval \<Rightarrow> string option" where
  "js_string (JStr s) = Some s"
| "js_string _ = None"

fun find_index :: "('a \<Rightarrow> bool) \<Rightarrow> 'a list \<Rightarrow> nat option" where
  "find_index p [] = None"
| "find_index p (x # xs) = (if p x then Some 0 else map_option Suc (find_index p xs))"

definition parseStreamEntry :: "(string \<Rightarrow> raw_event option) \<Rightarrow> entry \<Rightarrow> streamed_event option" where
  "parseStreamEntry parse_event entry =
     (case find_index (\<lambda>f. f = ''payload'') (snd entry) of
        None \<Rightarrow> None
      | Some idx \<Rightarrow>
          if idx + 1 \<ge> length (snd entry) then None
          else (case parse_event (snd entry ! (idx + 1)) of
              None \<Rightarrow> None
            | Some raw \<Rightarrow>
                (case (js_string (raw_run_id raw), js_string (raw_kind raw)) of
                   (Some r, Some k) \<Rightarrow>
                     Some \<lparr>se_streamId = fst entry,
                           se_event = (raw_typed raw)\<lparr>ev_run_id := r, ev_kind := k\<rparr>\<rparr>
                 | _ \<Rightarrow> None)))"

text \<open>The events of one run among some entries, in stream order.\<close>

definition own_events ::
    "(string \<Rightarrow> raw_event option) \<Rightarrow> string \<Rightarrow> entry list \<Rightarrow> streamed_event list" where
  "own_events parse_event runId entries =
     filter (\<lambda>e. ev_run_id (se_event e) = runId)
       (List.map_filter (parseStreamEntry parse_event) entries)"

section \<open>Replay\<close>

text \<open>
  The loop over the reply of \<open>XRANGE\<close>, with its two variables; \<open>readEvoRunEvents\<close> starts it at
  \<open>0-0\<close>, \<open>replayRunEvents\<close> at the exclusive bound.
\<close>

fun replay_loop ::
    "(string \<Rightarrow> raw_event option) \<Rightarrow> string \<Rightarrow> streamed_event list \<times> string \<Rightarrow> entry list
      \<Rightarrow> streamed_event list \<times> string" where
  "replay_loop parse_event runId (events, lastId) [] = (events, lastId)"
| "replay_loop parse_event runId (events, lastId) (entry # entries) =
     replay_loop parse_event runId
       (case parseStreamEntry parse_event entry of
          Some p \<Rightarrow> if ev_run_id (se_event p) = runId then events @ [p] else events
        | None \<Rightarrow> events, fst entry) entries"

definition readEvoRunEvents ::
    "(string \<Rightarrow> raw_event option) \<Rightarrow> string \<Rightarrow> entry list \<Rightarrow> streamed_event list \<times> string" where
  "readEvoRunEvents parse_event runId reply = replay_loop parse_event runId ([], ''0-0'') reply"

definition replayRunEvents ::
    "(string \<Rightarrow> raw_event option) \<Rightarrow> string \<Rightarrow> string \<Rightarrow> entry list
      \<Rightarrow> streamed_event list \<times> string" where
  "replayRunEvents parse_event runId start reply =
     replay_loop parse_event runId
       ([], if starts_with start ''('' then drop 1 start else ''0-0'') reply"

lemma replay_loop_eq:
  "replay_loop parse_event r (evs, l) es =
     (evs @ own_events parse_event r es, last (l # map fst es))"
  by (induction es arbitrary: evs l)
    (auto simp: own_events_def map_filter_simps split: option.splits)

section \<open>Tailing\<close>

text \<open>
  One iteration of the loop: the abort flag and the clock the loop condition reads, the reply
  of the blocking read (entries per stream, nothing within the block time, or an error), and
  the clock at the end of the iteration.
\<close>

datatype read_reply = Hiccup | Timeout | Entries "(string \<times> entry list) list"

record poll =
  pl_aborted :: bool
  pl_now :: int
  pl_reply :: read_reply
  pl_idle_now :: int

datatype tail_action = TRead string | TEvent evo_event | TIdle int

datatype tail_end = TailTerminal | TailHiccup | TailStopped | TailWaiting

text \<open>The two nested loops over a reply: new cursor, delivered events, whether it returned.\<close>

fun tail_entries ::
    "(string \<Rightarrow> raw_event option) \<Rightarrow> string \<Rightarrow> bool \<Rightarrow> string \<Rightarrow> entry list
      \<Rightarrow> string \<times> evo_event list \<times> bool" where
  "tail_entries parse_event runId stop cursor [] = (cursor, [], False)"
| "tail_entries parse_event runId stop cursor (entry # entries) =
     (case parseStreamEntry parse_event entry of
        None \<Rightarrow> tail_entries parse_event runId stop (fst entry) entries
      | Some p \<Rightarrow>
          if ev_run_id (se_event p) \<noteq> runId
          then tail_entries parse_event runId stop (fst entry) entries
          else if stop \<and> ev_kind (se_event p) = ''run_finished''
          then (fst entry, [se_event p], True)
          else (let (c, evs, fin) = tail_entries parse_event runId stop (fst entry) entries
                in (c, se_event p # evs, fin)))"

text \<open>
  The loop, over the iterations the environment grants; when they run out the reader is still
  waiting.  \<open>deadline\<close> is \<open>None\<close> for an infinite deadline.
\<close>

fun tailEvoRunEvents ::
    "(string \<Rightarrow> raw_event option) \<Rightarrow> string \<Rightarrow> bool \<Rightarrow> int option \<Rightarrow> string \<Rightarrow> poll list
      \<Rightarrow> tail_action list \<times> tail_end" where
  "tailEvoRunEvents parse_event runId stop deadline cursor [] = ([], TailWaiting)"
| "tailEvoRunEvents parse_event runId stop deadline cursor (p # ps) =
     (if pl_aborted p \<or> (\<exists>d. deadline = Some d \<and> \<not> pl_now p < d) then ([], TailStopped)
      else case pl_reply p of
        Hiccup \<Rightarrow> ([TRead cursor], TailHiccup)
      | Timeout \<Rightarrow>
          (let (acts, e) = tailEvoRunEvents parse_event runId stop deadline cursor ps
           in (TRead cursor # TIdle (pl_idle_now p) # acts, e))
      | Entries reply \<Rightarrow>
          (let (c, evs, fin) =
                 tail_entries parse_event runId stop cursor (concat (map snd reply))
           in if fin then (TRead cursor # map TEvent evs, TailTerminal)
              else let (acts, e) = tailEvoRunEvents parse_event runId stop deadline c ps
                   in (TRead cursor # map TEvent evs @ TIdle (pl_idle_now p) # acts, e)))"

text \<open>The events a prefix of the stream yields up to and including the first finish.\<close>

fun upto_finish :: "evo_event list \<Rightarrow> evo_event list" where
  "upto_finish [] = []"
| "upto_finish (e # es) = (if ev_kind e = ''run_finished'' then [e] else e # upto_finish es)"

definition has_finish :: "evo_event list \<Rightarrow> bool" where
  "has_finish es \<longleftrightarrow> (\<exists>e \<in> set es. ev_kind e = ''run_finished'')"

lemma upto_finish_append:
  "upto_finish (xs @ ys) = (if has_finish xs then upto_finish xs else xs @ upto_finish ys)"
  by (induction xs) (auto simp: has_finish_def)

lemma upto_finish_noop: "\<not> has_finish xs \<Longrightarrow> upto_finish xs = xs"
  using upto_finish_append [of xs "[]"] by simp

lemma own_events_Nil [simp]: "own_events parse_event r [] = []"
  by (simp add: own_events_def map_filter_simps)

lemma own_events_append:
  "own_events parse_event r (xs @ ys) = own_events parse_event r xs @ own_events parse_event r ys"
  by (simp add: own_events_def map_filter_def)

lemma own_events_Cons:
  "own_events parse_event r (x # xs) =
     (case parseStreamEntry parse_event x of
        Some p \<Rightarrow> if ev_run_id (se_event p) = r then p # own_events parse_event r xs
                  else own_events parse_event r xs
      | None \<Rightarrow> own_events parse_event r xs)"
  by (auto simp: own_events_def map_filter_simps split: option.splits)

lemma tail_entries_eq:
  "tail_entries parse_event r True c es = (c', evs, fin) \<Longrightarrow>
     evs = upto_finish (map se_event (own_events parse_event r es)) \<and>
     (fin \<longleftrightarrow> has_finish (map se_event (own_events parse_event r es))) \<and>
     (\<not> fin \<longrightarrow> c' = last (c # map fst es))"
  by (induction parse_event r True c es arbitrary: c' evs fin rule: tail_entries.induct)
    (auto simp: own_events_Cons has_finish_def split: option.splits if_splits prod.splits)

section \<open>The durable snapshot\<close>

definition mapNodeStatus :: "string \<Rightarrow> step_status" where
  "mapNodeStatus s =
     (if s = ''succeeded'' then SDone
      else if s = ''failed'' \<or> s = ''dead_lettered'' then SFailed
      else if s = ''canceled'' then SCanceled
      else if s = ''running'' \<or> s = ''dispatched'' \<or> s = ''ready'' \<or> s = ''retry_wait'' then SRunning
      else SPending)"

definition mapRunStatus :: "string \<Rightarrow> norm_status" where
  "mapRunStatus s =
     (if s = ''queued'' then RQueued
      else if s = ''running'' then RRunning
      else if s = ''succeeded'' then RSucceeded
      else if s = ''failed'' then RFailed
      else if s = ''canceled'' then RCanceled
      else RUnknown)"

text \<open>The step of one node row, for a mapping of its status.\<close>

definition node_row_step :: "(string \<Rightarrow> step_status) \<Rightarrow> node_run_row \<Rightarrow> run_step" where
  "node_row_step status_of n =
     \<lparr>st_nodeId = nr_nodeId n, st_type = nr_nodeType n, st_title = nr_nodeId n,
      st_status = status_of (nr_status n),
      st_durationMs = diff_opt (nr_finishedAt n) (nr_startedAt n),
      st_output = Option.bind (nr_output n) (\<lambda>v. if is_nullish v then None else Some v),
      st_error = nr_failureReason n\<rparr>"

definition run_row_view ::
    "(string \<Rightarrow> norm_status) \<Rightarrow> (string \<Rightarrow> step_status) \<Rightarrow> workflow_run_row \<Rightarrow> node_run_row list
      \<Rightarrow> view_model" where
  "run_row_view run_status status_of run nodes = finalizeViewModel
     \<lparr>vm_id = wr_id run, vm_engine = Evo, vm_status = run_status (wr_status run),
      vm_createdAt = Some (wr_createdAt run),
      vm_steps = map (node_row_step status_of) nodes,
      vm_session = wr_browserbaseSessionId run, vm_liveSession = wr_browserbaseSessionId run,
      vm_finalUrl = None,
      vm_durationMs = diff_opt (wr_finishedAt run) (wr_startedAt run)\<rparr>"

definition nodes_of_run :: "string \<Rightarrow> db \<Rightarrow> node_run_row list" where
  "nodes_of_run runId d = filter (\<lambda>n. nr_runId n = runId) (db_nodeRuns d)"

definition durableRunSnapshot ::
    "string \<Rightarrow> store \<Rightarrow> store \<Rightarrow> db_error + view_model option" where
  "durableRunSnapshot runId store1 store2 =
     bind_res store1 (\<lambda>d1.
       case select_one (\<lambda>r. wr_id r = runId) (db_runs d1) of
         None \<Rightarrow> Inr None
       | Some run \<Rightarrow> bind_res store2 (\<lambda>d2.
           Inr (Some (run_row_view mapRunStatus mapNodeStatus run (nodes_of_run runId d2)))))"

text \<open>Replay and fold; the snapshot only when the stream has nothing for the run.\<close>

definition loadEvoRunView ::
    "(string \<Rightarrow> jsval option) \<Rightarrow> (string \<Rightarrow> raw_event option) \<Rightarrow> entry list \<Rightarrow> string
      \<Rightarrow> store \<Rightarrow> store \<Rightarrow> db_error + view_model option" where
  "loadEvoRunView parse parse_event reply runId store1 store2 =
     (let (events, lastId) = readEvoRunEvents parse_event runId reply in
      if length events > 0 then Inr (Some (reduceEvoEvents parse runId (map se_event events)))
      else durableRunSnapshot runId store1 store2)"

section \<open>The run list\<close>

text \<open>\<open>evo-runs.ts\<close> has its own copies of the two mappings.\<close>

definition list_mapRunStatus :: "string \<Rightarrow> norm_status" where
  "list_mapRunStatus s =
     (if s = ''queued'' then RQueued
      else if s = ''running'' then RRunning
      else if s = ''succeeded'' then RSucceeded
      else if s = ''failed'' then RFailed
      else if s = ''canceled'' then RCanceled
      else RUnknown)"

definition list_mapNodeStatus :: "string \<Rightarrow> step_status" where
  "list_mapNodeStatus s =
     (if s = ''succeeded'' then SDone
      else if s = ''failed'' \<or> s = ''dead_lettered'' then SFailed
      else if s = ''canceled'' then SCanceled
      else if s = ''running'' \<or> s = ''dispatched'' \<or> s = ''ready'' then SRunning
      else SPending)"

text \<open>
  The store handle itself may fail to be made, the run query may fail, and each run's node query
  may fail: \<open>store2 run\<close> is what the node query of that run sees.
\<close>

definition listEvoRunsForWorkflow ::
    "string \<Rightarrow> string \<Rightarrow> store \<Rightarrow> (string \<Rightarrow> store) \<Rightarrow> view_model list" where
  "listEvoRunsForWorkflow orgId workflowId store1 store2 =
     (case store1 of
        Inl e \<Rightarrow> []
      | Inr d \<Rightarrow>
          map (\<lambda>run. run_row_view list_mapRunStatus list_mapNodeStatus run
                 (case store2 (wr_id run) of
                    Inl e \<Rightarrow> [] | Inr d2 \<Rightarrow> nodes_of_run (wr_id run) d2))
            (sort_key (\<lambda>r. - wr_createdAt r)
              (filter (\<lambda>r. wr_orgId r = orgId \<and> wr_workflowId r = workflowId \<and>
                           wr_engine r = ''evo'') (db_runs d))))"

section \<open>Artifacts and the live-view handshake\<close>

definition getEvoRunOrgId :: "string \<Rightarrow> store \<Rightarrow> string option" where
  "getEvoRunOrgId runId store =
     (case store of
        Inl e \<Rightarrow> None
      | Inr d \<Rightarrow> map_option wr_orgId (select_one (\<lambda>r. wr_id r = runId) (db_runs d)))"

definition getEvoRunArtifact :: "string \<Rightarrow> string \<Rightarrow> store \<Rightarrow> run_artifact_row option" where
  "getEvoRunArtifact orgId runId store =
     (case store of
        Inl e \<Rightarrow> None
      | Inr d \<Rightarrow> select_one (\<lambda>a. ra_runId a = runId \<and> ra_orgId a = orgId) (db_artifacts d))"

definition getEvoRunBrowserbaseSessionId :: "string \<Rightarrow> string \<Rightarrow> store \<Rightarrow> string option" where
  "getEvoRunBrowserbaseSessionId orgId runId store =
     (case store of
        Inl e \<Rightarrow> None
      | Inr d \<Rightarrow> Option.bind (select_one (\<lambda>r. wr_id r = runId \<and> wr_orgId r = orgId) (db_runs d))
                  wr_browserbaseSessionId)"

text \<open>An insert that does nothing when the key is taken; \<open>now\<close> is the database's clock.\<close>

definition insert_live_view :: "int \<Rightarrow> string \<Rightarrow> string option \<Rightarrow> db \<Rightarrow> db" where
  "insert_live_view now sessionId runId d =
     (if sessionId \<in> lv_sessionId ` set (db_liveViews d) then d
      else d\<lparr>db_liveViews := db_liveViews d @
        [\<lparr>lv_sessionId = sessionId, lv_runId = runId, lv_connectedAt = now\<rparr>]\<rparr>)"

definition markEvoLiveViewConnected ::
    "int \<Rightarrow> string \<Rightarrow> string option \<Rightarrow> store \<Rightarrow> store" where
  "markEvoLiveViewConnected now sessionId runId store =
     (case store of Inl e \<Rightarrow> Inl e | Inr d \<Rightarrow> Inr (insert_live_view now sessionId runId d))"

definition isEvoLiveViewConnected :: "string \<Rightarrow> store \<Rightarrow> bool" where
  "isEvoLiveViewConnected sessionId store =
     (case store of
        Inl e \<Rightarrow> True
      | Inr d \<Rightarrow> select_one (\<lambda>v. lv_sessionId v = sessionId) (db_liveViews d) \<noteq> None)"

section \<open>The event response\<close>

datatype frame = RunEvent "string option" evo_event | Snapshot view_model | Ping

text \<open>The text of a frame; the two arguments are \<open>JSON.stringify\<close> on the two payload types.\<close>

definition line_feed :: string where
  "line_feed = [CHR 0x0A]"

definition sseFrame :: "string \<Rightarrow> string \<Rightarrow> string option \<Rightarrow> string" where
  "sseFrame event data eid =
     ''event: '' @ event @ line_feed
       @ (if truthy eid then ''id: '' @ the eid @ line_feed else [])
       @ ''data: '' @ data @ line_feed @ line_feed"

fun frame_text :: "(evo_event \<Rightarrow> string) \<Rightarrow> (view_model \<Rightarrow> string) \<Rightarrow> frame \<Rightarrow> string" where
  "frame_text je jv (RunEvent eid ev) = sseFrame ''run-event'' (je ev) eid"
| "frame_text je jv (Snapshot vm) = sseFrame ''snapshot'' (jv vm) None"
| "frame_text je jv Ping = '': ping'' @ line_feed @ line_feed"

definition KEEPALIVE_MS :: int where "KEEPALIVE_MS = 15000"
definition MAX_STREAM_MS :: int where "MAX_STREAM_MS = 10 * 60000"

text \<open>The two callbacks given to the tail: an event is written out, an idle turn may ping.\<close>

fun tail_frames :: "int \<Rightarrow> tail_action list \<Rightarrow> frame list" where
  "tail_frames lastPing [] = []"
| "tail_frames lastPing (TRead c # acts) = tail_frames lastPing acts"
| "tail_frames lastPing (TEvent ev # acts) = RunEvent None ev # tail_frames lastPing acts"
| "tail_frames lastPing (TIdle now # acts) =
     (if now - lastPing \<ge> KEEPALIVE_MS then Ping # tail_frames now acts
      else tail_frames lastPing acts)"

text \<open>What the request meets: the stores of its queries, the replay's reply, clock and polls.\<close>

record sse_env =
  sx_store :: store
  sx_xrange :: "string \<Rightarrow> entry list option"
  sx_snapshot1 :: store
  sx_snapshot2 :: store
  sx_now :: int
  sx_tail_start :: int
  sx_polls :: "poll list"

datatype sse_response = NotFound404 | EventStream "frame list" bool

text \<open>
  The body of \<open>start(controller)\<close>: the frames written and whether the stream has been closed.
  An error anywhere closes it.  The abort raised when a finish is delivered is not a separate
  flag here, because the tail returns at that event.
\<close>

definition sse_body ::
    "(string \<Rightarrow> raw_event option) \<Rightarrow> string \<Rightarrow> string option \<Rightarrow> sse_env \<Rightarrow> frame list \<times> bool" where
  "sse_body parse_event runId lastEventId env =
     (let replayFrom = (if truthy lastEventId then ''('' @ the lastEventId else ''-'') in
      case sx_xrange env replayFrom of
        None \<Rightarrow> ([], True)
      | Some reply \<Rightarrow>
          (let (events, lastStreamId) = replayRunEvents parse_event runId replayFrom reply;
               replayed = map (\<lambda>e. RunEvent (Some (se_streamId e)) (se_event e)) events;
               sawTerminal = (\<exists>e \<in> set events. ev_kind (se_event e) = ''run_finished'');
               snap = (if length events = 0
                       then durableRunSnapshot runId (sx_snapshot1 env) (sx_snapshot2 env)
                       else Inr None)
           in case snap of
             Inl e \<Rightarrow> (replayed, True)
           | Inr snapshot \<Rightarrow>
               (let shown = (case snapshot of None \<Rightarrow> [] | Some vm \<Rightarrow> [Snapshot vm]);
                    finished = (case snapshot of None \<Rightarrow> False | Some vm \<Rightarrow> vm_isTerminal vm)
                in if finished \<or> sawTerminal then (replayed @ shown, True)
                   else (let (acts, e) = tailEvoRunEvents parse_event runId True
                               (Some (sx_tail_start env + MAX_STREAM_MS)) lastStreamId
                               (sx_polls env)
                         in (replayed @ shown @ tail_frames (sx_now env) acts,
                             e \<noteq> TailWaiting)))))"

definition buildEvoRunEventsResponse ::
    "(string \<Rightarrow> raw_event option) \<Rightarrow> string \<Rightarrow> string \<Rightarrow> string option \<Rightarrow> sse_env
      \<Rightarrow> db_error + sse_response" where
  "buildEvoRunEventsResponse parse_event runId orgId lastEventId env =
     bind_res (sx_store env) (\<lambda>d.
       case select_one (\<lambda>r. wr_id r = runId) (db_runs d) of
         None \<Rightarrow> Inr NotFound404
       | Some run \<Rightarrow>
           if wr_orgId run \<noteq> orgId \<or> wr_engine run \<noteq> ''evo'' then Inr NotFound404
           else Inr (case sse_body parse_event runId lastEventId env of
                       (frames, closed) \<Rightarrow> EventStream frames closed))"

section \<open>Delivery\<close>

text \<open>The events a client reads out of the frames.\<close>

fun event_of_frame :: "frame \<Rightarrow> evo_event option" where
  "event_of_frame (RunEvent eid ev) = Some ev"
| "event_of_frame _ = None"

definition delivered :: "frame list \<Rightarrow> evo_event list" where
  "delivered fs = List.map_filter event_of_frame fs"

lemma delivered_simps [simp]:
  "delivered [] = []"
  "delivered (RunEvent i ev # fs) = ev # delivered fs"
  "delivered (Snapshot vm # fs) = delivered fs"
  "delivered (Ping # fs) = delivered fs"
  "delivered (fs @ gs) = delivered fs @ delivered gs"
  by (simp_all add: delivered_def map_filter_def)

lemma delivered_replay [simp]:
  "delivered (map (\<lambda>e. RunEvent (i e) (f e)) es) = map f es"
  by (induction es) simp_all

fun tail_events :: "tail_action list \<Rightarrow> evo_event list" where
  "tail_events [] = []"
| "tail_events (TEvent ev # acts) = ev # tail_events acts"
| "tail_events (_ # acts) = tail_events acts"

lemma tail_events_map [simp]: "tail_events (map TEvent evs @ acts) = evs @ tail_events acts"
  "tail_events (map TEvent evs) = evs"
  by (induction evs) simp_all

lemma delivered_tail_frames: "delivered (tail_frames t acts) = tail_events acts"
  by (induction t acts rule: tail_frames.induct) simp_all

text \<open>
  Redis as the code uses it.  Stream ids are ordered by \<open>key\<close>; the stream is append-only, so what
  it holds at any moment is a prefix of one list \<open>log\<close>, ordered by id.  A range or blocking read
  returns every entry it holds whose id is later than the cursor, in order.
\<close>

definition id_ordered :: "(string \<Rightarrow> nat) \<Rightarrow> entry list \<Rightarrow> bool" where
  "id_ordered key log \<longleftrightarrow> sorted_wrt (\<lambda>a b. key (fst a) < key (fst b)) log"

definition later :: "(string \<Rightarrow> nat) \<Rightarrow> string \<Rightarrow> entry list \<Rightarrow> entry list" where
  "later key c es = filter (\<lambda>e. key c < key (fst e)) es"

fun honest_polls :: "(string \<Rightarrow> nat) \<Rightarrow> entry list \<Rightarrow> nat \<Rightarrow> string \<Rightarrow> poll list \<Rightarrow> bool" where
  "honest_polls key log n c [] = True"
| "honest_polls key log n c (p # ps) =
     (case pl_reply p of
        Hiccup \<Rightarrow> True
      | Timeout \<Rightarrow> honest_polls key log n c ps
      | Entries reply \<Rightarrow>
          (\<exists>m \<in> set [n ..< Suc (length log)].
             concat (map snd reply) = later key c (take m log) \<and>
             honest_polls key log m (last (c # map fst (concat (map snd reply)))) ps))"

lemma later_Nil [simp]: "later key c [] = []"
  by (simp add: later_def)

lemma later_append: "later key c (xs @ ys) = later key c xs @ later key c ys"
  by (simp add: later_def)

lemma later_last:
  fixes c :: string
  assumes "id_ordered key (xs @ ys)"
  defines "c' \<equiv> last (c # map fst (later key c xs))"
  shows "later key c' xs = []" and "later key c (xs @ ys) = later key c xs @ later key c' (xs @ ys)"
proof -
  have max: "key (fst e) \<le> key c' \<and> key c \<le> key c'" if "e \<in> set xs" for e
  proof (cases "later key c xs")
    case Nil
    with that show ?thesis by (auto simp: c'_def later_def filter_empty_conv not_less)
  next
    case (Cons a list)
    have o: "sorted_wrt (\<lambda>a b. key (fst a) < key (fst b)) (later key c xs)"
      using assms(1) by (simp add: id_ordered_def later_def sorted_wrt_append sorted_wrt_filter)
    obtain zs z where z: "later key c xs = zs @ [z]" using Cons by (metis rev_exhaust list.distinct(1))
    have c': "c' = fst z" by (simp add: c'_def z)
    have kz: "key c < key (fst z)"
      using z by (metis (mono_tags, lifting) in_set_conv_decomp later_def mem_Collect_eq set_filter)
    have "key (fst e) \<le> key (fst z)"
    proof (cases "key c < key (fst e)")
      case True
      then have "e \<in> set (zs @ [z])" using that z [symmetric] by (simp add: later_def)
      then show ?thesis using o z by (auto simp: sorted_wrt_append intro: less_imp_le)
    next
      case False
      with kz show ?thesis by simp
    qed
    with kz c' show ?thesis by simp
  qed
  show n: "later key c' xs = []"
    using max by (auto simp: later_def filter_empty_conv not_less)
  have "later key c ys = later key c' ys"
  proof (cases "later key c xs")
    case Nil
    then show ?thesis by (simp add: c'_def)
  next
    case (Cons a list)
    have "c' \<in> fst ` set (later key c xs)"
      unfolding c'_def using Cons by (metis last_ConsR last_in_set list.distinct(1) list.map_disc_iff set_map)
    then obtain z where z: "z \<in> set xs" "c' = fst z" by (auto simp: later_def)
    have "key c' < key (fst e) \<and> key c < key (fst e)" if "e \<in> set ys" for e
      using assms(1) z that max [OF z(1)] by (fastforce simp: id_ordered_def sorted_wrt_append)
    then show ?thesis by (auto simp: later_def intro: filter_cong)
  qed
  with n show "later key c (xs @ ys) = later key c xs @ later key c' (xs @ ys)"
    by (simp add: later_append)
qed

lemma id_ordered_take: "id_ordered key log \<Longrightarrow> id_ordered key (take n log)"
  by (simp add: id_ordered_def sorted_wrt_take)

lemma later_take_step:
  fixes c :: string
  assumes "id_ordered key log" and "m1 \<le> m"
  defines "c' \<equiv> last (c # map fst (later key c (take m1 log)))"
  shows "later key c (take m log) = later key c (take m1 log) @ later key c' (take m log)"
proof -
  have "take m log = take m1 log @ take (m - m1) (drop m1 log)"
    using assms(2) by (metis le_add_diff_inverse take_add)
  with later_last(2) [of key "take m1 log" "take (m - m1) (drop m1 log)" c]
    id_ordered_take [OF assms(1), of m]
  show ?thesis by (simp add: c'_def)
qed

lemma later_take_none:
  assumes "id_ordered key log"
  shows "later key (last (c # map fst (later key c (take m log)))) (take m log) = []"
  using later_last(1) [of key "take m log" "[]" c] id_ordered_take [OF assms, of m] by simp

abbreviation own :: "(string \<Rightarrow> raw_event option) \<Rightarrow> string \<Rightarrow> entry list \<Rightarrow> evo_event list" where
  "own parse_event r es \<equiv> map se_event (own_events parse_event r es)"

lemma honest_entries:
  assumes "honest_polls key log n c (p # ps)" and "pl_reply p = Entries reply"
  shows "\<exists>m. n \<le> m \<and> m \<le> length log \<and> concat (map snd reply) = later key c (take m log) \<and>
    honest_polls key log m (last (c # map fst (concat (map snd reply)))) ps"
proof -
  from assms have "\<exists>m \<in> set [n ..< Suc (length log)].
      concat (map snd reply) = later key c (take m log) \<and>
      honest_polls key log m (last (c # map fst (concat (map snd reply)))) ps"
    by (simp only: honest_polls.simps read_reply.case)
  then obtain m where m: "m \<in> set [n ..< Suc (length log)]"
    and rest: "concat (map snd reply) = later key c (take m log) \<and>
      honest_polls key log m (last (c # map fst (concat (map snd reply)))) ps" ..
  from m have "n \<le> m \<and> m \<le> length log"
    by (simp only: set_upt atLeastLessThan_iff less_Suc_eq_le)
  with rest show ?thesis by (intro exI [of _ m]) (elim conjE, intro conjI)
qed

lemma own_after:
  assumes "id_ordered key log" and "m1 \<le> m"
    and "\<not> has_finish (own parse_event r (later key c (take m1 log)))"
  shows "upto_finish (own parse_event r (later key c (take m log))) =
    own parse_event r (later key c (take m1 log)) @
    upto_finish (own parse_event r (later key (last (c # map fst (later key c (take m1 log)))) (take m log)))"
  using later_take_step [OF assms(1,2), of c] assms(3) by (simp add: own_events_append upto_finish_append)

lemma tail_delivers:
  assumes "id_ordered key log" and "honest_polls key log n c ps"
    and "later key c (take n log) = []" and "n \<le> length log"
  shows "\<exists>m \<ge> n. m \<le> length log \<and>
    tail_events (fst (tailEvoRunEvents parse_event r True d c ps)) =
      upto_finish (own parse_event r (later key c (take m log)))"
  using assms(2-)
proof (induction ps arbitrary: n c)
  case Nil
  then show ?case by (auto intro!: exI [of _ n])
next
  case (Cons p ps)
  show ?case
  proof (cases "pl_aborted p \<or> (\<exists>t. d = Some t \<and> \<not> pl_now p < t)")
    case True
    then show ?thesis using Cons.prems by (auto intro!: exI [of _ n])
  next
    case go: False
    show ?thesis
    proof (cases "pl_reply p")
      case Hiccup
      then show ?thesis using Cons.prems go by (auto intro!: exI [of _ n])
    next
      case Timeout
      then show ?thesis using Cons.IH [of n c] Cons.prems go by (auto split: prod.splits)
    next
      case (Entries reply)
      define es where "es = concat (map snd reply)"
      define c' where "c' = last (c # map fst es)"
      obtain m1 where m1: "n \<le> m1" "m1 \<le> length log" "es = later key c (take m1 log)"
        "honest_polls key log m1 c' ps"
        using honest_entries [OF Cons.prems(1) Entries] unfolding es_def c'_def by blast
      obtain c2 evs fin where t: "tail_entries parse_event r True c es = (c2, evs, fin)"
        by (cases "tail_entries parse_event r True c es") auto
      note te = tail_entries_eq [OF t]
      show ?thesis
      proof (cases fin)
        case True
        with te t go Entries m1 show ?thesis
          by (auto intro!: exI [of _ m1] simp flip: es_def)
      next
        case False
        with te have c2: "c2 = c'" and evs: "evs = own parse_event r es"
          by (auto simp: c'_def upto_finish_noop)
        have "later key c' (take m1 log) = []"
          using later_take_none [OF assms(1), of c m1] by (simp add: c'_def m1(3))
        then obtain m where m: "m1 \<le> m" "m \<le> length log"
          "tail_events (fst (tailEvoRunEvents parse_event r True d c' ps)) =
             upto_finish (own parse_event r (later key c' (take m log)))"
          using Cons.IH [OF m1(4) _ m1(2)] by blast
        have "upto_finish (own parse_event r (later key c (take m log))) =
            evs @ upto_finish (own parse_event r (later key c' (take m log)))"
          using own_after [OF assms(1) m(1), of parse_event r c] te False evs by (simp add: c'_def m1(3))
        with m m1 t go Entries c2 False show ?thesis
          by (auto intro!: exI [of _ m] split: prod.splits simp flip: es_def)
      qed
    qed
  qed
qed

text \<open>What Redis does for one connection that asked for everything after \<open>lastEventId\<close>.\<close>

definition stream_log :: "(string \<Rightarrow> nat) \<Rightarrow> entry list \<Rightarrow> bool" where
  "stream_log key log \<longleftrightarrow>
     id_ordered key log \<and> (\<forall>e \<in> set log. fst e \<noteq> [] \<and> key ''0-0'' < key (fst e))"

definition resume_id :: "string option \<Rightarrow> string" where
  "resume_id i = (if truthy i then the i else ''0-0'')"

definition redis_serves ::
    "(string \<Rightarrow> nat) \<Rightarrow> entry list \<Rightarrow> nat \<Rightarrow> string option \<Rightarrow> sse_env \<Rightarrow> bool" where
  "redis_serves key log n lastEventId env \<longleftrightarrow>
     n \<le> length log \<and>
     (let reply = later key (resume_id lastEventId) (take n log) in
        sx_xrange env (if truthy lastEventId then ''('' @ the lastEventId else ''-'') = Some reply \<and>
        honest_polls key log n (last (resume_id lastEventId # map fst reply)) (sx_polls env))"

lemma replay_start [simp]:
  "(if starts_with (if truthy i then ''('' @ the i else ''-'') ''(''
    then drop 1 (if truthy i then ''('' @ the i else ''-'') else ''0-0'') = resume_id i"
  by (simp add: resume_id_def starts_with_def)

lemma has_finish_own:
  "(\<exists>e \<in> set (own_events parse_event r es). ev_kind (se_event e) = ''run_finished'') \<longleftrightarrow>
     has_finish (own parse_event r es)"
  by (auto simp: has_finish_def)

lemma parse_stream_id: "parseStreamEntry parse_event en = Some p \<Longrightarrow> se_streamId p = fst en"
  by (auto simp: parseStreamEntry_def split: option.splits if_splits)

lemma own_parsed:
  "e \<in> set (own_events parse_event r es) \<Longrightarrow>
     ev_run_id (se_event e) = r \<and> se_streamId e \<in> fst ` set es"
  by (induction es)
    (auto simp: own_events_Cons dest: parse_stream_id split: option.splits if_splits)

text \<open>Every body consists of the replayed frames and frames without an id.\<close>

text \<open>The body is the replayed frames and then frames without events, or a snapshot and the tail.\<close>

lemma sse_body_parts:
  assumes "sx_xrange env (if truthy lastId then ''('' @ the lastId else ''-'') = Some reply"
    and "replayRunEvents parse_event r (if truthy lastId then ''('' @ the lastId else ''-'') reply = (S, c)"
    and "sse_body parse_event r lastId env = (fs, closed)"
  shows "\<exists>shown. (\<forall>i ev. RunEvent i ev \<notin> set shown) \<and>
    (fs = map (\<lambda>e. RunEvent (Some (se_streamId e)) (se_event e)) S @ shown \<or>
     \<not> has_finish (map se_event S) \<and>
     fs = map (\<lambda>e. RunEvent (Some (se_streamId e)) (se_event e)) S @ shown @ tail_frames (sx_now env)
       (fst (tailEvoRunEvents parse_event r True (Some (sx_tail_start env + MAX_STREAM_MS)) c (sx_polls env))))"
proof -
  define snap where "snap = (if length S = 0
    then durableRunSnapshot r (sx_snapshot1 env) (sx_snapshot2 env) else Inr None)"
  note body = assms(3) [unfolded sse_body_def Let_def assms(1,2) option.case prod.case, folded snap_def]
  show ?thesis
  proof (cases snap)
    case (Inl e)
    with body show ?thesis by (intro exI [of _ "[]"]) simp
  next
    case (Inr snapshot)
    define shown where "shown = (case snapshot of None \<Rightarrow> [] | Some vm \<Rightarrow> [Snapshot vm])"
    have "RunEvent i ev \<notin> set shown" for i ev
      by (auto simp: shown_def split: option.splits)
    then show ?thesis using body Inr
      by (intro exI [of _ shown])
        (auto simp: shown_def has_finish_def case_prod_unfold split: if_splits)
  qed
qed

lemma delivered_none: "(\<forall>i ev. RunEvent i ev \<notin> set gs) \<Longrightarrow> delivered gs = []"
proof (induction gs)
  case (Cons g gs)
  then show ?case by (cases g) auto
qed simp

lemma tail_frames_no_id: "RunEvent (Some i) ev \<notin> set (tail_frames t acts)"
  by (induction t acts rule: tail_frames.induct) auto

lemma sse_body_shape:
  assumes "redis_serves key log n lastId env" and "stream_log key log"
    and "sse_body parse_event r lastId env = (fs, closed)"
  defines "S \<equiv> own_events parse_event r (later key (resume_id lastId) (take n log))"
  shows "\<exists>gs m. fs = map (\<lambda>e. RunEvent (Some (se_streamId e)) (se_event e)) S @ gs \<and>
    (\<forall>i ev. RunEvent (Some i) ev \<notin> set gs) \<and> n \<le> m \<and> m \<le> length log \<and>
    map se_event S @ delivered gs =
      (if has_finish (map se_event S) then map se_event S
       else upto_finish (own parse_event r (later key (resume_id lastId) (take m log))))"
proof -
  let ?reply = "later key (resume_id lastId) (take n log)"
  let ?c1 = "last (resume_id lastId # map fst ?reply)"
  let ?acts = "fst (tailEvoRunEvents parse_event r True (Some (sx_tail_start env + MAX_STREAM_MS)) ?c1 (sx_polls env))"
  have x: "sx_xrange env (if truthy lastId then ''('' @ the lastId else ''-'') = Some ?reply"
    and polls: "honest_polls key log n ?c1 (sx_polls env)" and n: "n \<le> length log"
    using assms(1) by (simp_all add: redis_serves_def Let_def)
  have ord: "id_ordered key log" using assms(2) by (simp add: stream_log_def)
  have rep: "replayRunEvents parse_event r (if truthy lastId then ''('' @ the lastId else ''-'') ?reply = (S, ?c1)"
    unfolding replayRunEvents_def replay_start replay_loop_eq S_def by simp
  obtain shown where quiet: "\<forall>i ev. RunEvent i ev \<notin> set shown"
    and fs: "fs = map (\<lambda>e. RunEvent (Some (se_streamId e)) (se_event e)) S @ shown \<or>
      \<not> has_finish (map se_event S) \<and>
      fs = map (\<lambda>e. RunEvent (Some (se_streamId e)) (se_event e)) S @ shown @ tail_frames (sx_now env) ?acts"
    using sse_body_parts [OF x rep assms(3)] by (elim exE conjE)
  note shown = quiet delivered_none [OF quiet]
  from fs show ?thesis
  proof (elim disjE conjE)
    assume "fs = map (\<lambda>e. RunEvent (Some (se_streamId e)) (se_event e)) S @ shown"
    then show ?thesis using shown n
      by (intro exI [of _ shown] exI [of _ n]) (auto simp: S_def upto_finish_noop)
  next
    assume nf: "\<not> has_finish (map se_event S)"
      and fs: "fs = map (\<lambda>e. RunEvent (Some (se_streamId e)) (se_event e)) S @ shown @ tail_frames (sx_now env) ?acts"
    obtain m where m: "n \<le> m" "m \<le> length log"
      "tail_events ?acts = upto_finish (own parse_event r (later key ?c1 (take m log)))"
      using tail_delivers [OF ord polls later_take_none [OF ord] n] by blast
    then show ?thesis using own_after [OF ord m(1), of parse_event r "resume_id lastId"] nf fs shown tail_frames_no_id
      by (intro exI [of _ "shown @ tail_frames (sx_now env) ?acts"] exI [of _ m])
        (auto simp: delivered_tail_frames S_def)
  qed
qed

text \<open>A stretch of the log after an id is the tail of the run's own events.\<close>

definition own_before :: "(string \<Rightarrow> raw_event option) \<Rightarrow> string \<Rightarrow> (string \<Rightarrow> nat) \<Rightarrow> string
    \<Rightarrow> entry list \<Rightarrow> nat" where
  "own_before parse_event r key c log =
     length (own_events parse_event r (filter (\<lambda>e. key (fst e) \<le> key c) log))"

lemma split_at_id:
  "id_ordered key log \<Longrightarrow> log = filter (\<lambda>e. key (fst e) \<le> key c) log @ later key c log"
proof (induction log)
  case (Cons e log)
  show ?case
  proof (cases "key (fst e) \<le> key c")
    case True
    with Cons show ?thesis by (simp add: id_ordered_def later_def)
  next
    case False
    with Cons.prems have "\<forall>x \<in> set log. \<not> key (fst x) \<le> key c"
      by (auto simp: id_ordered_def)
    with False show ?thesis by (auto simp: later_def filter_empty_conv intro!: filter_True [symmetric])
  qed
qed (simp add: later_def)

lemma own_later_drop:
  assumes "id_ordered key log"
  shows "own parse_event r (later key c log) =
    drop (own_before parse_event r key c log) (own parse_event r log)"
proof -
  have "own_events parse_event r log =
      own_events parse_event r (filter (\<lambda>e. key (fst e) \<le> key c) log) @
      own_events parse_event r (later key c log)"
    using split_at_id [OF assms, of c] by (metis own_events_append)
  then show ?thesis by (simp add: own_before_def)
qed

lemma own_take_prefix:
  "\<exists>k. own parse_event r (take m log) = take k (own parse_event r log)"
proof -
  have "own parse_event r log = own parse_event r (take m log) @ own parse_event r (drop m log)"
    by (metis append_take_drop_id map_append own_events_append)
  then show ?thesis by (metis append_eq_conv_conj)
qed

lemma upto_finish_prefix: "\<exists>k. upto_finish es = take k es"
proof (induction es)
  case (Cons e es)
  then obtain k where "upto_finish es = take k es" ..
  then show ?case
    by (cases "ev_kind e = ''run_finished''") (auto intro: exI [of _ 1] exI [of _ "Suc k"])
qed simp

lemma own_before_mono:
  "key c \<le> key c' \<Longrightarrow> own_before parse_event r key c log \<le> own_before parse_event r key c' log"
  unfolding own_before_def by (induction log) (auto simp: own_events_Cons split: option.splits)

lemma set_upto_finish: "set (upto_finish es) \<subseteq> set es"
  by (induction es) auto

lemma tail_own:
  "tailEvoRunEvents parse_event r True d c ps = (acts, e) \<Longrightarrow> ev \<in> set (tail_events acts) \<Longrightarrow>
     ev_run_id ev = r"
proof (induction ps arbitrary: c acts e)
  case (Cons p ps)
  have evs: "ev_run_id ev = r" if "tail_entries parse_event r True c es = (c', evs, fin)" "ev \<in> set evs"
    for es c' evs fin
    using that tail_entries_eq [OF that(1)] set_upto_finish [of "own parse_event r es"]
      own_parsed [of _ parse_event r es] by auto
  show ?case
    using Cons.prems
    by (cases "pl_reply p") (auto split: if_splits prod.splits dest: evs Cons.IH)
qed simp

lemma sse_body_own:
  assumes "sse_body parse_event r lastId env = (fs, closed)" and "ev \<in> set (delivered fs)"
  shows "ev_run_id ev = r"
proof -
  have replay: "ev_run_id (se_event e) = r"
    if "replayRunEvents parse_event r x reply = (es, l)" "e \<in> set es" for x reply es l e
    using that own_parsed [of e parse_event r reply] by (auto simp: replayRunEvents_def replay_loop_eq)
  from assms show ?thesis
    unfolding sse_body_def Let_def
    by (auto simp: delivered_tail_frames dest: replay tail_own
        split: option.splits prod.splits sum.splits if_splits)
qed

section \<open>Reconnecting\<close>

text \<open>
  The \<open>Last-Event-ID\<close> an \<open>EventSource\<close> sends after it received some frames: the last id it saw.
\<close>

fun last_event_id :: "string option \<Rightarrow> frame list \<Rightarrow> string option" where
  "last_event_id i [] = i"
| "last_event_id i (RunEvent (Some e) ev # fs) = last_event_id (if e \<noteq> [] then Some e else i) fs"
| "last_event_id i (_ # fs) = last_event_id i fs"

lemma last_event_id_no_ids:
  "\<forall>i ev. RunEvent (Some i) ev \<notin> set fs \<Longrightarrow> last_event_id j fs = j"
  by (induction j fs rule: last_event_id.induct) auto

lemma last_event_id_replay:
  assumes "\<forall>i ev. RunEvent (Some i) ev \<notin> set gs" and "\<forall>e \<in> set S. se_streamId e \<noteq> []"
  shows "last_event_id j (take k (map (\<lambda>e. RunEvent (Some (se_streamId e)) (se_event e)) S @ gs)) =
    (if k = 0 \<or> S = [] then j else Some (se_streamId (S ! (min k (length S) - 1))))"
  using assms(2)
proof (induction S arbitrary: j k)
  case Nil
  have "\<forall>i ev. RunEvent (Some i) ev \<notin> set (take k gs)"
    using assms(1) by (meson in_set_takeD)
  then show ?case by (simp add: last_event_id_no_ids)
next
  case (Cons e S)
  show ?case
  proof (cases k)
    case (Suc k')
    with Cons show ?thesis by (cases "k' = 0 \<or> S = []") (auto simp: min_def nth_Cons')
  qed simp
qed

lemma own_events_sorted:
  assumes "id_ordered key log"
  shows "sorted_wrt (\<lambda>a b. key (se_streamId a) < key (se_streamId b)) (own_events parse_event r log)"
  using assms
proof (induction log)
  case (Cons x log)
  have "key (fst x) < key (se_streamId p)" if "p \<in> set (own_events parse_event r log)" for p
    using Cons.prems own_parsed [OF that] by (auto simp: id_ordered_def)
  with Cons show ?case
    by (auto simp: own_events_Cons id_ordered_def dest: parse_stream_id split: option.splits)
qed simp

lemma own_before_eq:
  "own_before parse_event r key c log =
     length (filter (\<lambda>p. key (se_streamId p) \<le> key c) (own_events parse_event r log))"
  unfolding own_before_def
  by (induction log) (auto simp: own_events_Cons dest: parse_stream_id split: option.splits)

lemma count_upto_nth:
  fixes f :: "'a \<Rightarrow> nat"
  assumes "sorted_wrt (\<lambda>a b. f a < f b) xs" and "i < length xs"
  shows "length (filter (\<lambda>x. f x \<le> f (xs ! i)) xs) = Suc i"
  using assms
proof (induction xs arbitrary: i)
  case (Cons x xs)
  show ?case
  proof (cases i)
    case 0
    with Cons.prems show ?thesis by (auto simp: filter_empty_conv not_le)
  next
    case (Suc j)
    with Cons show ?thesis by (auto intro: less_imp_le)
  qed
qed simp

lemma later_take_prefix:
  "\<exists>x. own_events parse_event r (later key c (take n log)) =
     take x (own_events parse_event r (later key c log))"
proof -
  have "later key c log = later key c (take n log) @ later key c (drop n log)"
    by (metis append_take_drop_id later_append)
  then show ?thesis by (metis append_eq_conv_conj own_events_append)
qed

lemma delivered_prefix: "\<exists>y. delivered (take k fs) = take y (delivered fs)"
  by (metis append_eq_conv_conj append_take_drop_id delivered_simps(5))

lemma sse_body_stretch:
  assumes "redis_serves key log n lastId env" and "stream_log key log"
    and "sse_body parse_event r lastId env = (fs, closed)"
  shows "\<exists>x. delivered fs = take x (own parse_event r (later key (resume_id lastId) log))"
proof -
  obtain gs m where m: "delivered fs =
      (if has_finish (own parse_event r (later key (resume_id lastId) (take n log)))
       then own parse_event r (later key (resume_id lastId) (take n log))
       else upto_finish (own parse_event r (later key (resume_id lastId) (take m log))))"
    using sse_body_shape [OF assms] by auto
  obtain x y z where "own_events parse_event r (later key (resume_id lastId) (take n log)) =
      take x (own_events parse_event r (later key (resume_id lastId) log))"
    "own_events parse_event r (later key (resume_id lastId) (take m log)) =
      take y (own_events parse_event r (later key (resume_id lastId) log))"
    "upto_finish (own parse_event r (later key (resume_id lastId) (take m log))) =
      take z (own parse_event r (later key (resume_id lastId) (take m log)))"
    using later_take_prefix upto_finish_prefix by meson
  with m show ?thesis by (auto simp: take_map [symmetric] take_take)
qed

section \<open>Properties\<close>


text \<open>
   C16. Tenancy.  The response streams only when the run row exists, belongs to the caller's
  organization and is an Evo run; an unknown run, another tenant's run and a legacy run all get
  the same 404.  Every event streamed belongs to the requested run.
\<close>

theorem sse_authorized:
  assumes "db_keys d" and "sx_store env = Inr d"
    and "buildEvoRunEventsResponse parse_event runId orgId lastEventId env = Inr resp"
  shows "(resp \<noteq> NotFound404 \<longleftrightarrow>
           (\<exists>run \<in> set (db_runs d). wr_id run = runId \<and> wr_orgId run = orgId \<and> wr_engine run = ''evo''))
    \<and> (\<forall>fs closed. resp = EventStream fs closed \<longrightarrow>
           sse_body parse_event runId lastEventId env = (fs, closed) \<and>
           (\<forall>ev \<in> set (delivered fs). ev_run_id ev = runId))"
proof -
  have uniq: "distinct (map wr_id (db_runs d))" using assms(1) by (simp add: db_keys_def)
  show ?thesis
  proof (cases "select_one (\<lambda>r. wr_id r = runId) (db_runs d)")
    case None
    with assms(2,3) have "resp = NotFound404" by (simp add: buildEvoRunEventsResponse_def)
    with None show ?thesis by auto
  next
    case (Some run)
    note run = select_one_Some [OF Some]
    have "q = run" if "q \<in> set (db_runs d)" "wr_id q = runId" for q
      using select_one_key [OF uniq that(1)] that(2) Some by simp
    then have "(\<exists>q \<in> set (db_runs d). wr_id q = runId \<and> wr_orgId q = orgId \<and> wr_engine q = ''evo'')
        \<longleftrightarrow> wr_orgId run = orgId \<and> wr_engine run = ''evo''"
      using run by blast
    moreover have "resp = (if wr_orgId run \<noteq> orgId \<or> wr_engine run \<noteq> ''evo'' then NotFound404
        else case sse_body parse_event runId lastEventId env of (fs, closed) \<Rightarrow> EventStream fs closed)"
      using assms(2,3) Some by (auto simp: buildEvoRunEventsResponse_def split: if_splits)
    ultimately show ?thesis
      by (cases "sse_body parse_event runId lastEventId env") (auto dest: sse_body_own)
  qed
qed

text \<open>A small stream: the run is dispatched and finishes, another run's event lies in between.\<close>

definition sample_parse :: "string \<Rightarrow> raw_event option" where
  "sample_parse s =
     (if s = ''a'' then Some \<lparr>raw_run_id = JStr ''r'', raw_kind = JStr ''node_dispatched'',
        raw_typed = sample_event ''node_dispatched'' ''n'' ''act'' 4\<rparr>
      else if s = ''b'' then Some \<lparr>raw_run_id = JStr ''q'', raw_kind = JStr ''run_started'',
        raw_typed = sample_event ''run_started'' [] [] 5\<rparr>
      else if s = ''c'' then Some \<lparr>raw_run_id = JStr ''r'', raw_kind = JStr ''run_finished'',
        raw_typed = sample_event ''run_finished'' [] ''succeeded'' 6\<rparr>
      else None)"

definition sample_log :: "entry list" where
  "sample_log = [(''10-0'', [''payload'', ''a'']), (''100-0'', [''payload'', ''b'']),
                 (''1000-0'', [''payload'', ''c''])]"

definition sample_poll :: "entry list \<Rightarrow> poll" where
  "sample_poll es = \<lparr>pl_aborted = False, pl_now = 1, pl_reply = Entries [(''evo:dev:events'', es)],
     pl_idle_now = 2\<rparr>"

definition sample_env :: "string \<Rightarrow> entry list \<Rightarrow> entry list \<Rightarrow> sse_env" where
  "sample_env start replay tail =
     \<lparr>sx_store = Inr empty_db, sx_xrange = (\<lambda>x. if x = start then Some replay else None),
      sx_snapshot1 = Inr empty_db, sx_snapshot2 = Inr empty_db, sx_now = 0, sx_tail_start = 0,
      sx_polls = [sample_poll tail]\<rparr>"

lemmas sample_defs = sample_log_def sample_env_def sample_poll_def stream_log_def id_ordered_def
  redis_serves_def later_def resume_id_def

lemma sample_served:
  "stream_log length sample_log"
  "redis_serves length sample_log 1 None (sample_env ''-'' (take 1 sample_log) (drop 1 sample_log))"
  "redis_serves length sample_log 3 (Some ''10-0'')
     (sample_env ''(10-0'' (drop 1 sample_log) [])"
  by (simp_all add: sample_defs upt_rec)


definition sample_run_row :: "string \<Rightarrow> string \<Rightarrow> int \<Rightarrow> workflow_run_row" where
  "sample_run_row i org t =
     \<lparr>wr_id = i, wr_orgId = org, wr_workflowId = ''w'', wr_workflowVersionId = None,
      wr_engine = ''evo'', wr_status = ''running'', wr_outcome = None, wr_cancelReason = None,
      wr_cancelRequestedAt = None, wr_browserbaseSessionId = None, wr_dagJson = None,
      wr_createdAt = t, wr_startedAt = Some t, wr_finishedAt = None\<rparr>"

definition sample_node_row :: "string \<Rightarrow> string \<Rightarrow> string \<Rightarrow> node_run_row" where
  "sample_node_row run node status =
     \<lparr>nr_id = run @ node, nr_runId = run, nr_nodeId = node, nr_nodeType = ''act'',
      nr_status = status, nr_attemptCount = 1, nr_output = None, nr_failureReason = None,
      nr_retryWaitUntil = None, nr_retryReason = None, nr_startedAt = None,
      nr_finishedAt = None\<rparr>"

definition sample_db :: db where
  "sample_db = empty_db\<lparr>
     db_runs := [sample_run_row ''r'' ''org1'' 5, sample_run_row ''s'' ''org2'' 6],
     db_nodeRuns := [sample_node_row ''r'' ''n'' ''retry_wait'', sample_node_row ''s'' ''n'' ''ready'']\<rparr>"

lemma sample_db_keys: "db_keys sample_db"
  by (simp add: sample_db_def db_keys_def empty_db_def sample_run_row_def sample_node_row_def)

theorem sse_authorized_witness:
  "buildEvoRunEventsResponse sample_parse ''r'' ''org2'' None
     ((sample_env ''-'' [] [])\<lparr>sx_store := Inr sample_db\<rparr>) = Inr NotFound404"
proof -
  let ?env = "(sample_env ''-'' [] [])\<lparr>sx_store := Inr sample_db\<rparr>"
  obtain resp where r: "buildEvoRunEventsResponse sample_parse ''r'' ''org2'' None ?env = Inr resp"
    by (auto simp: buildEvoRunEventsResponse_def sample_db_def sample_run_row_def)
  have none: "\<not> (\<exists>run \<in> set (db_runs sample_db).
      wr_id run = ''r'' \<and> wr_orgId run = ''org2'' \<and> wr_engine run = ''evo'')"
    by (simp add: sample_db_def sample_run_row_def)
  have "resp = NotFound404"
    using sse_authorized [OF sample_db_keys _ r] none by simp
  with r show ?thesis by simp
qed

text \<open>The id a client resumes at counts no event it has not received.\<close>

lemma resume_point:
  fixes k :: nat
  assumes "redis_serves key log n lastId env" and "stream_log key log"
    and "sse_body parse_event r lastId env = (fs, closed)"
  defines "I \<equiv> own_before parse_event r key (resume_id lastId) log"
    and "J \<equiv> own_before parse_event r key (resume_id (last_event_id lastId (take k fs))) log"
  shows "I \<le> J \<and> J \<le> I + length (delivered (take k fs))"
proof -
  let ?P = "own_events parse_event r log"
  let ?S = "own_events parse_event r (later key (resume_id lastId) (take n log))"
  have ord: "id_ordered key log" using assms(2) by (simp add: stream_log_def)
  obtain gs where fs: "fs = map (\<lambda>e. RunEvent (Some (se_streamId e)) (se_event e)) ?S @ gs"
    and gs: "\<forall>i ev. RunEvent (Some i) ev \<notin> set gs"
    using sse_body_shape [OF assms(1-3)] by blast
  have ids: "\<forall>e \<in> set ?S. se_streamId e \<noteq> []"
    using own_parsed [of _ parse_event r] assms(2)
    by (fastforce simp: stream_log_def later_def dest: in_set_takeD)
  show ?thesis
  proof (cases "k = 0 \<or> ?S = []")
    case True
    then have "last_event_id lastId (take k fs) = lastId"
      using last_event_id_replay [OF gs ids, of lastId k] fs by simp
    then show ?thesis by (simp add: I_def J_def)
  next
    case False
    define q where "q = min k (length ?S) - 1"
    have "0 < k" "0 < length ?S" using False by simp_all
    then have q: "q < length ?S" "q < k" unfolding q_def by linarith+
    have last: "last_event_id lastId (take k fs) = Some (se_streamId (?S ! q))"
      using last_event_id_replay [OF gs ids, of lastId k] fs False by (simp add: q_def)
    have ne: "se_streamId (?S ! q) \<noteq> []" using ids q(1) by simp
    have split: "?P = own_events parse_event r (filter (\<lambda>e. key (fst e) \<le> key (resume_id lastId)) log)
        @ own_events parse_event r (later key (resume_id lastId) log)"
      using split_at_id [OF ord, of "resume_id lastId"] by (metis own_events_append)
    obtain x where x: "?S = take x (own_events parse_event r (later key (resume_id lastId) log))"
      using later_take_prefix by blast
    have nth: "?P ! (I + q) = ?S ! q" "I + q < length ?P"
      using q(1) x arg_cong [OF split, of "\<lambda>xs. xs ! (I + q)"] arg_cong [OF split, of length]
      by (auto simp: nth_append I_def own_before_def)
    have J: "J = Suc (I + q)"
      using count_upto_nth [OF own_events_sorted [OF ord], of "I + q" parse_event r] nth last ne
      by (simp add: J_def own_before_eq resume_id_def)
    have "Suc q \<le> length (delivered (take k fs))"
    proof -
      have "delivered (take k fs) = map se_event (take k ?S) @ delivered (take (k - length ?S) gs)"
        by (simp add: fs take_map)
      then show ?thesis using q by simp
    qed
    with J show ?thesis by simp
  qed
qed

text \<open>
   Reconnecting loses nothing.  A client reads any part of a response, the connection drops,
  and it reconnects with the last id it saw.  What it received the first time and what the second
  response delivers are two contiguous stretches of the run's own events, and the second starts no
  later than the first ended.  It may start earlier: frames written by the tail carry no id, so
  the events read from them are sent again (the reducer then sees them twice in a row).
\<close>

theorem reconnect_no_gap:
  assumes "stream_log key log"
    and "redis_serves key log n1 lastId env1"
    and "sse_body parse_event runId lastId env1 = (fs1, closed1)"
    and "redis_serves key log n2 (last_event_id lastId (take k fs1)) env2"
    and "sse_body parse_event runId (last_event_id lastId (take k fs1)) env2 = (fs2, closed2)"
  shows "\<exists>i j a b.
    delivered (take k fs1) = take a (drop i (own parse_event runId log)) \<and>
    a = length (delivered (take k fs1)) \<and>
    delivered fs2 = take b (drop j (own parse_event runId log)) \<and> i \<le> j \<and> j \<le> i + a"
proof -
  have ord: "id_ordered key log" using assms(1) by (simp add: stream_log_def)
  let ?i = "own_before parse_event runId key (resume_id lastId) log"
  let ?new = "last_event_id lastId (take k fs1)"
  let ?j = "own_before parse_event runId key (resume_id ?new) log"
  obtain x where "delivered fs1 = take x (drop ?i (own parse_event runId log))"
    using sse_body_stretch [OF assms(2,1,3)] own_later_drop [OF ord, of parse_event runId] by auto
  moreover obtain y where "delivered (take k fs1) = take y (delivered fs1)"
    using delivered_prefix by blast
  ultimately have first: "delivered (take k fs1) =
      take (length (delivered (take k fs1))) (drop ?i (own parse_event runId log))"
    by (metis append_take_drop_id append_eq_conv_conj take_take)
  obtain b where "delivered fs2 = take b (drop ?j (own parse_event runId log))"
    using sse_body_stretch [OF assms(4,1,5)] own_later_drop [OF ord, of parse_event runId] by auto
  with first resume_point [OF assms(2,1,3), of k] show ?thesis by blast
qed

theorem reconnect_no_gap_witness:
  "\<exists>i j a b. take a (drop i (own sample_parse ''r'' sample_log)) =
       [sample_event ''node_dispatched'' ''n'' ''act'' 4] \<and>
     take b (drop j (own sample_parse ''r'' sample_log)) =
       [sample_event ''run_finished'' [] ''succeeded'' 6] \<and> i \<le> j \<and> j \<le> i + a"
proof -
  let ?e1 = "sample_env ''-'' (take 1 sample_log) (drop 1 sample_log)"
  let ?e2 = "sample_env ''(10-0'' (drop 1 sample_log) []"
  let ?b1 = "sse_body sample_parse ''r'' None ?e1"
  let ?b2 = "sse_body sample_parse ''r'' (Some ''10-0'') ?e2"
  have "fst ?b1 = [RunEvent (Some ''10-0'') (sample_event ''node_dispatched'' ''n'' ''act'' 4),
      RunEvent None (sample_event ''run_finished'' [] ''succeeded'' 6)]"
    by (simp add: sse_body_def sample_env_def sample_log_def replayRunEvents_def starts_with_def
        parseStreamEntry_def sample_parse_def sample_event_def sample_poll_def MAX_STREAM_MS_def)
  then have one: "last_event_id None (take 1 (fst ?b1)) = Some ''10-0''"
    "delivered (take 1 (fst ?b1)) = [sample_event ''node_dispatched'' ''n'' ''act'' 4]"
    by simp_all
  have two: "delivered (fst ?b2) = [sample_event ''run_finished'' [] ''succeeded'' 6]"
    by (simp add: sse_body_def sample_env_def sample_log_def replayRunEvents_def starts_with_def
        parseStreamEntry_def sample_parse_def sample_event_def)
  have "sse_body sample_parse ''r'' (last_event_id None (take 1 (fst ?b1))) ?e2 = (fst ?b2, snd ?b2)"
    by (simp only: one prod.collapse)
  moreover have "redis_serves length sample_log 3 (last_event_id None (take 1 (fst ?b1))) ?e2"
    by (simp only: one sample_served(3))
  ultimately show ?thesis
    using reconnect_no_gap [OF sample_served(1,2) prod.collapse [symmetric],
        where parse_event = sample_parse and runId = "''r''" and k = 1 and ?n2.0 = 3
          and ?env2.0 = ?e2 and ?fs2.0 = "fst ?b2" and ?closed2.0 = "snd ?b2"]
    unfolding one(2) two by metis
qed

lemma node_status_agree: "list_mapNodeStatus s = mapNodeStatus s \<longleftrightarrow> s \<noteq> ''retry_wait''"
  by (simp add: mapNodeStatus_def list_mapNodeStatus_def)

lemma run_status_agree: "list_mapRunStatus = mapRunStatus"
  by (auto simp: list_mapRunStatus_def mapRunStatus_def)

lemma row_views_agree:
  "run_row_view list_mapRunStatus list_mapNodeStatus run nodes =
     run_row_view mapRunStatus mapNodeStatus run nodes \<longleftrightarrow> ''retry_wait'' \<notin> nr_status ` set nodes"
proof -
  have steps: "map (node_row_step list_mapNodeStatus) nodes = map (node_row_step mapNodeStatus) nodes
      \<longleftrightarrow> ''retry_wait'' \<notin> nr_status ` set nodes"
    by (induction nodes) (auto simp: node_row_step_def node_status_agree)
  show ?thesis
  proof
    assume eq: "run_row_view list_mapRunStatus list_mapNodeStatus run nodes =
      run_row_view mapRunStatus mapNodeStatus run nodes"
    from arg_cong [OF eq, of vm_steps] steps
    show "''retry_wait'' \<notin> nr_status ` set nodes"
      by (simp add: run_row_view_def vm_finalize)
  next
    assume "''retry_wait'' \<notin> nr_status ` set nodes"
    with steps have "map (node_row_step list_mapNodeStatus) nodes = map (node_row_step mapNodeStatus) nodes"
      by blast
    then show "run_row_view list_mapRunStatus list_mapNodeStatus run nodes =
      run_row_view mapRunStatus mapNodeStatus run nodes"
      unfolding run_row_view_def run_status_agree by (rule arg_cong)
  qed
qed

definition listed_view :: "(string \<Rightarrow> store) \<Rightarrow> workflow_run_row \<Rightarrow> view_model" where
  "listed_view nodes_seen run = run_row_view list_mapRunStatus list_mapNodeStatus run
     (case nodes_seen (wr_id run) of Inl e \<Rightarrow> [] | Inr d \<Rightarrow> nodes_of_run (wr_id run) d)"

lemma listed_view_fields [simp]:
  "vm_id (listed_view nodes_seen run) = wr_id run"
  "vm_createdAt (listed_view nodes_seen run) = Some (wr_createdAt run)"
  by (simp_all add: listed_view_def run_row_view_def)

lemma listed_eq:
  "listEvoRunsForWorkflow orgId workflowId (Inr d) nodes_seen =
     map (listed_view nodes_seen) (sort_key (\<lambda>r. - wr_createdAt r)
       (filter (\<lambda>r. wr_orgId r = orgId \<and> wr_workflowId r = workflowId \<and> wr_engine r = ''evo'')
         (db_runs d)))"
  by (simp add: listEvoRunsForWorkflow_def listed_view_def)

lemma listed_rows:
  "set (listEvoRunsForWorkflow orgId workflowId (Inr d) (\<lambda>_. Inr d)) =
     (\<lambda>q. run_row_view list_mapRunStatus list_mapNodeStatus q (nodes_of_run (wr_id q) d)) `
       {r \<in> set (db_runs d). wr_orgId r = orgId \<and> wr_workflowId r = workflowId \<and> wr_engine r = ''evo''}"
  by (simp add: listed_eq listed_view_def)

text \<open>
   The run list and the durable snapshot show an Evo run alike exactly when none of its nodes
  is waiting for a retry: the snapshot reads \<open>retry_wait\<close> as running, the list's copy of the
  mapping does not know that status and shows the node as not started.
\<close>

theorem list_shows_snapshot:
  assumes "db_keys d" and "run \<in> set (db_runs d)" and "wr_engine run = ''evo''"
    and "durableRunSnapshot (wr_id run) (Inr d) (Inr d) = Inr (Some vm)"
  shows "vm \<in> set (listEvoRunsForWorkflow (wr_orgId run) (wr_workflowId run) (Inr d) (\<lambda>_. Inr d))
    \<longleftrightarrow> ''retry_wait'' \<notin> nr_status ` set (nodes_of_run (wr_id run) d)"
proof -
  have uniq: "distinct (map wr_id (db_runs d))" using assms(1) by (simp add: db_keys_def)
  have vm: "vm = run_row_view mapRunStatus mapNodeStatus run (nodes_of_run (wr_id run) d)"
    using assms(4) select_one_key [OF uniq assms(2)] by (simp add: durableRunSnapshot_def)
  have same: "q = run" if "q \<in> set (db_runs d)"
    "run_row_view list_mapRunStatus list_mapNodeStatus q (nodes_of_run (wr_id q) d) = vm" for q
  proof -
    from arg_cong [OF that(2), of vm_id] have "wr_id q = wr_id run"
      by (simp add: vm run_row_view_def vm_finalize)
    with uniq that(1) assms(2) show ?thesis by (auto simp: distinct_map dest: inj_onD)
  qed
  let ?V = "\<lambda>q. run_row_view list_mapRunStatus list_mapNodeStatus q (nodes_of_run (wr_id q) d)"
  have rows: "set (listEvoRunsForWorkflow (wr_orgId run) (wr_workflowId run) (Inr d) (\<lambda>_. Inr d)) =
      ?V ` {r \<in> set (db_runs d). wr_orgId r = wr_orgId run \<and> wr_workflowId r = wr_workflowId run \<and>
                              wr_engine r = ''evo''}"
    by (simp add: listed_rows)
  have "vm \<in> set (listEvoRunsForWorkflow (wr_orgId run) (wr_workflowId run) (Inr d) (\<lambda>_. Inr d))
    \<longleftrightarrow> ?V run = vm"
    unfolding rows using assms(2,3) same by blast
  then show ?thesis unfolding vm by (simp add: row_views_agree)
qed

theorem list_shows_snapshot_witness:
  "\<exists>vm. durableRunSnapshot ''r'' (Inr sample_db) (Inr sample_db) = Inr (Some vm) \<and>
     vm \<notin> set (listEvoRunsForWorkflow ''org1'' ''w'' (Inr sample_db) (\<lambda>_. Inr sample_db))"
proof -
  let ?run = "sample_run_row ''r'' ''org1'' 5"
  have run: "?run \<in> set (db_runs sample_db)" "wr_engine ?run = ''evo''" "wr_id ?run = ''r''"
    "wr_orgId ?run = ''org1''" "wr_workflowId ?run = ''w''"
    by (simp_all add: sample_db_def sample_run_row_def)
  obtain vm where vm: "durableRunSnapshot (wr_id ?run) (Inr sample_db) (Inr sample_db) = Inr (Some vm)"
    by (auto simp: durableRunSnapshot_def sample_db_def sample_run_row_def)
  have "''retry_wait'' \<in> nr_status ` set (nodes_of_run (wr_id ?run) sample_db)"
    by (simp add: nodes_of_run_def sample_db_def sample_node_row_def sample_run_row_def)
  with list_shows_snapshot [OF sample_db_keys run(1,2) vm] vm show ?thesis
    unfolding run(3-5) by blast
qed

text \<open>
   The run list fails open and is scoped: it is empty when the store cannot be reached, and
  otherwise lists, newest first, exactly the workflow's Evo runs of the caller's organization.
\<close>

theorem run_list_scoped:
  "listEvoRunsForWorkflow orgId workflowId (Inl e) nodes_seen = [] \<and>
   vm_id ` set (listEvoRunsForWorkflow orgId workflowId (Inr d) nodes_seen) =
     wr_id ` {r \<in> set (db_runs d). wr_orgId r = orgId \<and> wr_workflowId r = workflowId \<and>
                                    wr_engine r = ''evo''} \<and>
   sorted_wrt (\<lambda>a b. nullish (vm_createdAt b) 0 \<le> nullish (vm_createdAt a) 0)
     (listEvoRunsForWorkflow orgId workflowId (Inr d) nodes_seen)"
proof (intro conjI)
  show "listEvoRunsForWorkflow orgId workflowId (Inl e) nodes_seen = []"
    by (simp add: listEvoRunsForWorkflow_def)
  show "vm_id ` set (listEvoRunsForWorkflow orgId workflowId (Inr d) nodes_seen) =
     wr_id ` {r \<in> set (db_runs d). wr_orgId r = orgId \<and> wr_workflowId r = workflowId \<and>
                                    wr_engine r = ''evo''}"
    by (simp add: listed_eq image_image)
  have "sorted_wrt (\<lambda>a b. wr_createdAt b \<le> wr_createdAt a) (sort_key (\<lambda>r. - wr_createdAt r) rs)"
    for rs using sorted_sort_key [of "\<lambda>r. - wr_createdAt r" rs] by (simp add: sorted_map)
  then show "sorted_wrt (\<lambda>a b. nullish (vm_createdAt b) 0 \<le> nullish (vm_createdAt a) 0)
     (listEvoRunsForWorkflow orgId workflowId (Inr d) nodes_seen)"
    by (simp add: listed_eq sorted_wrt_map)
qed

end
