(* ===== verification/Interpolate.thy ===== *)
theory Interpolate
  imports Json
begin

text \<open>
  Placeholders of \<open>features/workflows/lib/interpolate.ts\<close>: the regular expression
  \<open>{{\s*([^}]+?)\s*}}\<close> with its backtracking, the path lookup, the replacement, and a
  specification of the matcher that needs no backtracking.

  Properties a value inherits (those of \<open>Object.prototype\<close> and \<open>Array.prototype\<close>) are the
  parameter \<open>inherited\<close>.
\<close>

section \<open>The regular expression\<close>

text \<open>The closing braces, then \<open>\s*\<close> in front of them: greedy, giving back on failure.\<close>

definition close_braces :: "string \<Rightarrow> string option" where
  "close_braces s = (if starts_with s ''}}'' then Some (drop 2 s) else None)"

fun match_close :: "string \<Rightarrow> string option" where
  "match_close [] = None"
| "match_close (c # s) =
     (if js_space c then
        (case match_close s of Some r \<Rightarrow> Some r | None \<Rightarrow> close_braces (c # s))
      else close_braces (c # s))"

text \<open>The lazy group: one character other than a brace, then more only when the rest fails.\<close>

fun match_group :: "string \<Rightarrow> string \<Rightarrow> (string \<times> string) option" where
  "match_group acc [] = None"
| "match_group acc (c # s) =
     (if c = CHR ''}'' then None
      else case match_close s of
        Some r \<Rightarrow> Some (acc @ [c], r)
      | None \<Rightarrow> match_group (acc @ [c]) s)"

text \<open>The leading \<open>\s*\<close>, greedy.\<close>

fun match_lead :: "string \<Rightarrow> (string \<times> string) option" where
  "match_lead [] = None"
| "match_lead (c # s) =
     (if js_space c then
        (case match_lead s of Some m \<Rightarrow> Some m | None \<Rightarrow> match_group [] (c # s))
      else match_group [] (c # s))"

text \<open>A match at the start of the text: the group, and what follows the match.\<close>

definition match_at :: "string \<Rightarrow> (string \<times> string) option" where
  "match_at s = (if starts_with s ''{{'' then match_lead (drop 2 s) else None)"

section \<open>Paths\<close>

definition word_char :: "char \<Rightarrow> bool" where
  "word_char c \<longleftrightarrow> (let n = (of_char c :: nat) in
     48 \<le> n \<and> n \<le> 57 \<or> 65 \<le> n \<and> n \<le> 90 \<or> n = 95 \<or> 97 \<le> n \<and> n \<le> 122)"

text \<open>\<open>path.replace(/\[(\w+)\]/g, ".$1")\<close>.\<close>

function dot_brackets :: "string \<Rightarrow> string" where
  "dot_brackets [] = []"
| "dot_brackets (c # s) =
     (let w = takeWhile word_char s; rest = dropWhile word_char s in
      if c = CHR ''['' \<and> w \<noteq> [] \<and> rest \<noteq> [] \<and> hd rest = CHR '']''
      then CHR ''.'' # w @ dot_brackets (tl rest)
      else c # dot_brackets s)"
  by pat_completeness auto

termination
  by (relation "measure length")
    (auto intro: le_imp_less_Suc order_trans [OF diff_le_self length_dropWhile_le])

text \<open>\<open>s.split(".")\<close>.\<close>

fun split_on :: "char \<Rightarrow> string \<Rightarrow> string list" where
  "split_on d [] = [[]]"
| "split_on d (c # s) =
     (if c = d then [] # split_on d s
      else (case split_on d s of [] \<Rightarrow> [[c]] | w # ws \<Rightarrow> (c # w) # ws))"

definition path_keys :: "string \<Rightarrow> string list" where
  "path_keys path = filter (\<lambda>k. k \<noteq> []) (split_on CHR ''.'' (dot_brackets path))"

text \<open>\<open>acc[key]\<close> on an object, an array or \<open>null\<close>'s guard.\<close>

definition array_prop :: "(jsval \<Rightarrow> string \<Rightarrow> jsval) \<Rightarrow> jsval list \<Rightarrow> string \<Rightarrow> jsval" where
  "array_prop inherited xs k =
     (if k = ''length'' then JNum (nat_text (length xs))
      else case List.find (\<lambda>i. nat_text i = k) [0 ..< length xs] of
        Some i \<Rightarrow> xs ! i | None \<Rightarrow> inherited (JArr xs) k)"

definition object_prop :: "(jsval \<Rightarrow> string \<Rightarrow> jsval) \<Rightarrow> (string \<times> jsval) list \<Rightarrow> string \<Rightarrow> jsval" where
  "object_prop inherited ps k =
     (case map_of ps k of Some v \<Rightarrow> v | None \<Rightarrow> inherited (JObj ps) k)"

fun get_prop :: "(jsval \<Rightarrow> string \<Rightarrow> jsval) \<Rightarrow> jsval \<Rightarrow> string \<Rightarrow> jsval" where
  "get_prop inherited (JArr xs) k = array_prop inherited xs k"
| "get_prop inherited (JObj ps) k = object_prop inherited ps k"
| "get_prop inherited v k = JUndef"

text \<open>\<open>acc == null || typeof acc !== "object"\<close> leaves the path.\<close>

definition getByPath ::
    "(jsval \<Rightarrow> string \<Rightarrow> jsval) \<Rightarrow> (string \<times> jsval) list \<Rightarrow> string \<Rightarrow> jsval" where
  "getByPath inherited root path =
     foldl (\<lambda>acc key. if is_nullish acc \<or> \<not> is_object acc then JUndef
                      else get_prop inherited acc key)
       (JObj root) (path_keys path)"

section \<open>Replacement\<close>

text \<open>The text a value leaves behind.  An object or array always has a JSON text.\<close>

definition value_text :: "jsval \<Rightarrow> string" where
  "value_text v =
     (if is_nullish v then []
      else if is_object v then nullish (stringify v) []
      else nullish (string_of v) [])"

definition replacement :: "(jsval \<Rightarrow> string \<Rightarrow> jsval) \<Rightarrow> (string \<times> jsval) list \<Rightarrow> string \<Rightarrow> string" where
  "replacement inherited outputs expr = value_text (getByPath inherited outputs (trim expr))"

lemma match_close_shorter: "match_close s = Some r \<Longrightarrow> length r < length s"
  by (induction s) (auto simp: close_braces_def starts_with_def split: if_splits option.splits)

lemma match_group_shorter: "match_group acc s = Some (g, r) \<Longrightarrow> length r < length s"
  by (induction acc s rule: match_group.induct)
    (auto dest: match_close_shorter split: if_splits option.splits)

lemma match_lead_shorter: "match_lead s = Some (g, r) \<Longrightarrow> length r < length s"
  by (induction s)
    (auto dest: match_group_shorter simp del: match_group.simps split: if_splits option.splits)

lemma match_at_shorter: "match_at s = Some (g, r) \<Longrightarrow> length r < length s"
  by (auto simp: match_at_def dest: match_lead_shorter split: if_splits)

text \<open>\<open>text.replace(PLACEHOLDER, \<dots>)\<close> with the global flag: leftmost matches, left to right.\<close>

function interpolate :: "(jsval \<Rightarrow> string \<Rightarrow> jsval) \<Rightarrow> (string \<times> jsval) list \<Rightarrow> string \<Rightarrow> string" where
  "interpolate inherited outputs s =
     (case match_at s of
        Some (expr, rest) \<Rightarrow>
          replacement inherited outputs expr @ interpolate inherited outputs rest
      | None \<Rightarrow> (case s of [] \<Rightarrow> [] | c # cs \<Rightarrow> c # interpolate inherited outputs cs))"
  by pat_completeness auto

termination
  by (relation "measure (\<lambda>(_, _, s). length s)") (auto dest: match_at_shorter)

declare interpolate.simps [simp del]

section \<open>What the matcher matches\<close>

definition rstrip :: "string \<Rightarrow> string" where
  "rstrip s = rev (dropWhile js_space (rev s))"

lemma brace_not_space [simp]: "\<not> js_space CHR ''}''" "\<not> js_space CHR ''{''"
  by (simp_all add: js_space_def)

lemma close_braces_append [simp]: "close_braces (CHR ''}'' # CHR ''}'' # t) = Some t"
  by (simp add: close_braces_def starts_with_def)

lemma close_braces_other [simp]: "c \<noteq> CHR ''}'' \<Longrightarrow> close_braces (c # s) = None"
  by (simp add: close_braces_def starts_with_def)

lemma close_braces_Some: "close_braces s = Some t \<longleftrightarrow> s = ''}}'' @ t"
  by (auto simp: close_braces_def starts_with_iff split: if_splits)

lemma match_close_Some:
  "match_close s = Some t \<Longrightarrow> \<exists>w. s = w @ ''}}'' @ t \<and> (\<forall>c \<in> set w. js_space c)"
proof (induction s)
  case (Cons c s)
  show ?case
  proof (cases "js_space c")
    case True
    then have "c \<noteq> CHR ''}''" by auto
    with True Cons.prems have "match_close s = Some t" by (simp split: option.splits)
    then obtain w where "s = w @ ''}}'' @ t" "\<forall>c \<in> set w. js_space c" using Cons.IH by blast
    with True show ?thesis by (intro exI [of _ "c # w"]) simp
  next
    case False
    with Cons.prems show ?thesis by (auto simp: close_braces_Some intro: exI [of _ "[]"])
  qed
qed simp

lemma match_close_text:
  "CHR ''}'' \<notin> set w \<Longrightarrow> match_close (w @ ''}}'' @ t) = (if list_all js_space w then Some t else None)"
  by (induction w) (auto split: option.splits)

lemma match_group_Some:
  "match_group acc s = Some (g, t) \<Longrightarrow> \<exists>r. s = r @ ''}}'' @ t \<and> r \<noteq> [] \<and> CHR ''}'' \<notin> set r"
proof (induction acc s rule: match_group.induct)
  case (2 acc c s)
  then have c: "c \<noteq> CHR ''}''" by (auto split: if_splits)
  show ?case
  proof (cases "match_close s")
    case None
    with 2 c obtain r where "s = r @ ''}}'' @ t" "CHR ''}'' \<notin> set r" by auto
    with c show ?thesis by (intro exI [of _ "c # r"]) simp
  next
    case (Some u)
    with 2 c have "u = t" by simp
    with match_close_Some [OF Some] obtain w where "s = w @ ''}}'' @ t" "\<forall>c \<in> set w. js_space c" by auto
    with c show ?thesis by (intro exI [of _ "c # w"]) auto
  qed
qed simp

lemma rstrip_Cons: "rstrip (c # s) = (if rstrip s = [] \<and> js_space c then [] else c # rstrip s)"
  by (auto simp: rstrip_def dropWhile_append)

lemma rstrip_empty [simp]: "rstrip s = [] \<longleftrightarrow> list_all js_space s"
  by (auto simp: rstrip_def list_all_iff)

lemma match_group_text:
  "CHR ''}'' \<notin> set (c # r) \<Longrightarrow>
     match_group acc (c # r @ ''}}'' @ t) = Some (acc @ c # rstrip r, t)"
proof (induction r arbitrary: acc c)
  case Nil
  then show ?case by (simp add: rstrip_def match_close_text [of "[]", simplified])
next
  case (Cons d r)
  have c: "c \<noteq> CHR ''}''" and no: "CHR ''}'' \<notin> set (d # r)" using Cons.prems by auto
  have step: "match_group acc (c # (d # r) @ ''}}'' @ t) =
      (case match_close ((d # r) @ ''}}'' @ t) of
         Some u \<Rightarrow> Some (acc @ [c], u)
       | None \<Rightarrow> match_group (acc @ [c]) (d # r @ ''}}'' @ t))"
    using c by (simp only: append_Cons match_group.simps(2) if_False)
  show ?case
  proof (cases "list_all js_space (d # r)")
    case True
    then have "rstrip (d # r) = []" by (simp only: rstrip_empty)
    with True step match_close_text [OF no, of t] show ?thesis
      by (simp only: if_True option.case append_Cons append_Nil append_assoc)
  next
    case False
    have "rstrip (d # r) = d # rstrip r" using False by (auto simp: rstrip_Cons)
    with False step match_close_text [OF no, of t] Cons.IH [OF no, of "acc @ [c]"] show ?thesis
      by (simp only: if_False option.case append_Cons append_Nil append_assoc)
  qed
qed

lemma trim_Cons: "trim (c # s) = (if js_space c then trim s else c # rstrip s)"
  by (auto simp: trim_def rstrip_def dropWhile_append)

lemma rstrip_idem [simp]: "rstrip (rstrip s) = rstrip s"
  by (induction s) (auto simp: rstrip_Cons rstrip_def [of "[]"])

text \<open>
  The specification: a match starts at two braces followed by a nonempty run without a closing
  brace and the two closing braces; the group is that run up to surrounding white space.
\<close>

lemma match_lead_text:
  "CHR ''}'' \<notin> set r \<Longrightarrow> r \<noteq> [] \<Longrightarrow> \<exists>g. match_lead (r @ ''}}'' @ t) = Some (g, t) \<and> trim g = trim r"
proof (induction r)
  case (Cons c r)
  have g: "match_group [] (c # r @ ''}}'' @ t) = Some (c # rstrip r, t)"
    using match_group_text [of c r "[]" t] Cons.prems by simp
  show ?case
  proof (cases "js_space c \<and> r \<noteq> []")
    case True
    with Cons show ?thesis by (auto simp: trim_Cons simp del: match_group.simps)
  next
    case False
    have "match_lead ((c # r) @ ''}}'' @ t) = Some (c # rstrip r, t)"
    proof (cases "js_space c")
      case True
      with False have "r = []" by simp
      with g True show ?thesis by simp
    next
      case False
      with g show ?thesis by (simp del: match_group.simps)
    qed
    with False show ?thesis by (auto simp: trim_Cons rstrip_def)
  qed
qed simp

lemma match_lead_Some:
  "match_lead s = Some (g, t) \<Longrightarrow> \<exists>r. s = r @ ''}}'' @ t \<and> r \<noteq> [] \<and> CHR ''}'' \<notin> set r"
proof (induction s)
  case (Cons c s)
  show ?case
  proof (cases "js_space c \<and> match_lead s \<noteq> None")
    case True
    with Cons.prems have "match_lead s = Some (g, t)" by (auto simp del: match_group.simps)
    then obtain r where "s = r @ ''}}'' @ t" "CHR ''}'' \<notin> set r" using Cons.IH by blast
    with True show ?thesis by (intro exI [of _ "c # r"]) auto
  next
    case False
    with Cons.prems have "match_group [] (c # s) = Some (g, t)"
      by (auto simp del: match_group.simps split: if_splits option.splits)
    then show ?thesis by (rule match_group_Some)
  qed
qed simp

lemma match_at_text:
  assumes "CHR ''}'' \<notin> set r" and "r \<noteq> []"
  shows "\<exists>g. match_at (''{{'' @ r @ ''}}'' @ t) = Some (g, t) \<and> trim g = trim r"
  using match_lead_text [OF assms, of t] by (simp add: match_at_def starts_with_def)

lemma match_at_Some:
  assumes "match_at s = Some (g, t)"
  shows "\<exists>r. s = ''{{'' @ r @ ''}}'' @ t \<and> r \<noteq> [] \<and> CHR ''}'' \<notin> set r"
proof -
  from assms obtain u where u: "s = ''{{'' @ u" "match_lead u = Some (g, t)"
    by (auto simp: match_at_def starts_with_iff split: if_splits)
  from match_lead_Some [OF u(2)] show ?thesis unfolding u(1) by simp
qed

lemma interpolate_skip:
  "match_at (c # s) = None \<Longrightarrow> interpolate inherited outputs (c # s) = c # interpolate inherited outputs s"
  by (subst interpolate.simps) simp

lemma interpolate_Nil [simp]: "interpolate inherited outputs [] = []"
  by (subst interpolate.simps) (simp add: match_at_def starts_with_def)

lemma match_at_other: "c \<noteq> CHR ''{'' \<Longrightarrow> match_at (c # s) = None"
  by (simp add: match_at_def starts_with_def)

lemma interpolate_prefix:
  "CHR ''{'' \<notin> set pre \<Longrightarrow>
     interpolate inherited outputs (pre @ s) = pre @ interpolate inherited outputs s"
  by (induction pre) (auto simp: interpolate_skip match_at_other)

lemma interpolate_step:
  assumes "CHR ''{'' \<notin> set pre" and "r \<noteq> []" and "CHR ''}'' \<notin> set r"
  shows "interpolate inherited outputs (pre @ ''{{'' @ r @ ''}}'' @ rest) =
    pre @ value_text (getByPath inherited outputs (trim r)) @ interpolate inherited outputs rest"
proof -
  obtain g where g: "match_at (''{{'' @ r @ ''}}'' @ rest) = Some (g, rest)" "trim g = trim r"
    using match_at_text [OF assms(3,2)] by blast
  then have "interpolate inherited outputs (''{{'' @ r @ ''}}'' @ rest) =
      value_text (getByPath inherited outputs (trim r)) @ interpolate inherited outputs rest"
    by (subst interpolate.simps) (simp add: replacement_def)
  with interpolate_prefix [OF assms(1)] show ?thesis by simp
qed

section \<open>Properties\<close>

text \<open>
   The replacement is complete and ordered: up to a first pair of opening braces the text is
  copied, a placeholder becomes the text of the value its trimmed path names, and the rest of the
  text is treated the same way.  This characterises the backtracking expression without
  backtracking, for any text before and after.
\<close>

theorem interpolate_placeholder:
  assumes "CHR ''{'' \<notin> set pre" and "r \<noteq> []" and "CHR ''}'' \<notin> set r"
  shows "interpolate inherited outputs (pre @ ''{{'' @ r @ ''}}'' @ rest) =
    pre @ value_text (getByPath inherited outputs (trim r)) @ interpolate inherited outputs rest"
  by (rule interpolate_step [OF assms])

theorem interpolate_placeholder_witness:
  "interpolate (\<lambda>v k. JUndef) [(''a'', JObj [(''title'', JStr ''Home'')])]
     (''Hi '' @ ''{{'' @ '' a.title '' @ ''}}'' @ ''!'') = ''Hi Home!''"
proof -
  have "getByPath (\<lambda>v k. JUndef) [(''a'', JObj [(''title'', JStr ''Home'')])] (trim '' a.title '') =
      JStr ''Home''"
    by (simp add: getByPath_def path_keys_def trim_def js_space_def object_prop_def)
  then show ?thesis
    using interpolate_placeholder [of "''Hi ''" "'' a.title ''" "\<lambda>v k. JUndef"
        "[(''a'', JObj [(''title'', JStr ''Home'')])]" "''!''"]
      interpolate_prefix [of "''!''" "\<lambda>v k. JUndef" _ "[]"]
    by (simp add: value_text_def)
qed

text \<open>
   A text changes only through placeholders: when no pair of opening braces is followed by a
  nonempty run without a closing brace and then two closing braces, it is returned as it is.
\<close>

theorem interpolate_unchanged:
  assumes "\<And>u r v. s = u @ ''{{'' @ r @ ''}}'' @ v \<Longrightarrow> r \<noteq> [] \<Longrightarrow> CHR ''}'' \<in> set r"
  shows "interpolate inherited outputs s = s"
  using assms
proof (induction s)
  case (Cons c s)
  have "match_at (c # s) = None"
  proof (rule ccontr)
    assume "match_at (c # s) \<noteq> None"
    then obtain g t where "match_at (c # s) = Some (g, t)" by auto
    from match_at_Some [OF this] Cons.prems [of "[]"] show False by auto
  qed
  moreover have "interpolate inherited outputs s = s"
  proof (rule Cons.IH)
    fix u r v
    assume "s = u @ ''{{'' @ r @ ''}}'' @ v" "r \<noteq> []"
    then show "CHR ''}'' \<in> set r" using Cons.prems [of "c # u" r v] by simp
  qed
  ultimately show ?case by (simp add: interpolate_skip)
qed simp

theorem interpolate_unchanged_witness:
  "interpolate (\<lambda>v k. JUndef) [] ''{{ }'' = ''{{ }''"
proof (rule interpolate_unchanged)
  fix u r v
  assume e: "''{{ }'' = u @ ''{{'' @ r @ ''}}'' @ v" and "r \<noteq> []"
  from arg_cong [OF e, of length] have "length (u @ ''{{'' @ r @ ''}}'' @ v) = 4" by simp
  with \<open>r \<noteq> []\<close> show "CHR ''}'' \<in> set r" by (cases r) auto
qed

text \<open>
   A placeholder with nothing but white space in it is not empty text: it names the root of
  the lookup, so it is replaced by the JSON of every output of the run so far.
\<close>

theorem blank_placeholder_dumps_outputs:
  "interpolate inherited outputs ''{{ }}'' = nullish (stringify (JObj outputs)) []"
proof -
  have root: "getByPath inherited outputs [] = JObj outputs"
    by (simp add: getByPath_def path_keys_def)
  have "interpolate inherited outputs ([] @ ''{{'' @ '' '' @ ''}}'' @ []) =
      value_text (getByPath inherited outputs (trim '' ''))"
    using interpolate_prefix [of "[]"] match_at_text [of "'' ''" "[]"]
    by (subst interpolate.simps)
      (auto simp: replacement_def)
  moreover have "trim '' '' = []" by (simp add: trim_def js_space_def)
  ultimately show ?thesis by (simp add: root value_text_def)
qed

end
