(* ===== verification/Graph.thy ===== *)
theory Graph
  imports Schema Interpolate
begin

text \<open>
  Workflow graphs: the structural validation of \<open>features/workflows/lib/validate-graph.ts\<close>, the
  upstream walk of \<open>features/workflows/hooks/use-upstream-connections.ts\<close>, and the interface of
  the \<open>toposort\<close> package both the validation and the runner call.

  The package is not part of the repository.  The locale \<open>toposort_lib\<close> states its documented
  contract; a definition that calls it takes it as an argument, and a theorem about such a
  definition assumes the locale's predicate.  Kahn's algorithm satisfies the contract, so the
  assumption can be met.
\<close>

section \<open>The toposort package\<close>

type_synonym topo = "(string \<times> string) list \<Rightarrow> string list option"

fun before :: "'a \<Rightarrow> 'a \<Rightarrow> 'a list \<Rightarrow> bool" where
  "before a b [] = False"
| "before a b (x # xs) = (if x = a then b \<in> set xs else before a b xs)"

lemma before_set: "before a b xs \<Longrightarrow> a \<in> set xs \<and> b \<in> set xs"
  by (induction xs) (auto split: if_splits)

lemma before_antisym: "distinct xs \<Longrightarrow> before a b xs \<Longrightarrow> \<not> before b a xs"
  by (induction xs) (auto split: if_splits dest: before_set)

text \<open>\<open>None\<close> is the error thrown on a cycle.\<close>

locale toposort_lib =
  fixes toposort :: topo
  assumes throws_on_cycle: "toposort es = None \<longleftrightarrow> \<not> acyclic (set es)"
    and sorts: "toposort es = Some xs \<Longrightarrow> distinct xs \<and> set xs = Field (set es)"
    and in_order: "toposort es = Some xs \<Longrightarrow> (a, b) \<in> set es \<Longrightarrow> before a b xs"
begin

lemma returns_iff: "(\<exists>xs. toposort es = Some xs) \<longleftrightarrow> acyclic (set es)"
  using throws_on_cycle [of es] by (cases "toposort es") auto

lemma no_self_loop: "toposort es = Some xs \<Longrightarrow> (a, a) \<notin> set es"
  using returns_iff [of es] by (auto simp: acyclic_def)

lemma order_antisym:
  assumes "toposort es = Some xs" and "before a b xs"
  shows "(b, a) \<notin> set es"
  using in_order [OF assms(1)] sorts [OF assms(1)] before_antisym [OF _ assms(2)] by blast

end

text \<open>Kahn's algorithm: repeatedly take a node without a predecessor among the remaining ones.\<close>

definition is_source :: "(string \<times> string) list \<Rightarrow> string list \<Rightarrow> string \<Rightarrow> bool" where
  "is_source es ns n \<longleftrightarrow> list_all (\<lambda>(a, b). b \<noteq> n \<or> a \<notin> set ns) es"

function kahn :: "(string \<times> string) list \<Rightarrow> string list \<Rightarrow> string list option" where
  "kahn es [] = Some []"
| "kahn es (x # xs) =
     (case List.find (is_source es (x # xs)) (x # xs) of
        None \<Rightarrow> None
      | Some n \<Rightarrow> map_option ((#) n) (kahn es (remove1 n (x # xs))))"
  by pat_completeness auto

termination
proof (relation "measure (\<lambda>(_, ns). length ns)")
  fix es x xs n
  assume "List.find (is_source es (x # xs)) (x # xs) = Some n"
  from find_SomeD [OF this] have "n \<in> set (x # xs)" ..
  then have "length (remove1 n (x # xs)) = length (x # xs) - 1" by (simp only: length_remove1 if_True)
  then show "((es, remove1 n (x # xs)), (es, x # xs)) \<in> measure (\<lambda>(_, ns). length ns)"
    by (simp del: remove1.simps)
qed simp

definition kahn_sort :: topo where
  "kahn_sort es = kahn es (remdups (map fst es @ map snd es))"

lemma kahn_sound:
  "kahn es ns = Some xs \<Longrightarrow> distinct ns \<Longrightarrow>
     set xs = set ns \<and> distinct xs \<and>
     (\<forall>(a, b) \<in> set es. a \<in> set ns \<longrightarrow> b \<in> set ns \<longrightarrow> before a b xs)"
proof (induction es ns arbitrary: xs rule: kahn.induct)
  case (2 es x ys)
  then obtain n zs where n: "List.find (is_source es (x # ys)) (x # ys) = Some n"
    and zs: "kahn es (remove1 n (x # ys)) = Some zs" "xs = n # zs"
    by (cases "List.find (is_source es (x # ys)) (x # ys)") (auto simp del: find.simps remove1.simps)
  from find_SomeD [OF n] have mem: "n \<in> set (x # ys)" and src: "is_source es (x # ys) n"
    by blast+
  have rest: "set (remove1 n (x # ys)) = set (x # ys) - {n}" "distinct (remove1 n (x # ys))"
    using set_remove1_eq [OF 2(3)] distinct_remove1 [OF 2(3)] by blast+
  have ih: "set zs = set (x # ys) - {n}" "distinct zs"
    "(a, b) \<in> set es \<Longrightarrow> a \<in> set (x # ys) - {n} \<Longrightarrow> b \<in> set (x # ys) - {n} \<Longrightarrow> before a b zs" for a b
    using 2(1) [OF n zs(1) rest(2)] unfolding rest(1) by blast+
  have "before a b xs" if "(a, b) \<in> set es" "a \<in> set (x # ys)" "b \<in> set (x # ys)" for a b
  proof -
    have "b \<noteq> n" using src that by (auto simp: is_source_def list_all_iff)
    then show ?thesis using ih(1,3) that zs(2) by (cases "n = a") auto
  qed
  with ih mem zs(2) show ?case by auto
qed simp

lemma acyclic_source:
  assumes "acyclic (set es)" and "ns \<noteq> []"
  shows "\<exists>n \<in> set ns. is_source es ns n"
proof -
  have "wf (set es)" using assms(1) finite_acyclic_wf by blast
  then obtain n where "n \<in> set ns" "\<forall>a. (a, n) \<in> set es \<longrightarrow> a \<notin> set ns"
    using assms(2) unfolding wf_eq_minimal by (metis list.set_intros(1) neq_Nil_conv)
  then show ?thesis by (auto simp: is_source_def list_all_iff)
qed

lemma kahn_complete: "acyclic (set es) \<Longrightarrow> \<exists>xs. kahn es ns = Some xs"
proof (induction es ns rule: kahn.induct)
  case (2 es x ys)
  obtain n where n: "List.find (is_source es (x # ys)) (x # ys) = Some n"
    using acyclic_source [OF 2(2), of "x # ys"] find_NoneD [of "is_source es (x # ys)" "x # ys"]
    by (cases "List.find (is_source es (x # ys)) (x # ys)") blast+
  from 2(1) [OF n 2(2)] obtain zs where "kahn es (remove1 n (x # ys)) = Some zs" ..
  with n have "kahn es (x # ys) = Some (n # zs)" by (simp del: find.simps remove1.simps)
  then show ?case ..
qed simp

lemma before_acyclic:
  assumes "distinct xs" and "\<And>a b. (a, b) \<in> r \<Longrightarrow> before a b xs"
  shows "acyclic r"
proof (rule acyclicI, intro allI notI)
  have trans: "before a c xs" if "before a b xs" "before b c xs" for a b c
    using assms(1) that by (induction xs) (auto split: if_splits dest: before_set)
  have "before a b xs" if "(a, b) \<in> r\<^sup>+" for a b
    using that by (induction rule: trancl.induct) (auto intro: assms(2) trans)
  moreover fix a assume "(a, a) \<in> r\<^sup>+"
  ultimately have "before a a xs" .
  with before_antisym [OF assms(1) this] show False by simp
qed

interpretation kahn: toposort_lib kahn_sort
proof
  fix es :: "(string \<times> string) list" and xs and a b :: string
  let ?ns = "remdups (map fst es @ map snd es)"
  have ns: "set ?ns = Field (set es)" by (force simp: Field_def)
  {
    assume k: "kahn_sort es = Some xs"
    note s = kahn_sound [OF k [unfolded kahn_sort_def]]
    show "distinct xs \<and> set xs = Field (set es)" using s ns by simp
    assume "(a, b) \<in> set es"
    moreover from this have "a \<in> set ?ns" "b \<in> set ?ns" unfolding ns by (auto simp: Field_def)
    ultimately show "before a b xs" using s by auto
  }
next
  fix es :: "(string \<times> string) list"
  let ?ns = "remdups (map fst es @ map snd es)"
  show "kahn_sort es = None \<longleftrightarrow> \<not> acyclic (set es)"
  proof
    assume "kahn_sort es = None"
    then show "\<not> acyclic (set es)" using kahn_complete [of es ?ns] by (auto simp: kahn_sort_def)
  next
    assume c: "\<not> acyclic (set es)"
    show "kahn_sort es = None"
    proof (rule ccontr)
      assume "kahn_sort es \<noteq> None"
      then obtain xs where k: "kahn es ?ns = Some xs" by (auto simp: kahn_sort_def)
      have s: "distinct xs" "\<And>a b. (a, b) \<in> set es \<Longrightarrow> a \<in> set ?ns \<Longrightarrow> b \<in> set ?ns \<Longrightarrow> before a b xs"
        using kahn_sound [OF k] by auto
      have "before a b xs" if "(a, b) \<in> set es" for a b
        by (rule s(2) [OF that]) (use that in \<open>force simp del: map_append\<close>)+
      with before_acyclic [of xs "set es"] s(1) c show False by auto
    qed
  qed
qed

section \<open>Validation\<close>

text \<open>The dash in two messages is written as its UTF-8 bytes.\<close>

definition em_dash :: string where
  "em_dash = [CHR 0xE2, CHR 0x80, CHR 0x94]"

definition edge_pairs :: "edge list \<Rightarrow> (string \<times> string) list" where
  "edge_pairs es = map (\<lambda>e. (eg_source e, eg_target e)) es"

definition cycle_problem :: string where
  "cycle_problem = ''Workflow has a cycle '' @ em_dash @ '' remove the loop before running.''"

definition validateGraph :: "topo \<Rightarrow> workflow_graph \<Rightarrow> string list" where
  "validateGraph toposort g =
     (let triggers = count_if (\<lambda>n. sd_kind (sn_data n) = Trigger) (wg_nodes g);
          p1 = (if triggers \<noteq> 1
                then [''A workflow needs exactly one Start trigger (found '' @ nat_text triggers @ '').'']
                else []);
          p2 = (if length (wg_edges g) = 0 then [''Connect your nodes before running.'']
                else case toposort (edge_pairs (wg_edges g)) of
                       None \<Rightarrow> [cycle_problem] | Some order \<Rightarrow> [])
      in p1 @ p2)"

text \<open>A graph that can be run: what the validation is meant to accept.\<close>

definition runnable :: "workflow_graph \<Rightarrow> bool" where
  "runnable g \<longleftrightarrow>
     (\<exists>!i. i < length (wg_nodes g) \<and> sd_kind (sn_data (wg_nodes g ! i)) = Trigger) \<and>
     wg_edges g \<noteq> [] \<and> acyclic (set (edge_pairs (wg_edges g)))"

lemma singleton_ex1: "(\<exists>i. S = {i}) \<longleftrightarrow> (\<exists>!i. i \<in> S)"
  by blast

lemma count_if_one: "count_if p xs = 1 \<longleftrightarrow> (\<exists>!i. i < length xs \<and> p (xs ! i))"
  using singleton_ex1 [of "{i. i < length xs \<and> p (xs ! i)}"]
  unfolding length_filter_conv_card card_1_singleton_iff One_nat_def mem_Collect_eq .

lemma runnable_eq:
  "runnable g \<longleftrightarrow> count_if (\<lambda>n. sd_kind (sn_data n) = Trigger) (wg_nodes g) = 1 \<and>
     wg_edges g \<noteq> [] \<and> acyclic (set (edge_pairs (wg_edges g)))"
  unfolding runnable_def count_if_one ..

text \<open>
   C30. Validation is exact, whatever correct topological sort is used: a graph has no problems
  precisely when it has exactly one trigger node, at least one edge and no cycle.
\<close>

theorem validateGraph_exact:
  assumes "toposort_lib toposort"
  shows "validateGraph toposort g = [] \<longleftrightarrow> runnable g"
  using toposort_lib.throws_on_cycle [OF assms, of "edge_pairs (wg_edges g)"] runnable_eq [of g]
  by (auto simp: validateGraph_def Let_def split: option.splits)

definition sample_node :: "string \<Rightarrow> string \<Rightarrow> step_kind \<Rightarrow> step_node" where
  "sample_node i ty k = \<lparr>sn_id = i, sn_position = (0, 0),
     sn_data = \<lparr>sd_type = ty, sd_kind = k, sd_title = ty, sd_values = []\<rparr>\<rparr>"

definition sample_edge :: "string \<Rightarrow> string \<Rightarrow> edge" where
  "sample_edge a b = \<lparr>eg_id = a @ b, eg_source = a, eg_target = b\<rparr>"

definition sample_graph :: workflow_graph where
  "sample_graph = \<lparr>wg_nodes = [sample_node ''s'' ''start'' Trigger, sample_node ''u'' ''open-url'' Action],
     wg_edges = [sample_edge ''s'' ''u'']\<rparr>"

theorem validateGraph_exact_witness: "runnable sample_graph"
proof -
  have "validateGraph kahn_sort sample_graph = []"
    by (simp add: validateGraph_def sample_graph_def sample_node_def sample_edge_def edge_pairs_def
        kahn_sort_def is_source_def)
  then show ?thesis by (simp only: validateGraph_exact [OF kahn.toposort_lib_axioms])
qed

section \<open>Upstream connections\<close>

text \<open>
  \<open>getIncomers\<close> of the React Flow package: the nodes an edge leads from to the given node.  Its
  contract is a locale, met by filtering the nodes.
\<close>

type_synonym incomers = "step_node \<Rightarrow> step_node list \<Rightarrow> edge list \<Rightarrow> step_node list"

definition edge_into :: "edge list \<Rightarrow> step_node \<Rightarrow> step_node \<Rightarrow> bool" where
  "edge_into es m n \<longleftrightarrow> (\<exists>e \<in> set es. eg_source e = sn_id m \<and> eg_target e = sn_id n)"

locale react_flow =
  fixes getIncomers :: incomers
  assumes incomers: "set (getIncomers n nodes es) = {m \<in> set nodes. edge_into es m n}"

interpretation filter_incomers: react_flow "\<lambda>n nodes es. filter (\<lambda>m. edge_into es m n) nodes"
  by unfold_locales simp

text \<open>One \<open>for\<close> loop of the walk: ancestors, ids seen, queue.\<close>

fun visit_incomers ::
    "step_node list \<times> string set \<times> step_node list \<Rightarrow> step_node list
      \<Rightarrow> step_node list \<times> string set \<times> step_node list" where
  "visit_incomers (anc, seen, queue) [] = (anc, seen, queue)"
| "visit_incomers (anc, seen, queue) (m # ms) =
     (if sn_id m \<in> seen then visit_incomers (anc, seen, queue) ms
      else visit_incomers (anc @ [m], insert (sn_id m) seen, queue @ [m]) ms)"

text \<open>The \<open>while\<close> loop; a walk that never ended would be \<open>None\<close>.\<close>

partial_function (option) walk_up ::
    "incomers \<Rightarrow> step_node list \<Rightarrow> edge list \<Rightarrow> step_node list \<Rightarrow> string set \<Rightarrow> step_node list
      \<Rightarrow> step_node list option" where
  "walk_up getIncomers nodes es anc seen queue =
     (case queue of
        [] \<Rightarrow> Some anc
      | current # rest \<Rightarrow>
          (case visit_incomers (anc, seen, rest) (getIncomers current nodes es) of
             (anc', seen', queue') \<Rightarrow> walk_up getIncomers nodes es anc' seen' queue'))"

definition upstream_nodes ::
    "incomers \<Rightarrow> step_node list \<Rightarrow> edge list \<Rightarrow> step_node option \<Rightarrow> step_node list option" where
  "upstream_nodes getIncomers nodes es selected =
     (case selected of
        None \<Rightarrow> Some []
      | Some n \<Rightarrow> walk_up getIncomers nodes es [] {} [n])"

record upstream_connection =
  uc_token :: string
  uc_label :: string
  uc_nodeType :: string

definition output_token :: "string \<Rightarrow> string \<Rightarrow> string" where
  "output_token n path = ''{{ '' @ n @ ''.'' @ path @ '' }}''"

definition node_connections :: "step_node \<Rightarrow> node_definition \<Rightarrow> upstream_connection list" where
  "node_connections n d =
     map (\<lambda>out. \<lparr>uc_token = output_token (sn_id n) (no_path out),
                 uc_label = sd_title (sn_data n) @ '' '' @ [CHR 0xC2, CHR 0xB7] @ '' '' @ no_label out,
                 uc_nodeType = sd_type (sn_data n)\<rparr>) (nd_outputs d)"

text \<open>
  The whole hook, on the nodes and edges of the canvas and the selected node.  \<open>None\<close> inside is
  the type error of a node whose type has no registry entry.
\<close>

definition upstream_connections ::
    "incomers \<Rightarrow> step_node list \<Rightarrow> edge list \<Rightarrow> step_node option
      \<Rightarrow> upstream_connection list option option" where
  "upstream_connections getIncomers nodes es selected =
     map_option (\<lambda>ancestors.
         map_option concat (those (map (\<lambda>n.
           case js_lookup nodeRegistry (sd_type (sn_data n)) of
             Own d \<Rightarrow> Some (node_connections n d) | _ \<Rightarrow> None) ancestors)))
       (upstream_nodes getIncomers nodes es selected)"

definition up_edges :: "step_node list \<Rightarrow> edge list \<Rightarrow> (string \<times> string) set" where
  "up_edges nodes es = {(sn_id m, sn_id n) | m n. m \<in> set nodes \<and> n \<in> set nodes \<and> edge_into es m n}"

text \<open>What one visit adds: the unseen incomers, each once.\<close>

lemma visit_incomers_eq:
  "\<exists>new. visit_incomers (anc, seen, queue) ms = (anc @ new, seen \<union> sn_id ` set new, queue @ new) \<and>
     set new \<subseteq> set ms \<and> distinct (map sn_id new) \<and> sn_id ` set new \<inter> seen = {} \<and>
     sn_id ` set ms \<subseteq> seen \<union> sn_id ` set new"
proof (induction ms arbitrary: anc seen queue)
  case (Cons m ms)
  show ?case
  proof (cases "sn_id m \<in> seen")
    case True
    with Cons [of anc seen queue] show ?thesis by auto
  next
    case False
    obtain new where new: "visit_incomers (anc @ [m], insert (sn_id m) seen, queue @ [m]) ms =
        ((anc @ [m]) @ new, insert (sn_id m) seen \<union> sn_id ` set new, (queue @ [m]) @ new)"
      "set new \<subseteq> set ms" "distinct (map sn_id new)" "sn_id ` set new \<inter> insert (sn_id m) seen = {}"
      "sn_id ` set ms \<subseteq> insert (sn_id m) seen \<union> sn_id ` set new"
      using Cons [of "anc @ [m]" "insert (sn_id m) seen" "queue @ [m]"]
      by (elim exE conjE) (rule that)
    with False show ?thesis by (intro exI [of _ "m # new"]) auto
  qed
qed auto

text \<open>
  The walk: every ancestor once; a node is in reach when a path of edges leads from it to the
  selected node; what has left the queue has all its incomers among the ids seen.
\<close>

definition walk_inv ::
    "step_node list \<Rightarrow> edge list \<Rightarrow> step_node \<Rightarrow> step_node list \<Rightarrow> string set \<Rightarrow> step_node list \<Rightarrow> bool" where
  "walk_inv nodes es sel anc seen queue \<longleftrightarrow>
     seen = sn_id ` set anc \<and> distinct (map sn_id anc) \<and> set anc \<subseteq> set nodes \<and>
     (\<forall>m \<in> set anc. (sn_id m, sn_id sel) \<in> (up_edges nodes es)\<^sup>+) \<and>
     set queue \<subseteq> insert sel (set anc) \<and>
     (\<forall>n \<in> insert sel (set anc) - set queue. \<forall>m \<in> set nodes. edge_into es m n \<longrightarrow> sn_id m \<in> seen)"

lemma walk_step_inv:
  assumes "react_flow g" and "sel \<in> set nodes" and "walk_inv nodes es sel anc seen (n # rest)"
    and "visit_incomers (anc, seen, rest) (g n nodes es) = (anc', seen', queue')"
  shows "walk_inv nodes es sel anc' seen' queue'"
    and "2 * card (sn_id ` set nodes - seen') + length queue' < 2 * card (sn_id ` set nodes - seen) + Suc (length rest)"
proof -
  have inc: "set (g n nodes es) = {m \<in> set nodes. edge_into es m n}"
    using assms(1) by (rule react_flow.incomers)
  obtain new where new: "anc' = anc @ new" "seen' = seen \<union> sn_id ` set new" "queue' = rest @ new"
      "set new \<subseteq> set (g n nodes es)" "distinct (map sn_id new)" "sn_id ` set new \<inter> seen = {}"
      "sn_id ` set (g n nodes es) \<subseteq> seen \<union> sn_id ` set new"
    using visit_incomers_eq [of anc seen rest "g n nodes es"] assms(4) by auto
  have n: "n \<in> insert sel (set anc)" "n \<in> set nodes"
    using assms(2,3) by (auto simp: walk_inv_def)
  have up: "(sn_id m, sn_id sel) \<in> (up_edges nodes es)\<^sup>+" if "m \<in> set new" for m
  proof -
    have "(sn_id m, sn_id n) \<in> up_edges nodes es"
      using that new(4) inc n(2) by (auto simp: up_edges_def)
    moreover have "n = sel \<or> (sn_id n, sn_id sel) \<in> (up_edges nodes es)\<^sup>+"
      using n(1) assms(3) by (auto simp: walk_inv_def)
    ultimately show ?thesis by (auto intro: trancl_into_trancl2)
  qed
  have closed: "sn_id m \<in> seen'" if "x \<in> insert sel (set anc') - set queue'" "m \<in> set nodes"
    "edge_into es m x" for x m
  proof (cases "x = n")
    case True
    with that(2,3) inc new(2,7) show ?thesis by auto
  next
    case False
    with that assms(3) new(1-3) show ?thesis by (auto simp: walk_inv_def)
  qed
  show "walk_inv nodes es sel anc' seen' queue'"
    unfolding walk_inv_def
  proof (intro conjI ballI impI)
    show "seen' = sn_id ` set anc'" "set anc' \<subseteq> set nodes" "set queue' \<subseteq> insert sel (set anc')"
      using assms(3) new(1-4) inc by (auto simp: walk_inv_def)
    show "distinct (map sn_id anc')"
      using assms(3) new(1,5,6) by (auto simp: walk_inv_def)
    show "(sn_id m, sn_id sel) \<in> (up_edges nodes es)\<^sup>+" if "m \<in> set anc'" for m
      using that up assms(3) new(1) by (auto simp: walk_inv_def)
  qed (rule closed)
  have "sn_id ` set new \<subseteq> sn_id ` set nodes - seen" using new(4,6) inc by auto
  moreover have "card (sn_id ` set new) = length new"
    using distinct_card [OF new(5)] by simp
  ultimately have "card (sn_id ` set nodes - seen) = card (sn_id ` set nodes - seen') + length new"
    using new(2) card_Diff_subset [of "sn_id ` set new" "sn_id ` set nodes - seen"]
      card_mono [of "sn_id ` set nodes - seen" "sn_id ` set new"]
    by (simp add: Diff_Un Diff_Int2 set_diff_eq)
  then show "2 * card (sn_id ` set nodes - seen') + length queue' <
      2 * card (sn_id ` set nodes - seen) + Suc (length rest)"
    using new(3) by simp
qed

lemma walk_up_returns:
  assumes "react_flow g" and "sel \<in> set nodes"
  shows "walk_inv nodes es sel anc seen queue \<Longrightarrow>
    \<exists>anc' seen'. walk_up g nodes es anc seen queue = Some anc' \<and> walk_inv nodes es sel anc' seen' []"
proof (induction "2 * card (sn_id ` set nodes - seen) + length queue" arbitrary: anc seen queue
    rule: less_induct)
  case less
  show ?case
  proof (cases queue)
    case Nil
    with less(2) show ?thesis by (subst walk_up.simps) auto
  next
    case (Cons n rest)
    obtain anc' seen' queue' where v:
      "visit_incomers (anc, seen, rest) (g n nodes es) = (anc', seen', queue')"
      by (cases "visit_incomers (anc, seen, rest) (g n nodes es)") auto
    note step = walk_step_inv [OF assms less(2) [unfolded Cons] v]
    obtain a s where "walk_up g nodes es anc' seen' queue' = Some a" "walk_inv nodes es sel a s []"
      using less(1) [OF _ step(1)] step(2) Cons by auto
    then show ?thesis by (subst walk_up.simps) (auto simp: Cons v)
  qed
qed

lemma up_edges_pred:
  assumes "distinct (map sn_id nodes)" and "(a, sn_id n) \<in> up_edges nodes es" and "n \<in> set nodes"
  shows "\<exists>m \<in> set nodes. a = sn_id m \<and> edge_into es m n"
  using assms by (auto simp: up_edges_def distinct_map dest: inj_onD)

lemma walked_all:
  assumes "distinct (map sn_id nodes)" and "sel \<in> set nodes" and "walk_inv nodes es sel anc seen []"
    and "(a, sn_id sel) \<in> (up_edges nodes es)\<^sup>+"
  shows "a \<in> sn_id ` set anc"
proof -
  have closed: "a \<in> sn_id ` set anc" if "(a, sn_id n) \<in> up_edges nodes es" "n \<in> insert sel (set anc)" for a n
  proof -
    have "n \<in> set nodes" using that(2) assms(2,3) by (auto simp: walk_inv_def)
    with up_edges_pred [OF assms(1) that(1)] obtain m where
      "m \<in> set nodes" "a = sn_id m" "edge_into es m n" by blast
    with that(2) assms(3) show ?thesis by (auto simp: walk_inv_def)
  qed
  from assms(4) show ?thesis
  proof (induction rule: converse_trancl_induct)
    case (base y)
    then show ?case by (rule closed) simp
  next
    case (step y z)
    then obtain n where "z = sn_id n" "n \<in> set anc" by blast
    with step(1) show ?case by (auto intro: closed)
  qed
qed

text \<open>
  The walk up the graph always ends, also on a cyclic canvas, and collects exactly the nodes
  from which a path of edges leads to the selected node, each of them once.
\<close>

theorem upstream_nodes_exact:
  assumes "react_flow getIncomers" and "distinct (map sn_id nodes)" and "sel \<in> set nodes"
  shows "\<exists>anc. upstream_nodes getIncomers nodes es (Some sel) = Some anc \<and> distinct anc \<and>
    set anc = {n \<in> set nodes. (sn_id n, sn_id sel) \<in> (up_edges nodes es)\<^sup>+}"
proof -
  have "walk_inv nodes es sel [] {} [sel]" by (simp add: walk_inv_def)
  then obtain anc seen where w: "walk_up getIncomers nodes es [] {} [sel] = Some anc"
    "walk_inv nodes es sel anc seen []"
    using walk_up_returns [OF assms(1,3)] by blast
  have "n \<in> set anc" if n: "n \<in> set nodes" and up: "(sn_id n, sn_id sel) \<in> (up_edges nodes es)\<^sup>+" for n
  proof -
    obtain m where m: "m \<in> set anc" "sn_id m = sn_id n"
      using walked_all [OF assms(2,3) w(2) up] by auto
    moreover from this w(2) have "m \<in> set nodes" by (auto simp: walk_inv_def)
    ultimately show ?thesis using n assms(2)
      by (auto simp: distinct_map dest: inj_onD)
  qed
  with w(2) have "set anc = {n \<in> set nodes. (sn_id n, sn_id sel) \<in> (up_edges nodes es)\<^sup>+}"
    by (auto simp: walk_inv_def)
  moreover have "distinct anc" using w(2) by (auto simp: walk_inv_def distinct_map)
  ultimately show ?thesis using w(1) by (simp add: upstream_nodes_def)
qed

theorem upstream_nodes_exact_witness:
  "\<exists>anc. upstream_nodes (\<lambda>n nodes es. filter (\<lambda>m. edge_into es m n) nodes)
       (wg_nodes sample_graph) (wg_edges sample_graph) (Some (sample_node ''u'' ''open-url'' Action)) =
     Some anc \<and> sample_node ''s'' ''start'' Trigger \<in> set anc"
proof -
  let ?s = "sample_node ''s'' ''start'' Trigger" and ?u = "sample_node ''u'' ''open-url'' Action"
  have d: "distinct (map sn_id (wg_nodes sample_graph))" "?u \<in> set (wg_nodes sample_graph)"
    "?s \<in> set (wg_nodes sample_graph)"
    by (simp_all add: sample_graph_def sample_node_def)
  have "(sn_id ?s, sn_id ?u) \<in> up_edges (wg_nodes sample_graph) (wg_edges sample_graph)"
    unfolding up_edges_def
  proof (rule CollectI, intro exI conjI, rule refl)
    show "?s \<in> set (wg_nodes sample_graph)" "?u \<in> set (wg_nodes sample_graph)" by fact+
    show "edge_into (wg_edges sample_graph) ?s ?u"
      by (simp add: edge_into_def sample_graph_def sample_edge_def sample_node_def)
  qed
  then show ?thesis
    using upstream_nodes_exact [OF filter_incomers.react_flow_axioms d(1,2),
        of "wg_edges sample_graph"] d(3) by auto
qed

text \<open>A token names one output of one node.\<close>

definition plain_id :: "string \<Rightarrow> bool" where
  "plain_id s \<longleftrightarrow> s \<noteq> [] \<and> list_all (\<lambda>c. word_char c \<or> c = CHR ''-'') s"

lemma plain_chars:
  assumes "plain_id s" and "c \<in> set s"
  shows "c \<noteq> CHR ''.'' \<and> c \<noteq> CHR ''['' \<and> c \<noteq> CHR '']'' \<and> c \<noteq> CHR ''{'' \<and> c \<noteq> CHR ''}'' \<and> \<not> js_space c"
proof -
  from assms have "word_char c \<or> c = CHR ''-''" by (auto simp: plain_id_def list_all_iff)
  then show ?thesis by (auto simp: word_char_def js_space_def Let_def)
qed

lemma dot_brackets_plain: "CHR ''['' \<notin> set s \<Longrightarrow> dot_brackets s = s"
  by (induction s) (auto simp: Let_def)

lemma split_on_plain: "d \<notin> set s \<Longrightarrow> split_on d s = [s]"
  by (induction s) auto

lemma split_on_dot: "d \<notin> set a \<Longrightarrow> split_on d (a @ d # b) = a # split_on d b"
  by (induction a) auto

lemma trim_plain: "list_all (\<lambda>c. \<not> js_space c) s \<Longrightarrow> trim ('' '' @ s @ '' '') = s"
proof -
  assume s: "list_all (\<lambda>c. \<not> js_space c) s"
  have sp: "js_space CHR '' ''" by (simp add: js_space_def)
  show ?thesis
  proof (cases s rule: rev_cases)
    case Nil
    with sp show ?thesis by (simp add: trim_def)
  next
    case (snoc u c)
    with s have "\<not> js_space c" "\<forall>x \<in> set u. \<not> js_space x" by (auto simp: list_all_iff)
    with snoc sp show ?thesis by (cases u) (auto simp: trim_def)
  qed
qed



end
