(* ===== verification/ConvertPlan.thy ===== *)
theory ConvertPlan
  imports Graph
begin

text \<open>
  From a plan to a canvas graph: the plan types of \<open>features/workflows/lib/planner-types.ts\<close> and
  the layout and conversion of \<open>features/workflows/lib/convert-plan.ts\<close>.

  The depth computation is a recursion over two shared mutable collections, the memo table and
  the visited set.  It is written with explicit state and a fuel argument; \<open>getDepth_total\<close> shows
  that the fuel the layout passes always suffices, on cyclic input too.
\<close>

section \<open>Plans\<close>

record plan_node =
  pn_id :: string
  pn_type :: string
  pn_title :: string
  pn_values :: "(string \<times> string) list"

record plan_edge =
  pe_id :: string
  pe_source :: string
  pe_target :: string

record workflow_plan =
  wp_version :: string
  wp_name :: string
  wp_canBuild :: bool
  wp_unsupportedReason :: "string option"
  wp_nodes :: "plan_node list"
  wp_edges :: "plan_edge list"

section \<open>Depths\<close>

type_synonym incoming = "(string \<times> string list) list"
type_synonym depth_state = "(string \<times> nat) list \<times> string set"

definition incoming_map :: "plan_node list \<Rightarrow> plan_edge list \<Rightarrow> incoming" where
  "incoming_map nodes es =
     foldl (\<lambda>m e. case map_of m (pe_target e) of
              None \<Rightarrow> m
            | Some ps \<Rightarrow> AList.update (pe_target e) (ps @ [pe_source e]) m)
       (foldl (\<lambda>m n. AList.update (pn_id n) [] m) [] nodes) es"

function getDepth :: "nat \<Rightarrow> incoming \<Rightarrow> depth_state \<Rightarrow> string \<Rightarrow> (nat \<times> depth_state) option"
  and max_depth :: "nat \<Rightarrow> incoming \<Rightarrow> depth_state \<Rightarrow> nat \<Rightarrow> string list
    \<Rightarrow> (nat \<times> depth_state) option" where
  "getDepth 0 inc st n = None"
| "getDepth (Suc k) inc (depths, visited) n =
     (case map_of depths n of
        Some d \<Rightarrow> Some (d, (depths, visited))
      | None \<Rightarrow>
          if n \<in> visited then Some (0, (depths, visited))
          else (let visited' = insert n visited; parents = nullish (map_of inc n) [] in
            if length parents = 0 then Some (0, (AList.update n 0 depths, visited'))
            else (case max_depth k inc (depths, visited') 0 parents of
                    None \<Rightarrow> None
                  | Some (m, (ds, vs)) \<Rightarrow> Some (m + 1, (AList.update n (m + 1) ds, vs)))))"
| "max_depth k inc st acc [] = Some (acc, st)"
| "max_depth k inc st acc (p # ps) =
     (case getDepth k inc st p of
        None \<Rightarrow> None
      | Some (d, st') \<Rightarrow> max_depth k inc st' (max acc d) ps)"
  by pat_completeness auto

termination
  by (relation "measures [\<lambda>x. case x of Inl (k, _) \<Rightarrow> k | Inr (k, _) \<Rightarrow> k,
      \<lambda>x. case x of Inl _ \<Rightarrow> 0 | Inr (_, _, _, _, ps) \<Rightarrow> Suc (length ps)]") auto

text \<open>The loop over the nodes: each call starts with an empty visited set.\<close>

definition node_depths :: "nat \<Rightarrow> incoming \<Rightarrow> string list \<Rightarrow> (string \<times> nat) list option" where
  "node_depths k inc ids =
     foldl (\<lambda>r n. Option.bind r (\<lambda>ds.
              map_option (\<lambda>(d, (ds', vs)). ds') (getDepth k inc (ds, {}) n)))
       (Some []) ids"

section \<open>Positions\<close>

text \<open>
  With \<open>c\<close> nodes in a layer, \<open>(idx - (c - 1) / 2) * 340\<close> is the integer
  \<open>340 * idx - 170 * (c - 1)\<close>.
\<close>

definition layer_positions :: "nat \<times> string list \<Rightarrow> (string \<times> (int \<times> int)) list" where
  "layer_positions l =
     map (\<lambda>i. (snd l ! i,
               (340 * int i - 170 * (int (length (snd l)) - 1), 180 * int (fst l))))
       [0 ..< length (snd l)]"

definition add_to_layer ::
    "(string \<times> nat) list \<Rightarrow> (nat \<times> string list) list \<Rightarrow> string \<Rightarrow> (nat \<times> string list) list" where
  "add_to_layer depths layers n =
     (let d = nullish (map_of depths n) 0
      in AList.update d (nullish (map_of layers d) [] @ [n]) layers)"

definition layoutPlanNodes ::
    "plan_node list \<Rightarrow> plan_edge list \<Rightarrow> (string \<times> (int \<times> int)) list option" where
  "layoutPlanNodes nodes es =
     (let inc = incoming_map nodes es; ids = map pn_id nodes in
      map_option (\<lambda>depths.
          foldl (\<lambda>ps (n, pos). AList.update n pos ps) []
            (concat (map layer_positions (foldl (add_to_layer depths) [] ids))))
        (node_depths (length nodes + length es + 1) inc ids))"

section \<open>Conversion\<close>

text \<open>\<open>TypeErr\<close> is the error of iterating over the missing \<open>fields\<close> of an inherited property.\<close>

datatype convert_error = PlanError string | TypeErr

definition convert_node ::
    "(string \<times> (int \<times> int)) list \<Rightarrow> plan_node \<Rightarrow> convert_error + step_node" where
  "convert_node positions n =
     (case js_lookup nodeRegistry (pn_type n) of
        Missing \<Rightarrow> Inl (PlanError (''Unknown node type '' @ [CHR 0x22] @ pn_type n @ [CHR 0x22]
                       @ '' in workflow plan.''))
      | Inherited \<Rightarrow> Inl TypeErr
      | Own def \<Rightarrow> Inr
          \<lparr>sn_id = pn_id n,
           sn_position = nullish (map_of positions (pn_id n)) (0, 0),
           sn_data = \<lparr>sd_type = pn_type n, sd_kind = nd_kind def,
             sd_title = (if pn_title n = [] then nd_label def else pn_title n),
             sd_values = List.map_filter (\<lambda>f. map_option (Pair (nf_key f))
                 (map_of (pn_values n) (nf_key f))) (nd_fields def)\<rparr>\<rparr>)"

fun map_res :: "('a \<Rightarrow> 'e + 'b) \<Rightarrow> 'a list \<Rightarrow> 'e + 'b list" where
  "map_res f [] = Inr []"
| "map_res f (x # xs) = bind_res (f x) (\<lambda>y. bind_res (map_res f xs) (\<lambda>ys. Inr (y # ys)))"

definition convert_edge :: "plan_edge \<Rightarrow> edge" where
  "convert_edge e =
     \<lparr>eg_id = (if pe_id e = [] then ''e-'' @ pe_source e @ ''-'' @ pe_target e else pe_id e),
      eg_source = pe_source e, eg_target = pe_target e\<rparr>"

text \<open>The outer option is the fuel of the layout.\<close>

definition convertWorkflowPlanToGraph ::
    "topo \<Rightarrow> workflow_plan \<Rightarrow> (convert_error + workflow_graph) option" where
  "convertWorkflowPlanToGraph toposort plan =
     (if \<not> wp_canBuild plan \<or> length (wp_nodes plan) = 0
      then Some (Inl (PlanError (or_default (wp_unsupportedReason plan)
                                   ''Workflow plan cannot be built.'')))
      else map_option (\<lambda>positions.
        bind_res (map_res (convert_node positions) (wp_nodes plan)) (\<lambda>nodes.
          let g = \<lparr>wg_nodes = nodes, wg_edges = map convert_edge (wp_edges plan)\<rparr>;
              problems = validateGraph toposort g
          in if length problems > 0
             then Inl (PlanError (''Generated graph validation failed: '' @ join '' '' problems))
             else Inr g))
        (layoutPlanNodes (wp_nodes plan) (wp_edges plan)))"

section \<open>The fuel suffices\<close>

text \<open>Every call either returns at once or adds an id to the visited set.\<close>

definition inc_within :: "incoming \<Rightarrow> string set \<Rightarrow> bool" where
  "inc_within inc U \<longleftrightarrow> (\<forall>n. set (nullish (map_of inc n) []) \<subseteq> U)"

lemma depth_total:
  assumes "finite U"
  shows "inc_within inc U \<Longrightarrow> n \<in> U \<Longrightarrow> card (U - snd st) < k \<Longrightarrow>
      \<exists>d st'. getDepth k inc st n = Some (d, st') \<and> snd st \<subseteq> snd st'"
    and "inc_within inc U \<Longrightarrow> set ps \<subseteq> U \<Longrightarrow> card (U - snd st) < k \<Longrightarrow>
      \<exists>d st'. max_depth k inc st acc ps = Some (d, st') \<and> snd st \<subseteq> snd st'"
proof (induction k inc st n and k inc st acc ps rule: getDepth_max_depth.induct)
  case (2 k inc depths visited n)
  show ?case
  proof (cases "map_of depths n \<noteq> None \<or> n \<in> visited \<or> nullish (map_of inc n) [] = []")
    case True
    then show ?thesis by (auto split: option.splits)
  next
    case False
    have "U - insert n visited = U - visited - {n}" by blast
    moreover have "0 < card (U - visited)" using 2(3) False assms by (auto simp: card_gt_0_iff)
    ultimately have "card (U - insert n visited) < k"
      using 2(3,4) False by (simp add: card_Diff_singleton_if)
    moreover have "set (nullish (map_of inc n) []) \<subseteq> U" using 2(2) by (simp add: inc_within_def)
    ultimately obtain d ds vs where
      "max_depth k inc (depths, insert n visited) 0 (nullish (map_of inc n) []) = Some (d, ds, vs)"
      "insert n visited \<subseteq> vs"
      using 2(1) [OF _ _ refl refl _ 2(2)] False by auto
    with False show ?thesis by auto
  qed
next
  case (4 k inc st acc p ps)
  then obtain d st' where p: "getDepth k inc st p = Some (d, st')" "snd st \<subseteq> snd st'" by auto
  have "card (U - snd st') \<le> card (U - snd st)"
    using p(2) assms(1) by (intro card_mono) auto
  with 4(2) [OF p(1) refl 4(3)] 4(4,5) p show ?case by fastforce
qed auto

text \<open>The parents of a node, in edge order.\<close>

definition parents_of :: "plan_edge list \<Rightarrow> string \<Rightarrow> string list" where
  "parents_of es n = map pe_source (filter (\<lambda>e. pe_target e = n) es)"

lemma incoming_nodes:
  "map_of (foldl (\<lambda>m n. AList.update (pn_id n) [] m) m0 nodes) n =
     (if n \<in> pn_id ` set nodes then Some [] else map_of m0 n)"
  by (induction nodes arbitrary: m0) (auto simp: update_conv')

lemma incoming_edges:
  "map_of (foldl (\<lambda>m e. case map_of m (pe_target e) of
        None \<Rightarrow> m | Some ps \<Rightarrow> AList.update (pe_target e) (ps @ [pe_source e]) m) m0 es) n =
     map_option (\<lambda>ps. ps @ parents_of es n) (map_of m0 n)"
proof (induction es arbitrary: m0)
  case Nil
  then show ?case by (cases "map_of m0 n") (simp_all add: parents_of_def)
next
  case (Cons e es)
  show ?case
  proof (cases "map_of m0 (pe_target e)")
    case None
    then show ?thesis using Cons [of m0] by (cases "n = pe_target e") (auto simp: parents_of_def)
  next
    case (Some ps)
    then show ?thesis using Cons [of "AList.update (pe_target e) (ps @ [pe_source e]) m0"]
      by (cases "map_of m0 n") (auto simp: parents_of_def update_conv')
  qed
qed

lemma map_of_incoming:
  "map_of (incoming_map nodes es) n =
     (if n \<in> pn_id ` set nodes then Some (parents_of es n) else None)"
  by (simp add: incoming_map_def incoming_edges incoming_nodes)

definition plan_ids :: "plan_node list \<Rightarrow> plan_edge list \<Rightarrow> string set" where
  "plan_ids nodes es = pn_id ` set nodes \<union> pe_source ` set es"

lemma card_plan_ids: "card (plan_ids nodes es) \<le> length nodes + length es"
  unfolding plan_ids_def
  by (rule order_trans [OF card_Un_le]) (intro add_mono; simp add: card_image_le [THEN order_trans] card_length)

lemma getDepth_total:
  assumes "n \<in> plan_ids nodes es"
  shows "\<exists>d st'. getDepth (length nodes + length es + 1) (incoming_map nodes es) (ds, {}) n = Some (d, st')"
proof -
  have "inc_within (incoming_map nodes es) (plan_ids nodes es)"
    by (auto simp: inc_within_def map_of_incoming parents_of_def plan_ids_def)
  moreover have "finite (plan_ids nodes es)" by (simp add: plan_ids_def)
  moreover have "card (plan_ids nodes es - snd (ds, {})) < length nodes + length es + 1"
    using card_plan_ids [of nodes es] by simp
  ultimately show ?thesis using depth_total(1) assms by blast
qed

lemma node_depths_Some:
  assumes "set ids \<subseteq> pn_id ` set nodes"
  shows "\<exists>ds. node_depths (length nodes + length es + 1) (incoming_map nodes es) ids = Some ds"
  using assms
proof (induction ids rule: rev_induct)
  case Nil
  then show ?case by (simp add: node_depths_def)
next
  case (snoc n ids)
  then obtain ds where "node_depths (length nodes + length es + 1) (incoming_map nodes es) ids = Some ds"
    by auto
  moreover obtain d st where
    "getDepth (length nodes + length es + 1) (incoming_map nodes es) (ds, {}) n = Some (d, st)"
    using getDepth_total [of n nodes es ds] snoc.prems by (auto simp: plan_ids_def)
  ultimately show ?case by (cases st) (simp add: node_depths_def del: getDepth.simps)
qed

lemma layout_total: "\<exists>ps. layoutPlanNodes nodes es = Some ps"
  using node_depths_Some [of "map pn_id nodes" nodes es] by (auto simp: layoutPlanNodes_def Let_def)

section \<open>Depths on an acyclic plan\<close>

definition par :: "incoming \<Rightarrow> (string \<times> string) set" where
  "par inc = {(p, n). p \<in> set (nullish (map_of inc n) [])}"

text \<open>A memo table that is closed under parents and increases from parent to child.\<close>

definition good_depths :: "incoming \<Rightarrow> (string \<times> nat) list \<Rightarrow> bool" where
  "good_depths inc ds \<longleftrightarrow>
     (\<forall>n d. map_of ds n = Some d \<longrightarrow>
        (\<forall>p. (p, n) \<in> par inc \<longrightarrow> (\<exists>d'. map_of ds p = Some d' \<and> d' < d)))"

text \<open>Ids still being computed are strict descendants of the id asked for.\<close>

definition pending_below :: "incoming \<Rightarrow> depth_state \<Rightarrow> string \<Rightarrow> bool" where
  "pending_below inc st n \<longleftrightarrow>
     (\<forall>v \<in> snd st. map_of (fst st) v \<noteq> None \<or> (n, v) \<in> (par inc)\<^sup>+)"

definition extends_to :: "incoming \<Rightarrow> depth_state \<Rightarrow> string set \<Rightarrow> depth_state \<Rightarrow> bool" where
  "extends_to inc st new st' \<longleftrightarrow>
     good_depths inc (fst st') \<and> map_of (fst st) \<subseteq>\<^sub>m map_of (fst st') \<and>
     (\<forall>x. map_of (fst st') x \<noteq> None \<longrightarrow> map_of (fst st) x = None \<longrightarrow> x \<in> new) \<and>
     (\<forall>v \<in> snd st'. v \<in> snd st \<or> map_of (fst st') v \<noteq> None)"

definition up_to :: "incoming \<Rightarrow> string set \<Rightarrow> string set" where
  "up_to inc S = {x. \<exists>p \<in> S. (x, p) \<in> (par inc)\<^sup>*}"

lemma extends_refl: "good_depths inc (fst st) \<Longrightarrow> extends_to inc st new st"
  by (auto simp: extends_to_def)

lemma extends_trans:
  "extends_to inc st A st' \<Longrightarrow> extends_to inc st' B st'' \<Longrightarrow> extends_to inc st (A \<union> B) st''"
  unfolding extends_to_def by (auto simp: map_le_def dom_def)

lemma extends_mono: "extends_to inc st A st' \<Longrightarrow> A \<subseteq> B \<Longrightarrow> extends_to inc st B st'"
  by (auto simp: extends_to_def)

lemma pending_extends:
  "pending_below inc st p \<Longrightarrow> extends_to inc st A st' \<Longrightarrow> pending_below inc st' p"
  unfolding pending_below_def extends_to_def
  by (metis domIff map_le_def)

text \<open>Storing the depth of a node once its parents are in the table.\<close>

lemma extends_store:
  assumes "extends_to inc (depths, insert n visited) (up_to inc {p. (p, n) \<in> par inc}) (ds, vs)"
    and "acyclic (par inc)" and "map_of depths n = None"
    and "\<And>p. (p, n) \<in> par inc \<Longrightarrow> \<exists>d'. map_of ds p = Some d' \<and> d' < d"
  shows "extends_to inc (depths, visited) (up_to inc {n}) (AList.update n d ds, vs)"
proof -
  have notin: "map_of ds n = None"
  proof (rule ccontr)
    assume "map_of ds n \<noteq> None"
    with assms(1,3) have "n \<in> up_to inc {p. (p, n) \<in> par inc}" by (auto simp: extends_to_def)
    then obtain p where "(n, p) \<in> (par inc)\<^sup>*" "(p, n) \<in> par inc" by (auto simp: up_to_def)
    then have "(n, n) \<in> (par inc)\<^sup>+" by simp
    with assms(2) show False by (auto simp: acyclic_def)
  qed
  have self: "(n, n) \<notin> par inc" using assms(2) by (auto simp: acyclic_def)
  have up: "up_to inc {p. (p, n) \<in> par inc} \<subseteq> up_to inc {n}" and "n \<in> up_to inc {n}"
    by (auto simp: up_to_def intro: rtrancl_into_rtrancl)
  moreover have "good_depths inc (AList.update n d ds)"
    unfolding good_depths_def
  proof (intro allI impI)
    fix m e p
    assume m: "map_of (AList.update n d ds) m = Some e" and p: "(p, m) \<in> par inc"
    show "\<exists>d'. map_of (AList.update n d ds) p = Some d' \<and> d' < e"
    proof (cases "m = n")
      case True
      with m p assms(4) [of p] self show ?thesis by (auto simp: update_conv')
    next
      case False
      with m have "map_of ds m = Some e" by (simp add: update_conv')
      moreover have "good_depths inc ds" using assms(1) by (simp add: extends_to_def)
      ultimately obtain d' where "map_of ds p = Some d'" "d' < e"
        using p unfolding good_depths_def by blast
      with notin show ?thesis by (auto simp: update_conv')
    qed
  qed
  ultimately show ?thesis
    using assms(1,3) notin unfolding extends_to_def
    by (auto simp: update_conv' map_le_def)
qed

lemma leaf_stored:
  assumes "acyclic (par inc)" and "good_depths inc depths" and "map_of depths n = None" and "nullish (map_of inc n) [] = []"
  shows "extends_to inc (depths, visited) (up_to inc {n}) (AList.update n 0 depths, insert n visited)"
proof -
  have "extends_to inc (depths, insert n visited) (up_to inc {p. (p, n) \<in> par inc}) (depths, insert n visited)"
    by (rule extends_refl) (use assms(2) in simp)
  moreover have "(p, n) \<notin> par inc" for p using assms(4) by (simp add: par_def)
  ultimately show ?thesis using extends_store [OF _ _ assms(3)] assms(1) by blast
qed

lemma parents_pending:
  assumes "pending_below inc (depths, visited) n" and "p \<in> set (nullish (map_of inc n) [])"
  shows "pending_below inc (depths, insert n visited) p"
proof -
  have "(p, n) \<in> par inc" using assms(2) by (simp add: par_def)
  then show ?thesis using assms(1) by (auto simp: pending_below_def intro: trancl_into_trancl2)
qed

lemma depths_joined:
  assumes "map_of (fst st1) p = Some e" and "extends_to inc st (up_to inc {p}) st1"
    and "extends_to inc st1 (up_to inc (set ps)) st'"
  shows "map_of (fst st') p = Some e" and "extends_to inc st (up_to inc (set (p # ps))) st'"
proof -
  show "map_of (fst st') p = Some e"
    using assms(1,3) by (auto simp: extends_to_def map_le_def dom_def)
  show "extends_to inc st (up_to inc (set (p # ps))) st'"
    by (rule extends_mono [OF extends_trans [OF assms(2,3)]]) (auto simp: up_to_def)
qed

lemma depth_correct:
  assumes ac: "acyclic (par inc0)"
  shows "getDepth k inc st n = Some (d, st') \<Longrightarrow> inc = inc0 \<Longrightarrow> good_depths inc (fst st) \<Longrightarrow>
      pending_below inc st n \<Longrightarrow>
      map_of (fst st') n = Some d \<and> extends_to inc st (up_to inc {n}) st'"
    and "max_depth k inc st acc ps = Some (d, st') \<Longrightarrow> inc = inc0 \<Longrightarrow> good_depths inc (fst st) \<Longrightarrow>
      \<forall>p \<in> set ps. pending_below inc st p \<Longrightarrow>
      acc \<le> d \<and> (\<forall>p \<in> set ps. \<exists>e. map_of (fst st') p = Some e \<and> e \<le> d) \<and>
      extends_to inc st (up_to inc (set ps)) st'"
proof (induction k inc st n and k inc st acc ps arbitrary: d st' and d st'
    rule: getDepth_max_depth.induct)
  case (2 k inc depths visited n)
  show ?case
  proof (cases "map_of depths n")
    case (Some e)
    with 2(2,4) show ?thesis by (auto intro: extends_refl)
  next
    case None
    have fresh: "n \<notin> visited"
      using 2(5) None ac 2(3) by (auto simp: pending_below_def acyclic_def)
    let ?ps = "nullish (map_of inc n) []"
    have pars: "{p. (p, n) \<in> par inc} = set ?ps" by (simp add: par_def)
    show ?thesis
    proof (cases "?ps = []")
      case True
      then have st': "d = 0" "st' = (AList.update n 0 depths, insert n visited)"
        using 2(2) None fresh by auto
      have "extends_to inc (depths, visited) (up_to inc {n}) st'"
        unfolding st' using leaf_stored [OF _ _ None True] ac 2(3,4) by simp
      then show ?thesis by (simp add: st' update_conv')
    next
      case False
      obtain m ds vs where m: "max_depth k inc (depths, insert n visited) 0 ?ps = Some (m, (ds, vs))"
        and st': "d = m + 1" "st' = (AList.update n (m + 1) ds, vs)"
        using 2(2) None fresh False by (auto split: option.splits)
      have "pending_below inc (depths, insert n visited) p" if "p \<in> set ?ps" for p
        using parents_pending [OF 2(5) that] .
      then have ih: "\<forall>p \<in> set ?ps. \<exists>e. map_of ds p = Some e \<and> e \<le> m"
        "extends_to inc (depths, insert n visited) (up_to inc (set ?ps)) (ds, vs)"
        using 2(1) [OF None fresh refl refl _ m 2(3)] False 2(4) by simp_all
      have "extends_to inc (depths, visited) (up_to inc {n}) (AList.update n (m + 1) ds, vs)"
        by (rule extends_store [OF ih(2) [folded pars] _ None])
          (use ac 2(3) ih(1) in \<open>auto simp: par_def less_Suc_eq_le\<close>)
      then show ?thesis by (simp add: st' update_conv')
    qed
  qed
next
  case (4 k inc st acc p ps)
  from 4(3) obtain e st1 where p: "getDepth k inc st p = Some (e, st1)"
    and rest: "max_depth k inc st1 (max acc e) ps = Some (d, st')"
    by (auto split: option.splits)
  have one: "map_of (fst st1) p = Some e" "extends_to inc st (up_to inc {p}) st1"
    using 4(1) [OF p 4(4,5)] 4(6) by auto
  have "good_depths inc (fst st1)" using one(2) by (simp add: extends_to_def)
  moreover have "\<forall>q \<in> set ps. pending_below inc st1 q"
    using 4(6) pending_extends [OF _ one(2)] by simp
  ultimately have two: "max acc e \<le> d" "\<forall>q \<in> set ps. \<exists>e. map_of (fst st') q = Some e \<and> e \<le> d"
    "extends_to inc st1 (up_to inc (set ps)) st'"
    using 4(2) [OF p refl rest 4(4)] by auto
  show ?case using two depths_joined [OF one two(3)] by auto
qed (auto intro: extends_refl)

lemma node_depths_good:
  assumes "acyclic (par inc)"
  shows "node_depths k inc ids = Some ds \<Longrightarrow> good_depths inc ds \<and> (\<forall>n \<in> set ids. map_of ds n \<noteq> None)"
proof (induction ids arbitrary: ds rule: rev_induct)
  case Nil
  then show ?case by (simp add: node_depths_def good_depths_def)
next
  case (snoc n ids)
  then obtain ds0 d vs where ds0: "node_depths k inc ids = Some ds0"
    and g: "getDepth k inc (ds0, {}) n = Some (d, (ds, vs))"
    by (auto simp: node_depths_def Option.bind_eq_Some_conv)
  from snoc.IH [OF ds0] have old: "good_depths inc ds0" "\<forall>n \<in> set ids. map_of ds0 n \<noteq> None" by auto
  have "map_of ds n = Some d" "extends_to inc (ds0, {}) (up_to inc {n}) (ds, vs)"
    using depth_correct(1) [OF assms g refl] old(1) by (auto simp: pending_below_def)
  with old(2) show ?case by (auto simp: extends_to_def map_le_def dom_def)
qed

text \<open>The layers partition the ids by depth, each in plan order.\<close>

definition depth_in :: "(string \<times> nat) list \<Rightarrow> string \<Rightarrow> nat" where
  "depth_in ds n = nullish (map_of ds n) 0"

lemma layers_fold:
  defines "layer ds ids d \<equiv> filter (\<lambda>n. depth_in ds n = d) ids"
  shows "distinct (map fst (foldl (add_to_layer ds) [] ids)) \<and>
    map_of (foldl (add_to_layer ds) [] ids) =
      (\<lambda>d. if layer ds ids d = [] then None else Some (layer ds ids d))"
proof (induction ids rule: rev_induct)
  case (snoc n ids)
  then show ?case
    by (auto simp: add_to_layer_def Let_def layer_def update_conv' distinct_update
        fun_eq_iff depth_in_def)
qed (simp add: layer_def)

lemma layer_keys: "map fst (layer_positions l) = snd l"
  by (simp add: layer_positions_def comp_def map_nth)

lemma positions_eq:
  fixes ds :: "(string \<times> nat) list"
  assumes "distinct ids"
  defines "layers \<equiv> foldl (add_to_layer ds) [] ids"
  shows "distinct (map fst (concat (map layer_positions layers)))"
    and "foldl (\<lambda>ps (n, pos). AList.update n pos ps) [] (concat (map layer_positions layers)) =
      concat (map layer_positions layers)"
proof -
  have keys: "distinct (map fst layers)"
    and lookup: "map_of layers d = (if filter (\<lambda>n. depth_in ds n = d) ids = [] then None
        else Some (filter (\<lambda>n. depth_in ds n = d) ids))" for d
    using layers_fold [of ds ids] by (simp_all add: layers_def)
  have mem: "l = filter (\<lambda>n. depth_in ds n = d) ids \<and> l \<noteq> []" if "(d, l) \<in> set layers" for d l
    using map_of_is_SomeI [OF keys that] lookup [of d] by (auto split: if_splits)
  have inj: "d = d'" if "(d, l) \<in> set layers" "(d', l) \<in> set layers" for d d' l
    using mem [OF that(1)] mem [OF that(2)] by (metis (mono_tags, lifting) filter_True filter_empty_conv mem_Collect_eq set_filter)
  have "distinct layers" using keys by (simp add: distinct_map)
  then have "distinct (map snd layers)"
    unfolding distinct_map using inj by (auto simp: inj_on_def)
  moreover have "distinct l" if "(d, l) \<in> set layers" for d l
    using mem [OF that] assms(1) by simp
  moreover have "set l \<inter> set l' = {}" if "(d, l) \<in> set layers" "(d', l') \<in> set layers" "l \<noteq> l'" for d d' l l'
    using mem [OF that(1)] mem [OF that(2)] that(3) by auto
  ultimately have "distinct (concat (map snd layers))"
    by (intro distinct_concat) (auto simp del: disjoint_iff, blast)
  then show d: "distinct (map fst (concat (map layer_positions layers)))"
    by (simp add: map_concat comp_def layer_keys)
  show "foldl (\<lambda>ps (n, pos). AList.update n pos ps) [] (concat (map layer_positions layers)) =
      concat (map layer_positions layers)"
    using fold_update_fresh [of "[]" "concat (map layer_positions layers)" "\<lambda>p. p"] d by simp
qed

text \<open>Where a node is put: its column in its layer, and its depth.\<close>

definition column :: "string list \<Rightarrow> nat \<Rightarrow> int" where
  "column l i = 340 * int i - 170 * (int (length l) - 1)"

lemma layout_at:
  assumes "distinct (map pn_id nodes)" and "layoutPlanNodes nodes es = Some ps"
    and "node_depths (length nodes + length es + 1) (incoming_map nodes es) (map pn_id nodes) = Some ds"
    and "n \<in> pn_id ` set nodes"
  defines "l \<equiv> filter (\<lambda>m. depth_in ds m = depth_in ds n) (map pn_id nodes)"
  shows "\<exists>i < length l. l ! i = n \<and> map_of ps n = Some (column l i, 180 * int (depth_in ds n))"
proof -
  let ?layers = "foldl (add_to_layer ds) [] (map pn_id nodes)"
  have ps: "ps = concat (map layer_positions ?layers)"
    using assms(2,3) positions_eq(2) [OF assms(1)] by (simp add: layoutPlanNodes_def Let_def)
  have n: "n \<in> set l" using assms(4) by (auto simp: l_def)
  then obtain i where i: "i < length l" "l ! i = n" by (metis in_set_conv_nth)
  have "l \<noteq> []" using n by auto
  moreover have "map_of ?layers (depth_in ds n) = (if l = [] then None else Some l)"
    using layers_fold [of ds "map pn_id nodes"] unfolding l_def by (simp only:)
  ultimately have "map_of ?layers (depth_in ds n) = Some l" by simp
  then have "(depth_in ds n, l) \<in> set ?layers" by (rule map_of_SomeD)
  moreover have "(n, (column l i, 180 * int (depth_in ds n))) \<in> set (layer_positions (depth_in ds n, l))"
    using i by (auto simp: layer_positions_def column_def)
  ultimately have "(n, (column l i, 180 * int (depth_in ds n))) \<in> set ps" by (auto simp: ps)
  with positions_eq(1) [OF assms(1), of ds] i show ?thesis by (auto simp: ps intro!: map_of_is_SomeI)
qed

definition plan_pairs :: "plan_edge list \<Rightarrow> (string \<times> string) list" where
  "plan_pairs es = map (\<lambda>e. (pe_source e, pe_target e)) es"

lemma par_incoming: "par (incoming_map nodes es) \<subseteq> set (plan_pairs es)"
  by (auto simp: par_def map_of_incoming parents_of_def plan_pairs_def split: if_splits)

lemma column_inj: "column l i = column l j \<Longrightarrow> i = j"
  by (simp add: column_def)

text \<open>The kind a converted node gets, and the conversion of all nodes.\<close>

lemma convert_node_Inr:
  "(\<exists>y. convert_node ps n = Inr y) \<longleftrightarrow> pn_type n \<in> fst ` set nodeRegistry"
proof -
  have "(\<exists>d. js_lookup nodeRegistry (pn_type n) = Own d) \<longleftrightarrow> pn_type n \<in> fst ` set nodeRegistry"
    by (metis js_lookup_Own_iff map_of_eq_None_iff not_Some_eq)
  then show ?thesis by (auto simp: convert_node_def split: lookup.splits)
qed

lemma convert_node_fields:
  assumes "convert_node ps n = Inr y"
  shows "sn_id y = pn_id n \<and> sn_position y = nullish (map_of ps (pn_id n)) (0, 0) \<and>
    sd_type (sn_data y) = pn_type n \<and> (sd_kind (sn_data y) = Trigger \<longleftrightarrow> pn_type n = ''start'')"
  using assms registry_entry [of "pn_type n"]
  by (auto simp: convert_node_def js_lookup_Own_iff split: lookup.splits)

lemma map_res_Inr: "map_res f xs = Inr ys \<longleftrightarrow> list_all2 (\<lambda>x y. f x = Inr y) xs ys"
  by (induction xs arbitrary: ys) (auto simp: list_all2_Cons1)

lemma map_res_returns: "(\<exists>ys. map_res f xs = Inr ys) \<longleftrightarrow> list_all (\<lambda>x. \<exists>y. f x = Inr y) xs"
  by (induction xs) auto

lemma list_all2_map_eq: "list_all2 (\<lambda>x y. f x = g y) xs ys \<Longrightarrow> map f xs = map g ys"
  by (induction rule: list_all2_induct) auto

lemma list_all2_count:
  "list_all2 (\<lambda>x y. p x = q y) xs ys \<Longrightarrow> count_if p xs = count_if q ys"
  by (induction rule: list_all2_induct) auto

lemma converted_nodes:
  assumes "map_res (convert_node ps) ns = Inr ys"
  shows "map sn_id ys = map pn_id ns"
    and "count_if (\<lambda>y. sd_kind (sn_data y) = Trigger) ys = count_if (\<lambda>n. pn_type n = ''start'') ns"
proof -
  from assms have all: "list_all2 (\<lambda>x y. convert_node ps x = Inr y) ns ys" by (simp add: map_res_Inr)
  show "map sn_id ys = map pn_id ns"
    by (rule list_all2_map_eq [symmetric], rule list_all2_mono [OF all]) (simp add: convert_node_fields)
  show "count_if (\<lambda>y. sd_kind (sn_data y) = Trigger) ys = count_if (\<lambda>n. pn_type n = ''start'') ns"
    by (rule list_all2_count [symmetric], rule list_all2_mono [OF all]) (simp add: convert_node_fields)
qed

lemma converted_edges: "edge_pairs (map convert_edge es) = plan_pairs es"
  by (simp add: edge_pairs_def plan_pairs_def convert_edge_def)

section \<open>Properties\<close>

text \<open>
   The layout of a well-formed plan is readable: it terminates, places every node, no two
  nodes at the same point, and every edge leads at least one layer (180 pixels) down.
\<close>

theorem layout_flows_down:
  assumes "distinct (map pn_id nodes)" and "acyclic (set (plan_pairs es))"
    and "\<forall>e \<in> set es. pe_source e \<in> pn_id ` set nodes \<and> pe_target e \<in> pn_id ` set nodes"
  shows "\<exists>ps. layoutPlanNodes nodes es = Some ps \<and>
    (\<forall>n \<in> pn_id ` set nodes. map_of ps n \<noteq> None) \<and>
    (\<forall>m \<in> pn_id ` set nodes. \<forall>n \<in> pn_id ` set nodes. map_of ps m = map_of ps n \<longrightarrow> m = n) \<and>
    (\<forall>e \<in> set es. snd (the (map_of ps (pe_source e))) + 180 \<le> snd (the (map_of ps (pe_target e))))"
proof -
  let ?inc = "incoming_map nodes es" and ?k = "length nodes + length es + 1"
  have ac: "acyclic (par ?inc)" using par_incoming assms(2) by (rule acyclic_subset [rotated])
  obtain ds where ds: "node_depths ?k ?inc (map pn_id nodes) = Some ds"
    using node_depths_Some [of "map pn_id nodes" nodes es] by auto
  obtain ps where ps: "layoutPlanNodes nodes es = Some ps" using layout_total by blast
  note good = node_depths_good [OF ac ds]
  note at = layout_at [OF assms(1) ps ds]
  have up: "snd (the (map_of ps (pe_source e))) + 180 \<le> snd (the (map_of ps (pe_target e)))"
    if e: "e \<in> set es" for e
  proof -
    have "pe_target e \<in> set (map pn_id nodes)" using assms(3) e by auto
    then obtain d where d: "map_of ds (pe_target e) = Some d" using good by blast
    have "(pe_source e, pe_target e) \<in> par ?inc"
      using assms(3) e by (auto simp: par_def map_of_incoming parents_of_def)
    with good d obtain d' where "map_of ds (pe_source e) = Some d'" "d' < d"
      unfolding good_depths_def by blast
    then have "depth_in ds (pe_source e) < depth_in ds (pe_target e)" using d by (simp add: depth_in_def)
    with at [of "pe_source e"] at [of "pe_target e"] assms(3) e show ?thesis by fastforce
  qed
  have inj: "m = n" if "m \<in> pn_id ` set nodes" "n \<in> pn_id ` set nodes" "map_of ps m = map_of ps n" for m n
  proof -
    from at [OF that(1)] at [OF that(2)] that(3) have same: "depth_in ds m = depth_in ds n" by auto
    let ?l = "filter (\<lambda>x. depth_in ds x = depth_in ds m) (map pn_id nodes)"
    from at [OF that(1)] obtain i where
      i: "?l ! i = m" "map_of ps m = Some (column ?l i, 180 * int (depth_in ds m))" by blast
    from at [OF that(2), folded same] obtain j where
      j: "?l ! j = n" "map_of ps n = Some (column ?l j, 180 * int (depth_in ds m))" by blast
    from i(2) j(2) that(3) have "column ?l i = column ?l j" by simp
    with column_inj have "i = j" by blast
    with i(1) j(1) show ?thesis by simp
  qed
  have "map_of ps n \<noteq> None" if "n \<in> pn_id ` set nodes" for n using at [OF that] by auto
  with ps up inj show ?thesis by blast
qed

text \<open>
   C32. Conversion is total and exact: a plan becomes a graph precisely when it is buildable, all
  its types are registered, it has exactly one start node, at least one edge and no cycle.  The
  graph then has the plan's ids and connections, and is runnable.
\<close>

theorem convert_exact:
  assumes "toposort_lib toposort"
  shows "\<exists>r. convertWorkflowPlanToGraph toposort plan = Some r \<and>
    ((\<exists>g. r = Inr g) \<longleftrightarrow>
       wp_canBuild plan \<and> pn_type ` set (wp_nodes plan) \<subseteq> fst ` set nodeRegistry \<and>
       count_if (\<lambda>n. pn_type n = ''start'') (wp_nodes plan) = 1 \<and> wp_edges plan \<noteq> [] \<and>
       acyclic (set (plan_pairs (wp_edges plan)))) \<and>
    (\<forall>g. r = Inr g \<longrightarrow> runnable g \<and> map sn_id (wg_nodes g) = map pn_id (wp_nodes plan) \<and>
       edge_pairs (wg_edges g) = plan_pairs (wp_edges plan))"
proof (cases "wp_canBuild plan \<and> wp_nodes plan \<noteq> []")
  case False
  then show ?thesis by (auto simp: convertWorkflowPlanToGraph_def)
next
  case True
  obtain ps where ps: "layoutPlanNodes (wp_nodes plan) (wp_edges plan) = Some ps" using layout_total by blast
  let ?types = "pn_type ` set (wp_nodes plan) \<subseteq> fst ` set nodeRegistry"
  have types: "(\<exists>ys. map_res (convert_node ps) (wp_nodes plan) = Inr ys) \<longleftrightarrow> ?types"
    unfolding map_res_returns convert_node_Inr by (auto simp: list_all_iff)
  have runs: "validateGraph toposort g = [] \<longleftrightarrow> runnable g" for g
    using toposort_lib.throws_on_cycle [OF assms, of "edge_pairs (wg_edges g)"] runnable_eq [of g]
    by (auto simp: validateGraph_def Let_def split: option.splits)
  show ?thesis
  proof (cases "map_res (convert_node ps) (wp_nodes plan)")
    case (Inl e)
    with True ps types show ?thesis by (auto simp: convertWorkflowPlanToGraph_def)
  next
    case (Inr ys)
    let ?g = "\<lparr>wg_nodes = ys, wg_edges = map convert_edge (wp_edges plan)\<rparr>"
    have "runnable ?g \<longleftrightarrow> count_if (\<lambda>n. pn_type n = ''start'') (wp_nodes plan) = 1 \<and>
        wp_edges plan \<noteq> [] \<and> acyclic (set (plan_pairs (wp_edges plan)))"
      by (simp add: runnable_eq converted_nodes(2) [OF Inr] converted_edges)
    with True ps types Inr runs [of ?g] converted_nodes(1) [OF Inr] show ?thesis
      by (auto simp: convertWorkflowPlanToGraph_def Let_def converted_edges)
  qed
qed

definition sample_plan :: workflow_plan where
  "sample_plan =
     \<lparr>wp_version = ''1.0'', wp_name = ''demo'', wp_canBuild = True, wp_unsupportedReason = None,
      wp_nodes = [\<lparr>pn_id = ''s'', pn_type = ''start'', pn_title = ''Start'', pn_values = []\<rparr>,
        \<lparr>pn_id = ''u'', pn_type = ''open-url'', pn_title = ''Open'',
         pn_values = [(''url'', ''https://example.org''), (''other'', ''x'')]\<rparr>],
      wp_edges = [\<lparr>pe_id = ''e1'', pe_source = ''s'', pe_target = ''u''\<rparr>]\<rparr>"

lemma sample_plan_acyclic: "acyclic (set (plan_pairs (wp_edges sample_plan)))"
  using kahn.throws_on_cycle [of "plan_pairs (wp_edges sample_plan)"]
  by (simp add: sample_plan_def plan_pairs_def kahn_sort_def is_source_def)

theorem layout_flows_down_witness:
  "\<exists>ps. layoutPlanNodes (wp_nodes sample_plan) (wp_edges sample_plan) = Some ps \<and>
     snd (the (map_of ps ''s'')) + 180 \<le> snd (the (map_of ps ''u''))"
  using layout_flows_down [of "wp_nodes sample_plan" "wp_edges sample_plan", OF _ sample_plan_acyclic]
  by (auto simp: sample_plan_def)

theorem convert_exact_witness:
  "\<exists>g. convertWorkflowPlanToGraph kahn_sort sample_plan = Some (Inr g) \<and> runnable g"
proof -
  have "pn_type ` set (wp_nodes sample_plan) \<subseteq> fst ` set nodeRegistry"
    by (simp add: sample_plan_def nodeRegistry_def)
  moreover have "wp_canBuild sample_plan" "wp_edges sample_plan \<noteq> []"
    "count_if (\<lambda>n. pn_type n = ''start'') (wp_nodes sample_plan) = 1"
    by (simp_all add: sample_plan_def)
  ultimately show ?thesis
    using convert_exact [OF kahn.toposort_lib_axioms, of sample_plan] sample_plan_acyclic by auto
qed

end
