(* ===== verification/Planner.thy ===== *)
theory Planner
  imports ConvertPlan
begin

text \<open>
  The AI planner of \<open>features/workflows/lib/planner-service.ts\<close>: the provider call and its
  classification, the retry loop with backoff, the removal of Markdown fences, and the semantic
  checks on the plan.  The provider's replies are inputs; \<open>JSON.parse\<close> followed by the zod schema
  is the parameter \<open>parse_plan\<close>, whose contract \<open>plan_schema\<close> restates
  \<open>features/workflows/lib/planner-types.ts\<close>.
\<close>

section \<open>The schema\<close>

definition plan_schema :: "workflow_plan \<Rightarrow> bool" where
  "plan_schema p \<longleftrightarrow>
     wp_name p \<noteq> [] \<and>
     list_all (\<lambda>n. pn_id n \<noteq> [] \<and> pn_type n \<noteq> [] \<and> pn_title n \<noteq> []) (wp_nodes p) \<and>
     list_all (\<lambda>e. pe_id e \<noteq> [] \<and> pe_source e \<noteq> [] \<and> pe_target e \<noteq> []) (wp_edges p)"

text \<open>\<open>None\<close>: not JSON; \<open>Inl\<close>: JSON that fails the schema, with zod's message.\<close>

type_synonym plan_parser = "string \<Rightarrow> (string + workflow_plan) option"

definition schema_parser :: "plan_parser \<Rightarrow> bool" where
  "schema_parser parse_plan \<longleftrightarrow> (\<forall>s p. parse_plan s = Some (Inr p) \<longrightarrow> plan_schema p)"

section \<open>One provider call\<close>

text \<open>
  What \<open>fetch\<close> does: it throws (with the error's message), answers with an error status (status,
  status text, body text), or answers well with the content of the first choice, if any; reading
  the body of a good answer may throw.
\<close>

datatype reply =
    NetworkError string
  | HttpError nat string string
  | Content "string option"
  | BodyThrows string

datatype attempt_result = GotContent string | Failed bool string | Thrown string

definition RETRYABLE_STATUSES :: "nat set" where
  "RETRYABLE_STATUSES = {408, 429, 500, 502, 503, 504}"

definition MAX_ATTEMPTS :: nat where "MAX_ATTEMPTS = 5"
definition MAX_BACKOFF_MS :: nat where "MAX_BACKOFF_MS = 8000"

fun callProviderOnce :: "reply \<Rightarrow> attempt_result" where
  "callProviderOnce (NetworkError m) = Failed True (''AI Provider communication error: '' @ m)"
| "callProviderOnce (HttpError status statusText body) =
     (if status = 401 then Failed False
        ''AI Provider authentication failed (401 Unauthorized). Please verify TOKENROUTER_API_KEY.''
      else if status = 429 then Failed True
        ''AI Provider rate limit exceeded (429 Too Many Requests). Please try again in a moment.''
      else Failed (status \<in> RETRYABLE_STATUSES)
        (''AI Provider request failed with status '' @ nat_text status @ '': ''
           @ (if body = [] then statusText else body)))"
| "callProviderOnce (Content c) =
     (if truthy c then GotContent (the c)
      else Failed True (''AI Provider returned an empty response content. '' @
             ''Please try again or check the model configuration.''))"
| "callProviderOnce (BodyThrows m) = Thrown m"

section \<open>The retry loop\<close>

text \<open>
  The replies are indexed by attempt.  The loop returns the waits it made and either the error it
  threw or the text it got; leaving the loop without content leaves the text empty.
\<close>

function retry_from :: "(nat \<Rightarrow> reply) \<Rightarrow> nat \<Rightarrow> nat list \<times> (string + string)" where
  "retry_from replies attempt =
     (if attempt > MAX_ATTEMPTS then ([], Inr [])
      else case callProviderOnce (replies attempt) of
        GotContent c \<Rightarrow> ([], Inr c)
      | Thrown m \<Rightarrow> ([], Inl m)
      | Failed retryable m \<Rightarrow>
          if \<not> retryable \<or> attempt = MAX_ATTEMPTS then ([], Inl m)
          else (let (waits, r) = retry_from replies (attempt + 1)
                in (min (1000 * 2 ^ (attempt - 1)) MAX_BACKOFF_MS # waits, r)))"
  by pat_completeness auto

termination by (relation "measure (\<lambda>(_, attempt). Suc MAX_ATTEMPTS - attempt)") auto

declare retry_from.simps [simp del]

section \<open>Fences\<close>

definition fence :: string where
  "fence = [CHR 0x60, CHR 0x60, CHR 0x60]"

definition strip_fences :: "string \<Rightarrow> string" where
  "strip_fences s =
     (let s1 = (if to_lower (take 7 s) = fence @ ''json'' then dropWhile js_space (drop 7 s) else s);
          s2 = (if starts_with s1 fence then dropWhile js_space (drop 3 s1) else s1);
          s3 = (if ends_with s2 fence then rstrip (take (length s2 - 3) s2) else s2)
      in trim s3)"

section \<open>The checks on the plan\<close>

definition quoted :: "string \<Rightarrow> string" where
  "quoted s = CHR 0x22 # s @ [CHR 0x22]"

fun check_types :: "plan_node list \<Rightarrow> string option" where
  "check_types [] = None"
| "check_types (n # ns) =
     (if js_lookup getPlannerNodeCatalog (pn_type n) = Missing
      then Some (''Generated plan referenced unknown node type '' @ quoted (pn_type n)
                 @ ''. Only catalog nodes are allowed.'')
      else check_types ns)"

fun check_edges :: "string set \<Rightarrow> plan_edge list \<Rightarrow> string option" where
  "check_edges ids [] = None"
| "check_edges ids (e # es) =
     (if pe_source e \<notin> ids then Some (''Generated edge references non-existent source node ID ''
                                         @ quoted (pe_source e) @ ''.'')
      else if pe_target e \<notin> ids then Some (''Generated edge references non-existent target node ID ''
                                         @ quoted (pe_target e) @ ''.'')
      else check_edges ids es)"

definition validate_plan :: "topo \<Rightarrow> workflow_plan \<Rightarrow> string + workflow_plan" where
  "validate_plan toposort plan =
     (if \<not> wp_canBuild plan then Inr
        \<lparr>wp_version = (if wp_version plan = [] then ''1.0'' else wp_version plan),
         wp_name = (if wp_name plan = [] then ''Unsupported Workflow'' else wp_name plan),
         wp_canBuild = False,
         wp_unsupportedReason = Some (or_default (wp_unsupportedReason plan)
           (''The requested automation cannot be built with the '' @
            ''currently available workflow nodes.'')),
         wp_nodes = [], wp_edges = []\<rparr>
      else
        let ids = map pn_id (wp_nodes plan);
            starts = count_if (\<lambda>n. pn_type n = ''start'') (wp_nodes plan)
        in if length (remdups ids) \<noteq> length (wp_nodes plan)
           then Inl ''Generated workflow plan contains duplicate node IDs.''
        else if starts \<noteq> 1
           then Inl (''Generated workflow plan must have exactly 1 Start trigger (found ''
                     @ nat_text starts @ '').'')
        else case check_types (wp_nodes plan) of Some m \<Rightarrow> Inl m | None \<Rightarrow>
           (case check_edges (set ids) (wp_edges plan) of Some m \<Rightarrow> Inl m | None \<Rightarrow>
              if length (wp_nodes plan) > 1 \<and> length (wp_edges plan) = 0
              then Inl ''Generated workflow has multiple nodes but no connecting edges.''
              else if length (wp_edges plan) > 0 \<and> toposort (plan_pairs (wp_edges plan)) = None
              then Inl ''Generated workflow plan contains a cycle (loop), which is not allowed.''
              else Inr plan))"

text \<open>The whole service; \<open>apiKey\<close> is the configured key.\<close>

definition generateWorkflowPlan ::
    "topo \<Rightarrow> plan_parser \<Rightarrow> string option \<Rightarrow> (nat \<Rightarrow> reply) \<Rightarrow> string + workflow_plan" where
  "generateWorkflowPlan toposort parse_plan apiKey replies =
     (if \<not> truthy apiKey
      then Inl ''TOKENROUTER_API_KEY is not configured in the server environment (.env.local).''
      else bind_res (snd (retry_from replies 1)) (\<lambda>raw.
        if raw = [] then Inl ''AI Provider returned no content.''
        else case parse_plan (strip_fences raw) of
          None \<Rightarrow> Inl ''AI Provider returned malformed JSON output that could not be parsed.''
        | Some (Inl m) \<Rightarrow>
            Inl (''AI Provider response does not match the required WorkflowPlan schema: '' @ m)
        | Some (Inr plan) \<Rightarrow> validate_plan toposort plan))"

text \<open>The requests' address and model: trailing slashes go, empty settings fall back.\<close>

definition provider_url :: "string option \<Rightarrow> string" where
  "provider_url base =
     rev (dropWhile (\<lambda>c. c = CHR ''/'') (rev (or_default base ''https://api.tokenrouter.com/v1'')))
       @ ''/chat/completions''"

definition planner_model :: "string option \<Rightarrow> string" where
  "planner_model m = or_default m ''deepseek/deepseek-v4-pro-0813-free''"

section \<open>Lemmas\<close>

lemma check_types_None:
  "check_types ns = None \<longleftrightarrow>
     pn_type ` set ns \<subseteq> fst ` set nodeRegistry \<union> set object_proto_names"
proof -
  have "js_lookup getPlannerNodeCatalog k = Missing \<longleftrightarrow>
      k \<notin> fst ` set nodeRegistry \<union> set object_proto_names" for k
    by (simp add: js_lookup_catalog js_lookup_Missing_iff split: lookup.splits)
      (metis js_lookup_Missing_iff lookup.distinct(1,3) Un_iff)
  then show ?thesis by (induction ns) auto
qed

lemma check_edges_None:
  "check_edges ids es = None \<longleftrightarrow> (\<forall>e \<in> set es. pe_source e \<in> ids \<and> pe_target e \<in> ids)"
  by (induction es) auto

lemma distinct_remdups_length: "length (remdups xs) = length xs \<longleftrightarrow> distinct xs"
  by (metis distinct_remdups remdups_id_iff_distinct length_remdups_eq)

fun retryable :: "attempt_result \<Rightarrow> bool" where
  "retryable (Failed r m) = r"
| "retryable _ = False"

fun outcome :: "attempt_result \<Rightarrow> string + string" where
  "outcome (GotContent c) = Inr c"
| "outcome (Failed r m) = Inl m"
| "outcome (Thrown m) = Inl m"

definition backoffs :: "nat list" where
  "backoffs = [1000, 2000, 4000, 8000]"

lemma retry_step:
  assumes "attempt \<le> 5"
  shows "retry_from replies attempt =
    (let a = callProviderOnce (replies attempt) in
     if retryable a \<and> attempt < 5
     then (min (1000 * 2 ^ (attempt - 1)) 8000 # fst (retry_from replies (attempt + 1)),
           snd (retry_from replies (attempt + 1)))
     else ([], outcome a))"
  using assms
  by (subst retry_from.simps)
    (auto simp: MAX_ATTEMPTS_def MAX_BACKOFF_MS_def Let_def split: attempt_result.splits prod.splits)

lemma retry_from_spec:
  assumes "1 \<le> a" and "a \<le> 5"
  shows "\<exists>k. a \<le> k \<and> k \<le> 5 \<and> (\<forall>i. a \<le> i \<and> i < k \<longrightarrow> retryable (callProviderOnce (replies i))) \<and>
    (k = 5 \<or> \<not> retryable (callProviderOnce (replies k))) \<and>
    retry_from replies a = (drop (a - 1) (take (k - 1) backoffs), outcome (callProviderOnce (replies k)))"
  using assms
proof (induction "5 - a" arbitrary: a)
  case 0
  then have "a = 5" by simp
  then show ?case using retry_step [of 5 replies]
    by (intro exI [of _ 5]) (auto simp: Let_def backoffs_def)
next
  case (Suc j)
  show ?case
  proof (cases "retryable (callProviderOnce (replies a))")
    case False
    with Suc.prems show ?thesis using retry_step [of a replies]
      by (intro exI [of _ a]) (auto simp: Let_def)
  next
    case True
    have a: "a < 5" using Suc.hyps(2) by simp
    obtain k where k: "Suc a \<le> k" "k \<le> 5"
      "\<forall>i. Suc a \<le> i \<and> i < k \<longrightarrow> retryable (callProviderOnce (replies i))"
      "k = 5 \<or> \<not> retryable (callProviderOnce (replies k))"
      "retry_from replies (Suc a) =
         (drop (Suc a - 1) (take (k - 1) backoffs), outcome (callProviderOnce (replies k)))"
    proof -
      have "j = 5 - Suc a" "1 \<le> Suc a" "Suc a \<le> 5" using Suc.hyps(2) a by simp_all
      from Suc.hyps(1) [OF this] show thesis using that by blast
    qed
    have "drop (a - 1) (take (k - 1) backoffs) =
        min (1000 * 2 ^ (a - 1)) 8000 # drop (Suc a - 1) (take (k - 1) backoffs)"
    proof -
      have "a \<in> {1, 2, 3, 4}" "k \<in> {2, 3, 4, 5}" using a Suc.prems k(1,2) by auto
      with k(1) show ?thesis by (auto simp: backoffs_def)
    qed
    moreover have "\<forall>i. a \<le> i \<and> i < k \<longrightarrow> retryable (callProviderOnce (replies i))"
      using k(3) True by (metis Suc_leI le_neq_implies_less)
    ultimately show ?thesis
      using retry_step [of a replies] True a k by (intro exI [of _ k]) (simp add: Let_def)
  qed
qed

lemma validate_plan_Inr:
  assumes "toposort_lib toposort" and "validate_plan toposort plan = Inr p" and "wp_canBuild plan"
  shows "p = plan \<and> distinct (map pn_id (wp_nodes p)) \<and>
    count_if (\<lambda>n. pn_type n = ''start'') (wp_nodes p) = 1 \<and>
    pn_type ` set (wp_nodes p) \<subseteq> fst ` set nodeRegistry \<union> set object_proto_names \<and>
    (\<forall>e \<in> set (wp_edges p). pe_source e \<in> pn_id ` set (wp_nodes p) \<and>
                              pe_target e \<in> pn_id ` set (wp_nodes p)) \<and>
    (length (wp_nodes p) > 1 \<longrightarrow> wp_edges p \<noteq> []) \<and>
    acyclic (set (plan_pairs (wp_edges p)))"
proof -
  have "acyclic (set (plan_pairs []))" by (simp add: plan_pairs_def acyclic_def)
  moreover have "length (remdups (map pn_id (wp_nodes plan))) = length (wp_nodes plan) \<longleftrightarrow>
      distinct (map pn_id (wp_nodes plan))"
    using distinct_remdups_length [of "map pn_id (wp_nodes plan)"] by simp
  ultimately show ?thesis
    using assms(2,3) toposort_lib.throws_on_cycle [OF assms(1), of "plan_pairs (wp_edges plan)"]
    by (auto simp: validate_plan_def Let_def check_types_None check_edges_None
        split: if_splits option.splits)
qed

lemma generate_Inr:
  assumes "generateWorkflowPlan toposort parse_plan key replies = Inr p"
  shows "\<exists>s plan. parse_plan s = Some (Inr plan) \<and> validate_plan toposort plan = Inr p"
  using assms
  by (auto simp: generateWorkflowPlan_def split: if_splits option.splits sum.splits)

section \<open>Properties\<close>

text \<open>
   The retry policy, exactly: the planner stops at the first attempt (of at most five) whose
  outcome is not a transient failure, or at the fifth; it waits 1, 2, 4 and 8 seconds before the
  second to fifth attempts it makes; and its result is the outcome of that last attempt.
\<close>

theorem planner_retry_policy:
  "\<exists>k. 1 \<le> k \<and> k \<le> 5 \<and> (\<forall>i. 1 \<le> i \<and> i < k \<longrightarrow> retryable (callProviderOnce (replies i))) \<and>
     (k = 5 \<or> \<not> retryable (callProviderOnce (replies k))) \<and>
     retry_from replies 1 = (take (k - 1) backoffs, outcome (callProviderOnce (replies k)))"
  using retry_from_spec [of 1 replies] by simp

theorem planner_retry_policy_witness:
  "\<exists>k. retry_from (\<lambda>i. if i < 3 then NetworkError ''reset'' else Content (Some ''{}'')) 1 =
         (take (k - 1) backoffs,
          outcome (callProviderOnce (if k < 3 then NetworkError ''reset'' else Content (Some ''{}'')))) \<and>
       1 \<le> k \<and> k \<le> 5"
  using planner_retry_policy [of "\<lambda>i. if i < 3 then NetworkError ''reset'' else Content (Some ''{}'')"]
  by blast

text \<open>
   C33. What the planner returns is well formed.  Either the goal cannot be built, and then the
  plan is empty and carries a reason; or the plan has distinct node ids, exactly one start node,
  edges between its own nodes, at least one edge when it has several nodes, and no cycle.
\<close>

theorem planner_result_wellformed:
  assumes "toposort_lib toposort" and "schema_parser parse_plan"
    and "generateWorkflowPlan toposort parse_plan key replies = Inr p"
  shows "wp_name p \<noteq> [] \<and>
    (\<not> wp_canBuild p \<and> wp_nodes p = [] \<and> wp_edges p = [] \<and> truthy (wp_unsupportedReason p) \<or>
     wp_canBuild p \<and> plan_schema p \<and> distinct (map pn_id (wp_nodes p)) \<and>
       count_if (\<lambda>n. pn_type n = ''start'') (wp_nodes p) = 1 \<and>
       fst ` set (plan_pairs (wp_edges p)) \<union> snd ` set (plan_pairs (wp_edges p)) \<subseteq>
         pn_id ` set (wp_nodes p) \<and>
       (length (wp_nodes p) \<le> 1 \<or> wp_edges p \<noteq> []) \<and>
       acyclic (set (plan_pairs (wp_edges p))))"
proof -
  obtain s plan where plan: "parse_plan s = Some (Inr plan)" "validate_plan toposort plan = Inr p"
    using generate_Inr [OF assms(3)] by blast
  have schema: "plan_schema plan" using assms(2) plan(1) by (simp add: schema_parser_def)
  show ?thesis
  proof (cases "wp_canBuild plan")
    case True
    with validate_plan_Inr [OF assms(1) plan(2)] schema show ?thesis
      by (auto simp: plan_schema_def plan_pairs_def not_le)
  next
    case False
    with plan(2) schema show ?thesis
      by (cases "wp_unsupportedReason plan")
        (auto simp: validate_plan_def plan_schema_def split: if_splits)
  qed
qed

definition sample_parser :: plan_parser where
  "sample_parser s = (if s = ''{}'' then Some (Inr sample_plan) else None)"

lemma sample_parser_schema: "schema_parser sample_parser"
  by (simp add: schema_parser_def sample_parser_def plan_schema_def sample_plan_def)

lemma sample_generated:
  "generateWorkflowPlan kahn_sort sample_parser (Some ''key'') (\<lambda>i. Content (Some (fence @ ''{}'' @ fence))) =
     Inr sample_plan"
proof -
  have "retry_from (\<lambda>i. Content (Some (fence @ ''{}'' @ fence))) 1 = ([], Inr (fence @ ''{}'' @ fence))"
    by (simp add: retry_from.simps MAX_ATTEMPTS_def)
  moreover have "strip_fences (fence @ ''{}'' @ fence) = ''{}''"
    by (simp add: strip_fences_def fence_def to_lower_def lower_char_def starts_with_def ends_with_def
        rstrip_def trim_def js_space_def)
  moreover have "validate_plan kahn_sort sample_plan = Inr sample_plan"
  proof -
    have "check_types (wp_nodes sample_plan) = None"
      unfolding check_types_None by (simp add: sample_plan_def nodeRegistry_def)
    then show ?thesis
      by (simp add: validate_plan_def sample_plan_def plan_pairs_def kahn_sort_def is_source_def)
  qed
  ultimately show ?thesis
    by (simp add: generateWorkflowPlan_def sample_parser_def fence_def)
qed

theorem planner_result_wellformed_witness:
  "distinct (map pn_id (wp_nodes sample_plan)) \<and>
     acyclic (set (plan_pairs (wp_edges sample_plan)))"
  using planner_result_wellformed [OF kahn.toposort_lib_axioms sample_parser_schema sample_generated]
  by (simp add: sample_plan_def)

text \<open>
   Which planned workflows the canvas accepts.  A plan the planner returns as buildable
  converts to a graph exactly when it has an edge and none of its types is merely the name of a
  property every object inherits: the planner accepts a lone start node, and a type such as
  \<open>constructor\<close>, which the conversion then rejects.
\<close>

theorem planned_convertible:
  assumes "toposort_lib toposort"
    and "generateWorkflowPlan toposort parse_plan key replies = Inr p" and "wp_canBuild p"
  shows "(\<exists>g. convertWorkflowPlanToGraph toposort p = Some (Inr g)) \<longleftrightarrow>
    wp_edges p \<noteq> [] \<and> pn_type ` set (wp_nodes p) \<inter> set object_proto_names = {}"
proof -
  obtain plan where plan: "validate_plan toposort plan = Inr p" using generate_Inr [OF assms(2)] by blast
  have build: "wp_canBuild plan"
    using plan assms(3) by (auto simp: validate_plan_def split: if_splits)
  note ok = validate_plan_Inr [OF assms(1) plan build]
  have "set object_proto_names \<inter> fst ` set nodeRegistry = {}"
    by (simp add: object_proto_names_def nodeRegistry_def)
  then have "pn_type ` set (wp_nodes p) \<subseteq> fst ` set nodeRegistry \<longleftrightarrow>
      pn_type ` set (wp_nodes p) \<inter> set object_proto_names = {}"
    using ok by blast
  with convert_exact [OF assms(1), of p] ok assms(3) show ?thesis by auto
qed

theorem planned_convertible_witness:
  "\<exists>g. convertWorkflowPlanToGraph kahn_sort sample_plan = Some (Inr g)"
  using planned_convertible [OF kahn.toposort_lib_axioms sample_generated]
  by (simp add: sample_plan_def object_proto_names_def)

end
