(* ===== verification/WorkflowData.thy ===== *)
theory WorkflowData
  imports Graph
begin

text \<open>
  The org-scoped data access of \<open>features/workflows/data.ts\<close>: workflows, the live-view handshake
  and run artifacts in the application's own database.  Every function is a transition of the
  database; \<open>now\<close> is the clock that stamps the written rows, \<open>new_id\<close> the generated primary key.
\<close>

section \<open>Workflows\<close>

definition owns_workflow :: "string \<Rightarrow> string \<Rightarrow> workflow_row \<Rightarrow> bool" where
  "owns_workflow orgId i w \<longleftrightarrow> wf_id w = i \<and> wf_orgId w = orgId"

text \<open>The problems joined by spaces are the message of the thrown error.\<close>

definition saveWorkflowGraph ::
    "topo \<Rightarrow> int \<Rightarrow> string \<Rightarrow> string \<Rightarrow> workflow_graph \<Rightarrow> db \<Rightarrow> string + db" where
  "saveWorkflowGraph toposort now orgId i graph d =
     (let problems = validateGraph toposort graph in
      if length problems > 0 then Inl (join '' '' problems)
      else Inr (d\<lparr>db_workflows := map (\<lambda>w. if owns_workflow orgId i w
                    then w\<lparr>wf_graph := Some graph, wf_updatedAt := now\<rparr> else w)
                  (db_workflows d)\<rparr>))"

definition listWorkflows :: "string \<Rightarrow> db \<Rightarrow> workflow_row list" where
  "listWorkflows orgId d =
     sort_key (\<lambda>w. - wf_createdAt w) (filter (\<lambda>w. wf_orgId w = orgId) (db_workflows d))"

definition getWorkflow :: "string \<Rightarrow> string \<Rightarrow> db \<Rightarrow> workflow_row option" where
  "getWorkflow orgId i d = select_one (owns_workflow orgId i) (db_workflows d)"

definition createWorkflow ::
    "string \<Rightarrow> int \<Rightarrow> string \<Rightarrow> string \<Rightarrow> db \<Rightarrow> workflow_row \<times> db" where
  "createWorkflow new_id now orgId name d =
     (let w = \<lparr>wf_id = new_id, wf_orgId = orgId, wf_name = name, wf_graph = None,
               wf_createdAt = now, wf_updatedAt = now\<rparr>
      in (w, d\<lparr>db_workflows := db_workflows d @ [w]\<rparr>))"

text \<open>
  A delete with \<open>RETURNING\<close>.  The foreign keys of versions and runs on the workflow forbid it
  while either still refers to the row.
\<close>

definition workflow_referenced :: "string \<Rightarrow> db \<Rightarrow> bool" where
  "workflow_referenced i d \<longleftrightarrow>
     i \<in> wv_workflowId ` set (db_versions d) \<or> i \<in> wr_workflowId ` set (db_runs d)"

datatype sql_error = UniqueViolation | ForeignKeyViolation | ConnectionError

definition deleteWorkflow ::
    "string \<Rightarrow> string \<Rightarrow> db \<Rightarrow> sql_error + (workflow_row option \<times> db)" where
  "deleteWorkflow orgId i d =
     (case select_one (owns_workflow orgId i) (db_workflows d) of
        None \<Rightarrow> Inr (None, d)
      | Some w \<Rightarrow>
          if workflow_referenced i d then Inl ForeignKeyViolation
          else Inr (Some w, d\<lparr>db_workflows := filter (\<lambda>w. \<not> owns_workflow orgId i w)
                                                (db_workflows d)\<rparr>))"

section \<open>The live-view handshake\<close>

definition insert_handshake :: "int \<Rightarrow> string \<Rightarrow> string option \<Rightarrow> db \<Rightarrow> db" where
  "insert_handshake now sessionId runId d =
     (if sessionId \<in> lv_sessionId ` set (db_liveViews d) then d
      else d\<lparr>db_liveViews := db_liveViews d @
        [\<lparr>lv_sessionId = sessionId, lv_runId = runId, lv_connectedAt = now\<rparr>]\<rparr>)"

definition markLiveViewConnected :: "int \<Rightarrow> string \<Rightarrow> string option \<Rightarrow> db \<Rightarrow> db" where
  "markLiveViewConnected now sessionId runId d = insert_handshake now sessionId runId d"

definition isLiveViewConnected :: "string \<Rightarrow> db \<Rightarrow> bool" where
  "isLiveViewConnected sessionId d \<longleftrightarrow>
     select_one (\<lambda>v. lv_sessionId v = sessionId) (db_liveViews d) \<noteq> None"

definition clearLiveViewConnection :: "string \<Rightarrow> db \<Rightarrow> db" where
  "clearLiveViewConnection sessionId d =
     d\<lparr>db_liveViews := filter (\<lambda>v. lv_sessionId v \<noteq> sessionId) (db_liveViews d)\<rparr>"

section \<open>Run artifacts\<close>

text \<open>On a conflict only the screenshot is set: the row keeps its organization.\<close>

definition saveRunArtifact ::
    "int \<Rightarrow> string \<Rightarrow> string \<Rightarrow> string option \<Rightarrow> db \<Rightarrow> db" where
  "saveRunArtifact now runId orgId shot d =
     (if runId \<in> ra_runId ` set (db_artifacts d)
      then d\<lparr>db_artifacts := map (\<lambda>a. if ra_runId a = runId
                then a\<lparr>ra_screenshotBase64 := shot\<rparr> else a) (db_artifacts d)\<rparr>
      else d\<lparr>db_artifacts := db_artifacts d @
        [\<lparr>ra_runId = runId, ra_orgId = orgId, ra_screenshotBase64 = shot, ra_createdAt = now\<rparr>]\<rparr>)"

definition getRunArtifact :: "string \<Rightarrow> string \<Rightarrow> db \<Rightarrow> run_artifact_row option" where
  "getRunArtifact orgId runId d =
     select_one (\<lambda>a. ra_runId a = runId \<and> ra_orgId a = orgId) (db_artifacts d)"

section \<open>Every operation keeps the keys\<close>

lemma keys_save:
  assumes "db_keys d" and "saveWorkflowGraph toposort now orgId i g d = Inr d'"
  shows "db_keys d'"
proof -
  have "d' = d\<lparr>db_workflows := map (\<lambda>w. if owns_workflow orgId i w
      then w\<lparr>wf_graph := Some g, wf_updatedAt := now\<rparr> else w) (db_workflows d)\<rparr>"
    using assms(2) by (simp add: saveWorkflowGraph_def Let_def split: if_splits)
  then show ?thesis using keys_of(1) [OF assms(1)]
    by (auto intro!: keys_update(1) [OF assms(1)] simp: distinct_key_map simp del: map_map)
qed

lemma keys_create:
  assumes "db_keys d" and "new_id \<notin> wf_id ` set (db_workflows d)"
  shows "db_keys (snd (createWorkflow new_id now orgId name d))"
  using keys_of(1) [OF assms(1)] assms(2)
  by (auto intro!: keys_update(1) [OF assms(1)] simp: createWorkflow_def Let_def)

lemma keys_delete:
  assumes "db_keys d" and "deleteWorkflow orgId i d = Inr (w, d')"
  shows "db_keys d'"
  using keys_of(1) [OF assms(1)] assms
  by (auto intro!: keys_update(1) [OF assms(1)] distinct_key_filter simp: deleteWorkflow_def
      split: option.splits if_splits)

lemma keys_mark:
  assumes "db_keys d"
  shows "db_keys (markLiveViewConnected now s r d)"
  using keys_of(2) [OF assms] assms
  by (auto intro!: keys_update(2) [OF assms] simp: markLiveViewConnected_def insert_handshake_def)

lemma keys_clear: "db_keys d \<Longrightarrow> db_keys (clearLiveViewConnection s d)"
  unfolding clearLiveViewConnection_def
  by (rule keys_update(2)) (simp_all add: distinct_key_filter keys_of)

lemma keys_artifact:
  assumes "db_keys d"
  shows "db_keys (saveRunArtifact now r orgId shot d)"
  using keys_of(3) [OF assms] assms
  by (auto intro!: keys_update(3) [OF assms] simp: saveRunArtifact_def distinct_key_map
      simp del: map_map)

lemma handshake_marked [simp]:
  "isLiveViewConnected s (markLiveViewConnected now s r d)"
  by (auto simp: isLiveViewConnected_def markLiveViewConnected_def insert_handshake_def
      select_one_def find_None_iff)

lemma handshake_cleared [simp]: "\<not> isLiveViewConnected s (clearLiveViewConnection s d)"
  by (simp add: isLiveViewConnected_def clearLiveViewConnection_def)

lemma handshake_other [simp]:
  "t \<noteq> s \<Longrightarrow> isLiveViewConnected t (markLiveViewConnected now s r d) = isLiveViewConnected t d"
  "t \<noteq> s \<Longrightarrow> isLiveViewConnected t (clearLiveViewConnection s d) = isLiveViewConnected t d"
  by (auto simp: isLiveViewConnected_def markLiveViewConnected_def insert_handshake_def
      clearLiveViewConnection_def select_one_def find_None_iff)

end
