(* ===== verification/Versions.thy ===== *)
theory Versions
  imports WorkflowData "HOL-Library.Multiset"
begin

text \<open>
  Immutable workflow versions, \<open>features/workflows/lib/workflow-versions.ts\<close>.  The functions make
  several queries without a transaction, so other writers run in between: \<open>world k d\<close> is what the
  \<open>k\<close>-th query of a call finds when the database was \<open>d\<close> after the previous one (the database
  others left behind, or an error when it cannot be reached).  \<open>ids k\<close> is the primary key the
  database generates for that query.
\<close>

type_synonym world = "nat \<Rightarrow> db \<Rightarrow> store"

section \<open>The canonical hash\<close>

text \<open>\<open>Array.prototype.sort\<close> with a comparator is stable: an insertion sort from the right.\<close>

fun insort_cmp :: "('a \<Rightarrow> 'a \<Rightarrow> int) \<Rightarrow> 'a \<Rightarrow> 'a list \<Rightarrow> 'a list" where
  "insort_cmp cmp x [] = [x]"
| "insort_cmp cmp x (y # ys) = (if cmp x y \<le> 0 then x # y # ys else y # insort_cmp cmp x ys)"

definition sort_cmp :: "('a \<Rightarrow> 'a \<Rightarrow> int) \<Rightarrow> 'a list \<Rightarrow> 'a list" where
  "sort_cmp cmp xs = foldr (insort_cmp cmp) xs []"

text \<open>
  \<open>lc\<close> is \<open>String.prototype.localeCompare\<close>, whose order depends on the locale data of the runtime.
\<close>

definition edge_cmp :: "(string \<Rightarrow> string \<Rightarrow> int) \<Rightarrow> edge \<Rightarrow> edge \<Rightarrow> int" where
  "edge_cmp lc a b =
     (let bySource = lc (eg_source a) (eg_source b) in
      if bySource \<noteq> 0 then bySource else lc (eg_target a) (eg_target b))"

fun kind_text :: "step_kind \<Rightarrow> string" where
  "kind_text Trigger = ''trigger''"
| "kind_text Action = ''action''"

definition step_node_json :: "step_node \<Rightarrow> jsval" where
  "step_node_json n =
     JObj [(''id'', JStr (sn_id n)), (''type'', JStr ''step''),
       (''position'', JObj [(''x'', JNum (int_text (fst (sn_position n)))),
                            (''y'', JNum (int_text (snd (sn_position n))))]),
       (''data'', JObj [(''type'', JStr (sd_type (sn_data n))),
                        (''kind'', JStr (kind_text (sd_kind (sn_data n)))),
                        (''title'', JStr (sd_title (sn_data n))),
                        (''values'', JObj (map (\<lambda>(k, v). (k, JStr v)) (sd_values (sn_data n))))])]"

definition edge_json :: "edge \<Rightarrow> jsval" where
  "edge_json e =
     JObj [(''id'', JStr (eg_id e)), (''source'', JStr (eg_source e)),
           (''target'', JStr (eg_target e))]"

text \<open>\<open>sha\<close> is the hexadecimal SHA-256 digest.\<close>

definition canonicalGraphHash ::
    "(string \<Rightarrow> string \<Rightarrow> int) \<Rightarrow> (string \<Rightarrow> string) \<Rightarrow> workflow_graph \<Rightarrow> string" where
  "canonicalGraphHash lc sha g =
     (let nodes = sort_cmp (\<lambda>a b. lc (sn_id a) (sn_id b)) (wg_nodes g);
          edges = sort_cmp (edge_cmp lc) (wg_edges g);
          canonical = stringify (JObj [(''nodes'', JArr (map step_node_json nodes)),
                                       (''edges'', JArr (map edge_json edges))])
      in sha (nullish canonical []))"

section \<open>Creating a version\<close>

datatype version_error =
    WorkflowVersionConflictError string
  | SqlError sql_error
  | SaveError string

definition MAX_VERSION_RETRIES :: nat where
  "MAX_VERSION_RETRIES = 5"

fun isUniqueViolation :: "sql_error \<Rightarrow> bool" where
  "isUniqueViolation UniqueViolation = True"
| "isUniqueViolation ForeignKeyViolation = False"
| "isUniqueViolation ConnectionError = False"

definition of_workflow :: "string \<Rightarrow> string \<Rightarrow> workflow_version_row \<Rightarrow> bool" where
  "of_workflow orgId wfId v \<longleftrightarrow> wv_workflowId v = wfId \<and> wv_orgId v = orgId"

definition listWorkflowVersions :: "string \<Rightarrow> string \<Rightarrow> db \<Rightarrow> workflow_version_row list" where
  "listWorkflowVersions orgId wfId d =
     sort_key (\<lambda>v. - wv_versionNumber v) (filter (of_workflow orgId wfId) (db_versions d))"

text \<open>\<open>ORDER BY version_number DESC LIMIT 1\<close>.\<close>

definition latest_version :: "string \<Rightarrow> string \<Rightarrow> db \<Rightarrow> workflow_version_row option" where
  "latest_version orgId wfId d =
     (case listWorkflowVersions orgId wfId d of [] \<Rightarrow> None | v # _ \<Rightarrow> Some v)"

definition getWorkflowVersion :: "string \<Rightarrow> string \<Rightarrow> db \<Rightarrow> workflow_version_row option" where
  "getWorkflowVersion orgId i d =
     select_one (\<lambda>v. wv_id v = i \<and> wv_orgId v = orgId) (db_versions d)"

definition maxVersionNumber :: "string \<Rightarrow> db \<Rightarrow> int" where
  "maxVersionNumber wfId d =
     (case map wv_versionNumber (filter (\<lambda>v. wv_workflowId v = wfId) (db_versions d)) of
        [] \<Rightarrow> 0 | n # ns \<Rightarrow> foldl max n ns)"

text \<open>The insert, which the unique constraints and the foreign key guard.\<close>

definition insert_version ::
    "workflow_version_row \<Rightarrow> db \<Rightarrow> sql_error + db" where
  "insert_version v d =
     (if wv_id v \<in> wv_id ` set (db_versions d) \<or>
         (wv_workflowId v, wv_versionNumber v) \<in>
           (\<lambda>u. (wv_workflowId u, wv_versionNumber u)) ` set (db_versions d)
      then Inl UniqueViolation
      else if wv_workflowId v \<notin> wf_id ` set (db_workflows d) then Inl ForeignKeyViolation
      else Inr (d\<lparr>db_versions := db_versions d @ [v]\<rparr>))"

record version_args =
  va_orgId :: string
  va_workflowId :: string
  va_graph :: workflow_graph
  va_hash :: string

definition new_version :: "version_args \<Rightarrow> int \<Rightarrow> string \<Rightarrow> int \<Rightarrow> workflow_version_row" where
  "new_version a now i n =
     \<lparr>wv_id = i, wv_workflowId = va_workflowId a, wv_orgId = va_orgId a, wv_versionNumber = n,
      wv_graph = va_graph a, wv_graphHash = Some (va_hash a), wv_createdAt = now\<rparr>"

text \<open>
  The retry loop.  \<open>left\<close> attempts remain, the next insert is query \<open>k\<close> and the re-read of the
  maximum after a conflict is query \<open>k + 1\<close>.
\<close>

fun allocate ::
    "world \<Rightarrow> (nat \<Rightarrow> string) \<Rightarrow> int \<Rightarrow> version_args \<Rightarrow> nat \<Rightarrow> nat \<Rightarrow> int \<Rightarrow> db \<Rightarrow>
     (version_error + workflow_version_row) \<times> db" where
  "allocate world ids now a 0 k candidate d =
     (Inl (WorkflowVersionConflictError
        (''Could not allocate a workflow version number for workflow '' @ va_workflowId a @
         '' after '' @ nat_text MAX_VERSION_RETRIES @ '' attempts.'')), d)"
| "allocate world ids now a (Suc left) k candidate d =
     (case world k d of
        Inl _ \<Rightarrow> (Inl (SqlError ConnectionError), d)
      | Inr d1 \<Rightarrow>
          (case insert_version (new_version a now (ids k) candidate) d1 of
             Inr d2 \<Rightarrow> (Inr (new_version a now (ids k) candidate), d2)
           | Inl e \<Rightarrow>
               if \<not> isUniqueViolation e then (Inl (SqlError e), d1)
               else (case world (Suc k) d1 of
                       Inl _ \<Rightarrow> (Inl (SqlError ConnectionError), d1)
                     | Inr d2 \<Rightarrow>
                         allocate world ids now a left (Suc (Suc k))
                           (max candidate (maxVersionNumber (va_workflowId a) d2) + 1) d2)))"

definition createWorkflowVersion ::
    "world \<Rightarrow> (nat \<Rightarrow> string) \<Rightarrow> int \<Rightarrow> version_args \<Rightarrow> db \<Rightarrow>
     (version_error + workflow_version_row) \<times> db" where
  "createWorkflowVersion world ids now a d =
     (case world 0 d of
        Inl _ \<Rightarrow> (Inl (SqlError ConnectionError), d)
      | Inr d0 \<Rightarrow>
          let latest = latest_version (va_orgId a) (va_workflowId a) d0 in
          (case latest of
             Some v \<Rightarrow>
               if wv_graphHash v = Some (va_hash a) then (Inr v, d0)
               else allocate world ids now a MAX_VERSION_RETRIES 1 (wv_versionNumber v + 1) d0
           | None \<Rightarrow> allocate world ids now a MAX_VERSION_RETRIES 1 (0 + 1) d0))"

section \<open>Saving with an expected version\<close>

definition stale_message :: "int \<Rightarrow> int \<Rightarrow> string" where
  "stale_message current expected =
     ''This workflow was saved by someone else (version '' @ int_text current @ '' > your '' @
     int_text expected @ ''). Reload the latest graph and re-apply your changes.''"

text \<open>
  \<open>saveFn\<close> is the injected save; \<open>default_save\<close> is the one production uses, whose validation runs
  before its only query.
\<close>

definition default_save ::
    "topo \<Rightarrow> world \<Rightarrow> int \<Rightarrow> string \<Rightarrow> string \<Rightarrow> workflow_graph \<Rightarrow> db \<Rightarrow>
     (version_error + unit) \<times> db" where
  "default_save toposort world now orgId i graph d =
     (case world 1 d of
        Inl _ \<Rightarrow> (Inl (case saveWorkflowGraph toposort now orgId i graph d of
                         Inl e \<Rightarrow> SaveError e | Inr _ \<Rightarrow> SqlError ConnectionError), d)
      | Inr d1 \<Rightarrow> (case saveWorkflowGraph toposort now orgId i graph d1 of
                      Inl e \<Rightarrow> (Inl (SaveError e), d1) | Inr d2 \<Rightarrow> (Inr (), d2)))"

definition saveWorkflowGraphOptimistic ::
    "world \<Rightarrow> (db \<Rightarrow> (version_error + unit) \<times> db) \<Rightarrow> string \<Rightarrow> string \<Rightarrow> int option \<Rightarrow> db \<Rightarrow>
     (version_error + unit) \<times> db" where
  "saveWorkflowGraphOptimistic world saveFn orgId i expectedVersion d =
     (case expectedVersion of
        None \<Rightarrow> saveFn d
      | Some expected \<Rightarrow>
          (case world 0 d of
             Inl _ \<Rightarrow> (Inl (SqlError ConnectionError), d)
           | Inr d0 \<Rightarrow>
               let current = latest_version orgId i d0;
                   currentVersion = nullish (map_option wv_versionNumber current) 0
               in if currentVersion > expected
                  then (Inl (WorkflowVersionConflictError
                               (stale_message currentVersion expected)), d0)
                  else saveFn d0))"

section \<open>The hash does not depend on the order of nodes and edges\<close>

text \<open>A comparator that orders its arguments totally, as the specification of \<open>localeCompare\<close> asks.\<close>

definition consistent_cmp :: "('a \<Rightarrow> 'a \<Rightarrow> int) \<Rightarrow> bool" where
  "consistent_cmp cmp \<longleftrightarrow>
     (\<forall>a b. 0 < cmp a b \<longleftrightarrow> cmp b a < 0) \<and>
     (\<forall>a b c. cmp a b \<le> 0 \<longrightarrow> cmp b c \<le> 0 \<longrightarrow> cmp a c \<le> 0)"

lemma consistentD:
  assumes "consistent_cmp cmp"
  shows "0 < cmp a b \<longleftrightarrow> cmp b a < 0" "cmp a b \<le> 0 \<Longrightarrow> cmp b c \<le> 0 \<Longrightarrow> cmp a c \<le> 0"
    "cmp a b = 0 \<longleftrightarrow> cmp b a = 0" "\<not> cmp a b \<le> 0 \<Longrightarrow> cmp b a \<le> 0"
proof -
  have sign: "\<And>a b. 0 < cmp a b \<longleftrightarrow> cmp b a < 0" using assms by (simp add: consistent_cmp_def)
  show "0 < cmp a b \<longleftrightarrow> cmp b a < 0" by (rule sign)
  show "cmp a b \<le> 0 \<Longrightarrow> cmp b c \<le> 0 \<Longrightarrow> cmp a c \<le> 0"
    using assms unfolding consistent_cmp_def by blast
  show "cmp a b = 0 \<longleftrightarrow> cmp b a = 0" using sign [of a b] sign [of b a] by linarith
  show "\<not> cmp a b \<le> 0 \<Longrightarrow> cmp b a \<le> 0" using sign [of a b] by linarith
qed

lemma mset_insort_cmp [simp]: "mset (insort_cmp cmp x xs) = add_mset x (mset xs)"
  by (induction xs) auto

lemma mset_sort_cmp [simp]: "mset (sort_cmp cmp xs) = mset xs"
  by (induction xs) (simp_all add: sort_cmp_def)

lemma set_insort_cmp [simp]: "set (insort_cmp cmp x xs) = insert x (set xs)"
  by (induction xs) auto

lemma sorted_insort_cmp:
  assumes "consistent_cmp cmp" and "sorted_wrt (\<lambda>x y. cmp x y \<le> 0) xs"
  shows "sorted_wrt (\<lambda>x y. cmp x y \<le> 0) (insort_cmp cmp x xs)"
  using assms(2) by (induction xs) (auto intro: consistentD(2,4) [OF assms(1)])

lemma sorted_sort_cmp:
  "consistent_cmp cmp \<Longrightarrow> sorted_wrt (\<lambda>x y. cmp x y \<le> 0) (sort_cmp cmp xs)"
  by (induction xs) (simp_all add: sort_cmp_def sorted_insort_cmp)

text \<open>A sorted list is determined by its elements when no two of them tie.\<close>

lemma sorted_unique:
  "sorted_wrt P xs \<Longrightarrow> sorted_wrt P ys \<Longrightarrow> mset xs = mset ys \<Longrightarrow>
     (\<And>x y. x \<in> set xs \<Longrightarrow> y \<in> set xs \<Longrightarrow> P x y \<Longrightarrow> P y x \<Longrightarrow> x = y) \<Longrightarrow> xs = ys"
proof (induction xs arbitrary: ys)
  case Nil
  then show ?case by simp
next
  case (Cons x xs)
  then obtain y ys' where ys: "ys = y # ys'" by (cases ys) auto
  have sets: "set (x # xs) = set (y # ys')" using Cons.prems(3) ys mset_eq_setD by blast
  have "x = y"
  proof (rule ccontr)
    assume "x \<noteq> y"
    then have mem: "y \<in> set xs" "x \<in> set ys'" using sets by auto
    then have "P x y" "P y x" using Cons.prems(1,2) ys by auto
    then show False using Cons.prems(4) [of x y] mem \<open>x \<noteq> y\<close> by auto
  qed
  moreover have "xs = ys'"
    using Cons.prems ys \<open>x = y\<close> by (intro Cons.IH) auto
  ultimately show ?case using ys by simp
qed

lemma sort_cmp_perm:
  assumes "consistent_cmp cmp" and "mset xs = mset ys"
    and "\<And>x y. x \<in> set xs \<Longrightarrow> y \<in> set xs \<Longrightarrow> cmp x y = 0 \<Longrightarrow> x = y"
  shows "sort_cmp cmp xs = sort_cmp cmp ys"
proof (rule sorted_unique)
  fix x y
  assume "x \<in> set (sort_cmp cmp xs)" "y \<in> set (sort_cmp cmp xs)" "cmp x y \<le> 0" "cmp y x \<le> 0"
  moreover from this have "cmp x y = 0" using consistentD(1) [OF assms(1), of y x] by linarith
  ultimately show "x = y" using assms(3) [of x y] by (metis mset_sort_cmp set_mset_mset)
qed (simp_all add: sorted_sort_cmp assms)

lemma consistent_on: "consistent_cmp lc \<Longrightarrow> consistent_cmp (\<lambda>a b. lc (f a) (f b))"
  unfolding consistent_cmp_def by blast

lemma consistent_edge_cmp:
  assumes "consistent_cmp lc"
  shows "consistent_cmp (edge_cmp lc)"
proof -
  note c = consistentD [OF assms]
  have "edge_cmp lc a d \<le> 0" if "edge_cmp lc a b \<le> 0" "edge_cmp lc b d \<le> 0" for a b d
  proof -
    let ?s = "\<lambda>x y. lc (eg_source x) (eg_source y)"
    have ab: "?s a b \<le> 0" and bd: "?s b d \<le> 0"
      using that by (auto simp: edge_cmp_def Let_def split: if_splits)
    then have ad: "?s a d \<le> 0" using c(2) by blast
    show ?thesis
    proof (cases "?s a d = 0")
      case True
      then have "?s d a \<le> 0" using c(3) [of "eg_source a" "eg_source d"] by simp
      then have "?s b a \<le> 0" "?s d b \<le> 0" using ab bd c(2) by blast+
      then have "?s a b = 0" "?s b d = 0"
        using ab bd c(1) [of "eg_source b" "eg_source a"] c(1) [of "eg_source d" "eg_source b"]
        by linarith+
      then show ?thesis using that c(2) True by (auto simp: edge_cmp_def Let_def)
    qed (use ad in \<open>simp add: edge_cmp_def Let_def\<close>)
  qed
  moreover have "0 < edge_cmp lc a b \<longleftrightarrow> edge_cmp lc b a < 0" for a b
    using c(1) [of "eg_source a" "eg_source b"] c(3) [of "eg_source a" "eg_source b"]
      c(1) [of "eg_target a" "eg_target b"]
    by (auto simp: edge_cmp_def Let_def)
  ultimately show ?thesis unfolding consistent_cmp_def by blast
qed

text \<open>
  The canonical hash of a graph does not depend on the order of its node and edge arrays, as
  long as no two different nodes have ids the locale does not tell apart and no two different
  edges connect the same pair of nodes.
\<close>

theorem hash_ignores_order:
  assumes "consistent_cmp lc"
    and "mset (wg_nodes g) = mset (wg_nodes h)" and "mset (wg_edges g) = mset (wg_edges h)"
    and "\<And>n m. n \<in> set (wg_nodes g) \<Longrightarrow> m \<in> set (wg_nodes g) \<Longrightarrow> lc (sn_id n) (sn_id m) = 0 \<Longrightarrow>
           n = m"
    and "\<And>e f. e \<in> set (wg_edges g) \<Longrightarrow> f \<in> set (wg_edges g) \<Longrightarrow> edge_cmp lc e f = 0 \<Longrightarrow> e = f"
  shows "canonicalGraphHash lc sha g = canonicalGraphHash lc sha h"
  using sort_cmp_perm [OF consistent_on [OF assms(1), of sn_id] assms(2)]
    sort_cmp_perm [OF consistent_edge_cmp [OF assms(1)] assms(3)] assms(4,5)
  by (simp add: canonicalGraphHash_def)

definition demo_node :: "string \<Rightarrow> string \<Rightarrow> step_kind \<Rightarrow> step_node" where
  "demo_node i t k =
     \<lparr>sn_id = i, sn_position = (0, 0),
      sn_data = \<lparr>sd_type = t, sd_kind = k, sd_title = t, sd_values = []\<rparr>\<rparr>"

definition demo_edge :: "string \<Rightarrow> string \<Rightarrow> string \<Rightarrow> edge" where
  "demo_edge i s t = \<lparr>eg_id = i, eg_source = s, eg_target = t\<rparr>"

text \<open>A comparator by length, which satisfies the hypotheses.\<close>

definition length_cmp :: "string \<Rightarrow> string \<Rightarrow> int" where
  "length_cmp a b = int (length a) - int (length b)"

lemma consistent_length_cmp: "consistent_cmp length_cmp"
  by (simp add: consistent_cmp_def length_cmp_def)

theorem hash_ignores_order_witness:
  "canonicalGraphHash length_cmp sha
     \<lparr>wg_nodes = [demo_node ''s'' ''start'' Trigger, demo_node ''u1'' ''open-url'' Action],
      wg_edges = [demo_edge ''e'' ''s'' ''u1'', demo_edge ''f'' ''u1'' ''out'']\<rparr> =
   canonicalGraphHash length_cmp sha
     \<lparr>wg_nodes = [demo_node ''u1'' ''open-url'' Action, demo_node ''s'' ''start'' Trigger],
      wg_edges = [demo_edge ''f'' ''u1'' ''out'', demo_edge ''e'' ''s'' ''u1'']\<rparr>"
  by (rule hash_ignores_order [OF consistent_length_cmp])
    (auto simp: demo_node_def demo_edge_def edge_cmp_def length_cmp_def Let_def)

text \<open>
  Edges that connect the same two nodes keep their array order in the hashed text, so two
  graphs with the same nodes and the same edges get different hashes, whatever the locale and
  whatever collision-free digest.
\<close>

definition split_graph :: "edge list \<Rightarrow> workflow_graph" where
  "split_graph es = \<lparr>wg_nodes = [demo_node ''a'' ''start'' Trigger, demo_node ''b'' ''act'' Action],
     wg_edges = es\<rparr>"

theorem parallel_edges_split_hash:
  assumes "inj sha" and "lc ''a'' ''a'' = 0" and "lc ''b'' ''b'' = 0"
  shows "canonicalGraphHash lc sha (split_graph [demo_edge ''e'' ''a'' ''b'', demo_edge ''f'' ''a'' ''b'']) \<noteq>
         canonicalGraphHash lc sha (split_graph [demo_edge ''f'' ''a'' ''b'', demo_edge ''e'' ''a'' ''b''])"
proof -
  have sorted: "sort_cmp (edge_cmp lc) [demo_edge x ''a'' ''b'', demo_edge y ''a'' ''b''] =
      [demo_edge x ''a'' ''b'', demo_edge y ''a'' ''b'']" for x y
    using assms(2,3) by (simp add: sort_cmp_def edge_cmp_def demo_edge_def)
  show ?thesis
    unfolding canonicalGraphHash_def split_graph_def Let_def workflow_graph.select_convs sorted
    by (simp add: inj_eq [OF assms(1)] edge_json_def demo_edge_def quote_def quote_char_def Let_def)
qed

theorem parallel_edges_split_hash_witness:
  "canonicalGraphHash length_cmp (\<lambda>t. t)
     (split_graph [demo_edge ''e'' ''a'' ''b'', demo_edge ''f'' ''a'' ''b'']) \<noteq>
   canonicalGraphHash length_cmp (\<lambda>t. t)
     (split_graph [demo_edge ''f'' ''a'' ''b'', demo_edge ''e'' ''a'' ''b''])"
  by (rule parallel_edges_split_hash) (simp_all add: length_cmp_def)

section \<open>The history of a workflow\<close>

lemma set_listWorkflowVersions [simp]:
  "set (listWorkflowVersions orgId w d) = {v \<in> set (db_versions d). of_workflow orgId w v}"
  by (auto simp: listWorkflowVersions_def)

lemma sorted_listWorkflowVersions:
  "sorted_wrt (\<lambda>u v. wv_versionNumber v \<le> wv_versionNumber u) (listWorkflowVersions orgId w d)"
  using sorted_sort_key [of "\<lambda>v. - wv_versionNumber v"]
  by (simp add: listWorkflowVersions_def sorted_map)

lemma latest_None:
  "latest_version orgId w d = None \<longleftrightarrow> (\<forall>v \<in> set (db_versions d). \<not> of_workflow orgId w v)"
  using set_listWorkflowVersions [of orgId w d]
  by (cases "listWorkflowVersions orgId w d") (auto simp: latest_version_def simp del: set_listWorkflowVersions)

lemma latest_Some:
  assumes "latest_version orgId w d = Some v"
  shows "v \<in> set (db_versions d)" "of_workflow orgId w v"
    "\<And>u. u \<in> set (db_versions d) \<Longrightarrow> of_workflow orgId w u \<Longrightarrow> wv_versionNumber u \<le> wv_versionNumber v"
proof -
  obtain vs where l: "listWorkflowVersions orgId w d = v # vs"
    using assms by (auto simp: latest_version_def split: list.splits)
  have sets: "set (v # vs) = {v \<in> set (db_versions d). of_workflow orgId w v}"
    using set_listWorkflowVersions [of orgId w d] l by simp
  then show "v \<in> set (db_versions d)" "of_workflow orgId w v" by auto
  fix u
  assume "u \<in> set (db_versions d)" "of_workflow orgId w u"
  then have "u \<in> set (v # vs)" using sets by simp
  then show "wv_versionNumber u \<le> wv_versionNumber v"
    using sorted_listWorkflowVersions [of orgId w d] l by auto
qed

lemma foldl_max_ge: "(m :: int) \<le> foldl max m ns \<and> (\<forall>n \<in> set ns. n \<le> foldl max m ns)"
proof (induction ns arbitrary: m)
  case (Cons n ns)
  show ?case using Cons.IH [of "max m n"] by auto
qed simp

lemma maxVersionNumber_ge:
  assumes "v \<in> set (db_versions d)" and "wv_workflowId v = w"
  shows "wv_versionNumber v \<le> maxVersionNumber w d"
proof -
  let ?l = "map wv_versionNumber (filter (\<lambda>v. wv_workflowId v = w) (db_versions d))"
  have "wv_versionNumber v \<in> set ?l" using assms by auto
  then show ?thesis using foldl_max_ge [of "hd ?l" "tl ?l"]
    by (cases ?l) (auto simp: maxVersionNumber_def)
qed

lemma insert_version_Inr:
  assumes "insert_version v d = Inr d'"
  shows "d' = d\<lparr>db_versions := db_versions d @ [v]\<rparr>" "db_keys d \<Longrightarrow> db_keys d'"
    "set (db_versions d') = insert v (set (db_versions d))"
proof -
  show d': "d' = d\<lparr>db_versions := db_versions d @ [v]\<rparr>"
    using assms by (auto simp: insert_version_def split: if_splits)
  have fresh: "wv_id v \<notin> wv_id ` set (db_versions d)"
    "(wv_workflowId v, wv_versionNumber v) \<notin>
       (\<lambda>u. (wv_workflowId u, wv_versionNumber u)) ` set (db_versions d)"
    using assms by (auto simp: insert_version_def split: if_splits)
  show "db_keys d'" if "db_keys d"
    unfolding d' by (rule keys_update(4) [OF that]) (use fresh keys_of(4,5) [OF that] in auto)
  show "set (db_versions d') = insert v (set (db_versions d))" using d' by auto
qed

text \<open>
  Other writers keep the constraints and never delete or change a version: they too go through
  this module, which has no update and no delete.
\<close>

definition append_only :: "world \<Rightarrow> bool" where
  "append_only world \<longleftrightarrow>
     (\<forall>k d d'. db_keys d \<longrightarrow> world k d = Inr d' \<longrightarrow>
        db_keys d' \<and> set (db_versions d) \<subseteq> set (db_versions d'))"

lemma append_onlyD:
  "append_only world \<Longrightarrow> world k d = Inr d' \<Longrightarrow> db_keys d \<Longrightarrow> db_keys d'"
  "append_only world \<Longrightarrow> world k d = Inr d' \<Longrightarrow> db_keys d \<Longrightarrow> v \<in> set (db_versions d) \<Longrightarrow>
     v \<in> set (db_versions d')"
  unfolding append_only_def by blast+

lemma allocate_history:
  "append_only world \<Longrightarrow> db_keys d \<Longrightarrow> allocate world ids now a left k c d = (r, d') \<Longrightarrow>
     db_keys d' \<and> set (db_versions d) \<subseteq> set (db_versions d')"
proof (induction world ids now a left k c d rule: allocate.induct)
  case (2 world ids now a left k c d)
  show ?case
  proof (cases "world k d")
    case (Inl e)
    then show ?thesis using 2 by auto
  next
    case (Inr d1)
    note k1 = append_onlyD [OF 2(2) Inr 2(3)]
    show ?thesis
    proof (cases "insert_version (new_version a now (ids k) c) d1")
      case ins: (Inr d2)
      have "d' = d2" using 2(4) Inr ins by simp
      then show ?thesis using insert_version_Inr(2,3) [OF ins] k1 by auto
    next
      case ins: (Inl e)
      show ?thesis
      proof (cases "isUniqueViolation e \<and> (\<exists>d2. world (Suc k) d1 = Inr d2)")
        case True
        then obtain d2 where w2: "world (Suc k) d1 = Inr d2" and u: "isUniqueViolation e" by blast
        note k2 = append_onlyD [OF 2(2) w2 k1(1)]
        show ?thesis using 2(1) [OF Inr ins _ w2 2(2)] u k1 k2 2(4) Inr ins w2 by auto
      next
        case False
        then have "d' = d1" using 2(4) Inr ins by (cases "world (Suc k) d1") (auto split: if_splits)
        then show ?thesis using k1 by auto
      qed
    qed
  qed
qed auto

text \<open>What an allocated version is, and that its number is at least the first candidate.\<close>

lemma allocate_Inr:
  "allocate world ids now a left k c d = (Inr v, d') \<Longrightarrow>
     v \<in> set (db_versions d') \<and> (\<exists>i n. v = new_version a now i n \<and> c \<le> n)"
proof (induction world ids now a left k c d rule: allocate.induct)
  case (2 world ids now a left k c d)
  obtain d1 where w1: "world k d = Inr d1" using 2(2) by (cases "world k d") auto
  show ?case
  proof (cases "insert_version (new_version a now (ids k) c) d1")
    case ins: (Inr d2)
    then have "d' = d2" "v = new_version a now (ids k) c" using 2(2) w1 by auto
    then show ?thesis using insert_version_Inr(3) [OF ins] by auto
  next
    case ins: (Inl e)
    then have u: "isUniqueViolation e" using 2(2) w1 by (auto split: if_splits)
    then obtain d2 where w2: "world (Suc k) d1 = Inr d2"
      using 2(2) w1 ins by (cases "world (Suc k) d1") auto
    have "allocate world ids now a left (Suc (Suc k))
        (max c (maxVersionNumber (va_workflowId a) d2) + 1) d2 = (Inr v, d')"
      using 2(2) w1 ins u w2 by simp
    from 2(1) [OF w1 ins _ w2 this] u show ?thesis by fastforce
  qed
qed auto

lemma history_kept:
  assumes "append_only world" and "db_keys d"
    and "createWorkflowVersion world ids now a d = (r, d')"
  shows "db_keys d' \<and> set (db_versions d) \<subseteq> set (db_versions d')"
proof (cases "world 0 d")
  case (Inl e)
  then show ?thesis using assms by (simp add: createWorkflowVersion_def)
next
  case (Inr d0)
  note k0 = append_onlyD [OF assms(1) Inr assms(2)]
  have "(\<exists>v. (r, d') = (Inr v, d0)) \<or>
      (\<exists>c. allocate world ids now a MAX_VERSION_RETRIES 1 c d0 = (r, d'))"
    using assms(3) Inr by (auto simp: createWorkflowVersion_def Let_def split: option.splits if_splits)
  then show ?thesis using allocate_history [OF assms(1) k0(1)] k0 by blast
qed

lemma version_spec:
  assumes "world 0 d = Inr d0" and "createWorkflowVersion world ids now a d = (Inr v, d')"
  shows "v \<in> set (db_versions d') \<and> of_workflow (va_orgId a) (va_workflowId a) v \<and>
     wv_graphHash v = Some (va_hash a) \<and>
     (latest_version (va_orgId a) (va_workflowId a) d0 = Some v \<and> d' = d0 \<or>
      wv_graph v = va_graph a \<and>
      (\<forall>u \<in> set (db_versions d0). of_workflow (va_orgId a) (va_workflowId a) u \<longrightarrow>
         wv_versionNumber u < wv_versionNumber v))"
proof (cases "latest_version (va_orgId a) (va_workflowId a) d0")
  case None
  then have "allocate world ids now a MAX_VERSION_RETRIES 1 1 d0 = (Inr v, d')"
    using assms by (simp add: createWorkflowVersion_def)
  from allocate_Inr [OF this] None show ?thesis
    by (auto simp: latest_None new_version_def of_workflow_def)
next
  case (Some l)
  show ?thesis
  proof (cases "wv_graphHash l = Some (va_hash a)")
    case True
    then show ?thesis using assms Some latest_Some [OF Some]
      by (auto simp: createWorkflowVersion_def)
  next
    case False
    then have "allocate world ids now a MAX_VERSION_RETRIES 1 (wv_versionNumber l + 1) d0 = (Inr v, d')"
      using assms Some by (simp add: createWorkflowVersion_def)
    from allocate_Inr [OF this] latest_Some(3) [OF Some] show ?thesis
      by (fastforce simp: new_version_def of_workflow_def)
  qed
qed

lemma version_stored:
  assumes "createWorkflowVersion world ids now a d = (Inr v, d')"
  shows "v \<in> set (db_versions d') \<and> of_workflow (va_orgId a) (va_workflowId a) v \<and>
     wv_graphHash v = Some (va_hash a)"
proof -
  obtain d0 where "world 0 d = Inr d0"
    using assms by (cases "world 0 d") (auto simp: createWorkflowVersion_def)
  then show ?thesis using version_spec assms by blast
qed


text \<open>
  A returned version belongs to the workflow and the organization, has the hash of the
  submitted graph and is stored; it is either the newest version the call read or a new snapshot
  of exactly the submitted graph whose number is above every version the call read.
\<close>

theorem created_version_spec:
  assumes "world 0 d = Inr d0" and "createWorkflowVersion world ids now a d = (Inr v, d')"
  shows "v \<in> set (db_versions d') \<and> of_workflow (va_orgId a) (va_workflowId a) v \<and>
     wv_graphHash v = Some (va_hash a) \<and>
     (latest_version (va_orgId a) (va_workflowId a) d0 = Some v \<and> d' = d0 \<or>
      wv_graph v = va_graph a \<and>
      (\<forall>u \<in> set (db_versions d0). of_workflow (va_orgId a) (va_workflowId a) u \<longrightarrow>
         wv_versionNumber u < wv_versionNumber v))"
  using assms by (rule version_spec)

section \<open>A version is allocated\<close>

text \<open>
  The workflow's row exists and the ids still to be generated are unused; \<open>sound_world\<close> says the
  store stays reachable and others keep this so.
\<close>

definition insertable :: "string \<Rightarrow> (nat \<Rightarrow> string) \<Rightarrow> db \<Rightarrow> bool" where
  "insertable w ids d \<longleftrightarrow> w \<in> wf_id ` set (db_workflows d) \<and> range ids \<inter> wv_id ` set (db_versions d) = {}"

definition sound_world :: "string \<Rightarrow> (nat \<Rightarrow> string) \<Rightarrow> world \<Rightarrow> bool" where
  "sound_world w ids world \<longleftrightarrow>
     (\<forall>k d. insertable w ids d \<longrightarrow> (\<exists>d'. world k d = Inr d' \<and> insertable w ids d'))"

lemma insert_next:
  assumes "insertable (va_workflowId a) ids d" and "maxVersionNumber (va_workflowId a) d < c"
  shows "insert_version (new_version a now (ids k) c) d =
    Inr (d\<lparr>db_versions := db_versions d @ [new_version a now (ids k) c]\<rparr>)"
proof -
  have "ids k \<notin> wv_id ` set (db_versions d)" using assms(1) by (auto simp: insertable_def)
  moreover have "(va_workflowId a, c) \<notin> (\<lambda>u. (wv_workflowId u, wv_versionNumber u)) ` set (db_versions d)"
    using maxVersionNumber_ge assms(2) by fastforce
  ultimately show ?thesis
    using assms(1) by (simp add: insert_version_def new_version_def insertable_def)
qed

lemma insert_failure:
  assumes "insertable (va_workflowId a) ids d"
    and "insert_version (new_version a now (ids k) c) d = Inl e"
  shows "isUniqueViolation e"
  using assms by (auto simp: insert_version_def insertable_def new_version_def split: if_splits)

lemma allocate_quiet:
  assumes "sound_world (va_workflowId a) ids world"
  shows "insertable (va_workflowId a) ids d \<Longrightarrow> 0 < i \<Longrightarrow> i < left \<Longrightarrow>
     (\<And>d. world (k + 2 * i) d = Inr d) \<Longrightarrow>
     \<exists>v d'. allocate world ids now a left k c d = (Inr v, d')"
proof (induction left arbitrary: i k c d)
  case (Suc left)
  obtain d1 where d1: "world k d = Inr d1" "insertable (va_workflowId a) ids d1"
    using assms Suc.prems(1) unfolding sound_world_def by blast
  obtain d2 where d2: "world (Suc k) d1 = Inr d2" "insertable (va_workflowId a) ids d2"
    using assms d1(2) unfolding sound_world_def by blast
  let ?c = "max c (maxVersionNumber (va_workflowId a) d2) + 1"
  have "\<exists>v d'. allocate world ids now a left (Suc (Suc k)) ?c d2 = (Inr v, d')"
  proof (cases "i = 1")
    case True
    obtain left' where left: "left = Suc left'" using Suc.prems(3) True by (cases left) auto
    have "world (Suc (Suc k)) d2 = Inr d2" using Suc.prems(4) [of d2] True by simp
    then show ?thesis using insert_next [OF d2(2), of ?c] left by simp
  next
    case False
    have shift: "Suc (Suc k) + 2 * (i - 1) = k + 2 * i" using Suc.prems(2) by arith
    have "world (Suc (Suc k) + 2 * (i - 1)) e = Inr e" for e
      unfolding shift by (rule Suc.prems(4))
    then show ?thesis using Suc.IH [OF d2(2), of "i - 1"] Suc.prems(2,3) False by auto
  qed
  then show ?case
    using d1 d2 insert_failure [OF d1(2)]
    by (cases "insert_version (new_version a now (ids k) c) d1") auto
qed simp

text \<open>
  C21. A version is obtained as soon as, once in the four retries, no other writer gets in between
  the re-read of the maximum and the insert after it (in particular when there is no other
  writer); the store has to stay reachable and the workflow's row in place.
\<close>

theorem version_allocated:
  assumes "insertable (va_workflowId a) ids d"
    and "sound_world (va_workflowId a) ids world"
    and "i \<in> {1, 2, 3, 4}" and "\<And>d. world (1 + 2 * i) d = Inr d"
  shows "\<exists>v d'. createWorkflowVersion world ids now a d = (Inr v, d')"
proof -
  obtain d0 where d0: "world 0 d = Inr d0" "insertable (va_workflowId a) ids d0"
    using assms(1,2) unfolding sound_world_def by blast
  have "\<exists>v d'. allocate world ids now a MAX_VERSION_RETRIES 1 c d0 = (Inr v, d')" for c
    by (rule allocate_quiet [OF assms(2) d0(2), of i])
      (use assms(3,4) in \<open>auto simp: MAX_VERSION_RETRIES_def\<close>)
  then show ?thesis using d0 by (auto simp: createWorkflowVersion_def Let_def split: option.splits)
qed

text \<open>
  A save with the version number the caller last saw is refused, with nothing written, exactly
  when the history of the workflow in that organization has a larger number (an empty history
  counts as version 0); otherwise it does what the save function does, as a save without an
  expected version always does.
\<close>

theorem optimistic_save_exact:
  assumes "world 0 d = Inr d0"
  shows "saveWorkflowGraphOptimistic world saveFn orgId i None d = saveFn d \<and>
    saveWorkflowGraphOptimistic world saveFn orgId i (Some n) d =
     (let mine = {v \<in> set (db_versions d0). of_workflow orgId i v} in
      if (\<exists>v \<in> mine. n < wv_versionNumber v) \<or> mine = {} \<and> n < 0 then
        (Inl (WorkflowVersionConflictError
           (stale_message (nullish (map_option wv_versionNumber (latest_version orgId i d0)) 0) n)), d0)
      else saveFn d0)"
proof (cases "latest_version orgId i d0")
  case None
  then have "{v \<in> set (db_versions d0). of_workflow orgId i v} = {}" by (auto simp: latest_None)
  then show ?thesis using assms None by (auto simp: saveWorkflowGraphOptimistic_def Let_def)
next
  case (Some l)
  have "(\<exists>v \<in> {v \<in> set (db_versions d0). of_workflow orgId i v}. n < wv_versionNumber v) \<longleftrightarrow>
      n < wv_versionNumber l" and "{v \<in> set (db_versions d0). of_workflow orgId i v} \<noteq> {}"
    using latest_Some [OF Some] by force+
  then show ?thesis using assms Some by (auto simp: saveWorkflowGraphOptimistic_def Let_def)
qed

section \<open>Concrete calls\<close>

definition demo_graph :: workflow_graph where
  "demo_graph = \<lparr>wg_nodes = [demo_node ''s'' ''start'' Trigger, demo_node ''u'' ''open-url'' Action],
     wg_edges = [demo_edge ''e'' ''s'' ''u'']\<rparr>"

definition demo_args :: version_args where
  "demo_args = \<lparr>va_orgId = ''org'', va_workflowId = ''w'', va_graph = demo_graph, va_hash = ''h2''\<rparr>"

definition demo_version :: "string \<Rightarrow> int \<Rightarrow> workflow_version_row" where
  "demo_version i n = \<lparr>wv_id = i, wv_workflowId = ''w'', wv_orgId = ''org'', wv_versionNumber = n,
     wv_graph = demo_graph, wv_graphHash = Some ''h1'', wv_createdAt = 0\<rparr>"

definition demo_versions :: db where
  "demo_versions = empty_db\<lparr>
     db_workflows := [\<lparr>wf_id = ''w'', wf_orgId = ''org'', wf_name = ''demo'', wf_graph = None,
       wf_createdAt = 0, wf_updatedAt = 0\<rparr>],
     db_versions := [demo_version ''v1'' 1]\<rparr>"

text \<open>A second writer takes the next number before the first insert; then it is quiet.\<close>

definition raced :: world where
  "raced k d = Inr (if k = 1 then d\<lparr>db_versions := db_versions demo_versions @ [demo_version ''v2'' 2]\<rparr>
     else d)"

definition demo_ids :: "nat \<Rightarrow> string" where
  "demo_ids k = replicate (Suc k) CHR ''n''"

lemma raced_creation:
  "createWorkflowVersion raced demo_ids 7 demo_args demo_versions =
     (Inr (new_version demo_args 7 ''nnnn'' 3),
      demo_versions\<lparr>db_versions := [demo_version ''v1'' 1, demo_version ''v2'' 2,
        new_version demo_args 7 ''nnnn'' 3]\<rparr>)"
  by (simp add: createWorkflowVersion_def raced_def demo_versions_def latest_version_def
      listWorkflowVersions_def of_workflow_def demo_version_def demo_args_def empty_db_def
      MAX_VERSION_RETRIES_def eval_nat_numeral insert_version_def new_version_def
      maxVersionNumber_def demo_ids_def)

lemma quiet_append_only: "append_only (\<lambda>k d. Inr d)"
  by (simp add: append_only_def)


theorem created_version_spec_witness:
  "wv_versionNumber (demo_version ''v1'' 1) < wv_versionNumber (new_version demo_args 7 ''nnnn'' 3)"
  using created_version_spec [OF _ raced_creation, of demo_versions]
  by (auto simp: raced_def demo_versions_def demo_version_def demo_args_def new_version_def
      of_workflow_def empty_db_def)

theorem version_allocated_witness:
  "\<exists>v d'. createWorkflowVersion (\<lambda>k d. Inr d) demo_ids 7 demo_args demo_versions = (Inr v, d')"
proof (rule version_allocated)
  show "insertable (va_workflowId demo_args) demo_ids demo_versions"
    by (auto simp: insertable_def demo_args_def demo_versions_def demo_ids_def demo_version_def empty_db_def)
qed (auto simp: sound_world_def)

theorem optimistic_save_exact_witness:
  "fst (saveWorkflowGraphOptimistic (\<lambda>k d. Inr d) (\<lambda>d. (Inr (), d)) ''org'' ''w'' (Some 0) demo_versions)
     \<noteq> Inr ()"
  using optimistic_save_exact [of "\<lambda>k d. Inr d" demo_versions demo_versions "\<lambda>d. (Inr (), d)" "''org''" "''w''" 0]
  by (auto simp: Let_def demo_versions_def demo_version_def of_workflow_def empty_db_def split: if_splits)

end
