(* ===== verification/RunRecords.thy ===== *)
theory RunRecords
  imports Versions RunView
begin

text \<open>
  Engine-neutral run records, \<open>features/workflows/lib/run-records.ts\<close>: the idempotent insert of a
  run row, the foreign-key row an Evo run needs, and finding the engine that owns a run across the
  two run stores.  As in \<open>Versions\<close>, \<open>world k\<close> is what the \<open>k\<close>-th query of a call finds.
\<close>

fun engine_text :: "engine \<Rightarrow> string" where
  "engine_text Legacy = ''legacy''"
| "engine_text Evo = ''evo''"

section \<open>Creating a run record\<close>

record run_args =
  rr_runId :: string
  rr_orgId :: string
  rr_workflowId :: string
  rr_workflowVersionId :: "string option"
  rr_engine :: engine

definition new_run :: "run_args \<Rightarrow> int \<Rightarrow> workflow_run_row" where
  "new_run a now =
     \<lparr>wr_id = rr_runId a, wr_orgId = rr_orgId a, wr_workflowId = rr_workflowId a,
      wr_workflowVersionId = rr_workflowVersionId a, wr_engine = engine_text (rr_engine a),
      wr_status = ''queued'', wr_outcome = None, wr_cancelReason = None,
      wr_cancelRequestedAt = None, wr_browserbaseSessionId = None, wr_dagJson = None,
      wr_createdAt = now, wr_startedAt = None, wr_finishedAt = None\<rparr>"

text \<open>The insert, guarded by the primary key and the two foreign keys.\<close>

definition insert_run :: "workflow_run_row \<Rightarrow> db \<Rightarrow> sql_error + db" where
  "insert_run r d =
     (if wr_id r \<in> wr_id ` set (db_runs d) then Inl UniqueViolation
      else if wr_workflowId r \<notin> wf_id ` set (db_workflows d) \<or>
              (\<exists>v \<in> set_option (wr_workflowVersionId r). v \<notin> wv_id ` set (db_versions d))
      then Inl ForeignKeyViolation
      else Inr (d\<lparr>db_runs := db_runs d @ [r]\<rparr>))"

definition isPrimaryKeyViolation :: "sql_error \<Rightarrow> bool" where
  "isPrimaryKeyViolation e \<longleftrightarrow> e = UniqueViolation"

definition createWorkflowRunRecord ::
    "world \<Rightarrow> int \<Rightarrow> run_args \<Rightarrow> db \<Rightarrow> (sql_error + workflow_run_row) \<times> db" where
  "createWorkflowRunRecord world now a d =
     (case world 0 d of
        Inl _ \<Rightarrow> (Inl ConnectionError, d)
      | Inr d0 \<Rightarrow>
          (case insert_run (new_run a now) d0 of
             Inr d1 \<Rightarrow> (Inr (new_run a now), d1)
           | Inl e \<Rightarrow>
               if \<not> isPrimaryKeyViolation e then (Inl e, d0)
               else (case world 1 d0 of
                       Inl _ \<Rightarrow> (Inl ConnectionError, d0)
                     | Inr d1 \<Rightarrow>
                         (case select_one (\<lambda>r. wr_id r = rr_runId a) (db_runs d1) of
                            None \<Rightarrow> (Inl e, d1)
                          | Some r \<Rightarrow> (Inr r, d1)))))"

text \<open>The insert of the workflow row, which does nothing on a conflict.\<close>

definition ensurePhase2Workflow ::
    "int \<Rightarrow> string \<Rightarrow> string \<Rightarrow> string \<Rightarrow> store \<Rightarrow> sql_error + db" where
  "ensurePhase2Workflow now i orgId name store =
     (case store of
        Inl _ \<Rightarrow> Inl ConnectionError
      | Inr d \<Rightarrow>
          Inr (if i \<in> wf_id ` set (db_workflows d) then d
               else d\<lparr>db_workflows := db_workflows d @
                 [\<lparr>wf_id = i, wf_orgId = orgId, wf_name = name, wf_graph = None,
                   wf_createdAt = now, wf_updatedAt = now\<rparr>]\<rparr>))"

section \<open>Which engine owns a run\<close>

definition getRunEngine :: "string \<Rightarrow> store \<Rightarrow> db_error + engine option" where
  "getRunEngine runId store =
     (case store of
        Inl e \<Rightarrow> Inl e
      | Inr d \<Rightarrow>
          Inr (case select_one (\<lambda>r. wr_id r = runId) (db_runs d) of
                 None \<Rightarrow> None
               | Some row \<Rightarrow> Some (if wr_engine row = ''evo'' then Evo else Legacy)))"

fun try_stores :: "string \<Rightarrow> store list \<Rightarrow> engine option" where
  "try_stores runId [] = None"
| "try_stores runId (s # ss) =
     (case getRunEngine runId s of
        Inl e \<Rightarrow> try_stores runId ss
      | Inr None \<Rightarrow> try_stores runId ss
      | Inr (Some e) \<Rightarrow> Some e)"

text \<open>
  A client that cannot be constructed (\<open>getPhase2Db\<close> or \<open>getDb\<close> throws) is \<open>None\<close>; the failure of
  the second one leaves the function as an exception.
\<close>

datatype client_error = ClientUnavailable

definition resolveRunEngine ::
    "store option \<Rightarrow> store option \<Rightarrow> string \<Rightarrow> client_error + engine option" where
  "resolveRunEngine phase2Db legacyDb runId =
     (let stores = (case phase2Db of None \<Rightarrow> [] | Some s \<Rightarrow> [s]) in
      case legacyDb of
        None \<Rightarrow> Inl ClientUnavailable
      | Some s \<Rightarrow> Inr (try_stores runId (stores @ [s])))"

section \<open>Properties\<close>

lemma insert_run_Inr:
  assumes "insert_run r d = Inr d'"
  shows "d' = d\<lparr>db_runs := db_runs d @ [r]\<rparr>" "db_keys d \<Longrightarrow> db_keys d'"
proof -
  show d': "d' = d\<lparr>db_runs := db_runs d @ [r]\<rparr>"
    using assms by (auto simp: insert_run_def split: if_splits)
  have fresh: "wr_id r \<notin> wr_id ` set (db_runs d)"
    using assms by (auto simp: insert_run_def split: if_splits)
  show "db_keys d'" if "db_keys d"
    unfolding d' by (rule keys_update(5) [OF that]) (use fresh keys_of(6) [OF that] in auto)
qed

text \<open>
  Submitting a run id again, with whatever arguments, writes nothing and returns the row the
  first submission stored; the first one stores a queued row with exactly the given data, whenever
  the rows it refers to exist.
\<close>

theorem run_record_idempotent:
  assumes "db_keys d" and "world = (\<lambda>k. Inr)"
  shows "(\<forall>r \<in> set (db_runs d). createWorkflowRunRecord world now (a\<lparr>rr_runId := wr_id r\<rparr>) d = (Inr r, d)) \<and>
    (rr_runId a \<notin> wr_id ` set (db_runs d) \<longrightarrow>
     rr_workflowId a \<in> wf_id ` set (db_workflows d) \<longrightarrow>
     set_option (rr_workflowVersionId a) \<subseteq> wv_id ` set (db_versions d) \<longrightarrow>
       createWorkflowRunRecord world now a d =
         (Inr (new_run a now), d\<lparr>db_runs := db_runs d @ [new_run a now]\<rparr>))"
  using select_one_key [OF keys_of(6) [OF assms(1)]] assms(2)
  by (auto simp: createWorkflowRunRecord_def insert_run_def new_run_def isPrimaryKeyViolation_def)

text \<open>
  The engine of a run: the Phase-2 store decides when it can be read and knows the run,
  otherwise Neon does, and a store that cannot be read counts as one that does not know the run.
  The call throws exactly when the Neon client cannot be constructed, whatever the Phase-2 store
  knows.
\<close>

definition engine_of_row :: "workflow_run_row \<Rightarrow> engine" where
  "engine_of_row r = (if wr_engine r = ''evo'' then Evo else Legacy)"

lemma getRunEngine_known:
  assumes "db_keys d" and "r \<in> set (db_runs d)"
  shows "getRunEngine (wr_id r) (Inr d) = Inr (Some (engine_of_row r))"
  using select_one_key [OF keys_of(6) [OF assms(1)] assms(2)]
  by (simp add: getRunEngine_def engine_of_row_def)

lemma getRunEngine_unknown:
  "i \<notin> wr_id ` set (db_runs d) \<Longrightarrow> getRunEngine i (Inr d) = Inr None"
  using select_one_None [of "\<lambda>r. wr_id r = i" "db_runs d"]
  by (auto simp: getRunEngine_def simp del: select_one_None split: option.splits
      dest: select_one_Some)

theorem run_engine_resolution:
  assumes "db_keys d" and "r \<in> set (db_runs d)" and "i \<notin> wr_id ` set (db_runs d)"
  shows "resolveRunEngine phase2 None j = Inl ClientUnavailable \<and>
    resolveRunEngine (Some (Inr d)) (Some neon) (wr_id r) = Inr (Some (engine_of_row r)) \<and>
    (\<forall>p \<in> {None, Some (Inl e), Some (Inr empty_db)}.
       resolveRunEngine p (Some (Inr d)) (wr_id r) = Inr (Some (engine_of_row r))) \<and>
    (\<forall>p \<in> {None, Some (Inl e), Some (Inr d)}. \<forall>n \<in> {Inl e, Inr d}.
       resolveRunEngine p (Some n) i = Inr None)"
  using getRunEngine_known [OF assms(1,2)] getRunEngine_unknown [OF assms(3)]
    getRunEngine_unknown [of "wr_id r" empty_db]
  by (simp add: resolveRunEngine_def getRunEngine_def [of _ "Inl e"] empty_db_def)

text \<open>A store with one Evo run.\<close>

definition demo_run_args :: run_args where
  "demo_run_args = \<lparr>rr_runId = ''evo_1'', rr_orgId = ''org'', rr_workflowId = ''w'',
     rr_workflowVersionId = Some ''v1'', rr_engine = Evo\<rparr>"

definition demo_runs :: db where
  "demo_runs = demo_versions\<lparr>db_runs := [new_run demo_run_args 5]\<rparr>"

lemma demo_runs_keys: "db_keys demo_runs"
  by (simp add: demo_runs_def demo_versions_def db_keys_def empty_db_def)

theorem run_record_idempotent_witness:
  "createWorkflowRunRecord (\<lambda>k. Inr) 9 (demo_run_args\<lparr>rr_orgId := ''other''\<rparr>) demo_runs =
     (Inr (new_run demo_run_args 5), demo_runs)"
proof -
  have mem: "new_run demo_run_args 5 \<in> set (db_runs demo_runs)" by (simp add: demo_runs_def)
  show ?thesis
    using run_record_idempotent [OF demo_runs_keys refl, of 9 "demo_run_args\<lparr>rr_orgId := ''other''\<rparr>",
        THEN conjunct1, THEN bspec, OF mem]
    by (simp add: demo_run_args_def new_run_def)
qed

theorem run_engine_resolution_witness:
  "resolveRunEngine None (Some (Inr demo_runs)) ''evo_1'' = Inr (Some Evo)"
  using run_engine_resolution [OF demo_runs_keys, of "new_run demo_run_args 5" "''x''"]
  by (simp add: demo_runs_def new_run_def demo_run_args_def engine_of_row_def)

end
