(* ===== verification/Access.thy ===== *)
theory Access
  imports RunRecords RunEvents
begin

text \<open>
  Who may do what: the session and the organization of a request (\<open>lib/auth.ts\<close>), the engine-aware
  ownership check (\<open>features/workflows/lib/run-authorization.ts\<close>) and the API routes that serve the
  artifacts of a run behind it (\<open>app/api\<close>).  Clerk, Trigger.dev, Browserbase and Liveblocks are
  parameters.
\<close>

section \<open>The session and the organization\<close>

text \<open>
  What Clerk's \<open>auth()\<close> returns; \<open>has\<close> is \<open>None\<close> when the function is missing and else the answer
  to \<open>has({ plan: "pro" })\<close>.  Successive calls of one request may see different tokens: \<open>sessions k\<close>
  is what the \<open>k\<close>-th call returns.
\<close>

record session =
  se_userId :: "string option"
  se_orgId :: "string option"
  se_has_pro :: "bool option"

definition has_pro :: "session \<Rightarrow> bool" where
  "has_pro s \<longleftrightarrow> se_has_pro s = Some True"

text \<open>The result and the number of the next call.\<close>

definition readAuthWithRetry :: "(nat \<Rightarrow> session) \<Rightarrow> nat \<Rightarrow> session \<times> nat" where
  "readAuthWithRetry sessions k =
     (let result = sessions k in
      if \<not> truthy (se_userId result) then (sessions (Suc k), Suc (Suc k)) else (result, Suc k))"

datatype auth_error = NotAuthenticated | NoActiveOrganization | ClerkError string

text \<open>
  \<open>members u\<close> is the first page of the user's memberships (the id of each organization, if any), or
  Clerk's error.
\<close>

definition resolveActiveOrgId ::
    "(nat \<Rightarrow> session) \<Rightarrow> (string \<Rightarrow> string + string option list) \<Rightarrow> nat \<Rightarrow> (auth_error + string) \<times> nat" where
  "resolveActiveOrgId sessions members k =
     (let (s, k') = readAuthWithRetry sessions k in
      (case or_undef (nullish (se_userId s) []) of
         None \<Rightarrow> Inl NotAuthenticated
       | Some userId \<Rightarrow>
           (case or_undef (nullish (se_orgId s) []) of
              Some orgId \<Rightarrow> Inr orgId
            | None \<Rightarrow>
                (case members userId of
                   Inl e \<Rightarrow> Inl (ClerkError e)
                 | Inr memberships \<Rightarrow>
                     let fallbackOrgId = (case memberships of [] \<Rightarrow> None | m # _ \<Rightarrow> m) in
                     if \<not> truthy fallbackOrgId then Inl NoActiveOrganization
                     else Inr (nullish fallbackOrgId []))), k'))"

section \<open>Access to a run\<close>

text \<open>
  What Trigger.dev returns for a run: the payload set by the server when the run was started, and
  the Browserbase session in the output and in the live metadata.
\<close>

record trigger_run =
  tr_workflowId :: "string option"
  tr_orgId :: "string option"
  tr_outputSession :: "string option"
  tr_metadataSession :: "string option"

datatype access = Granted engine | Denied nat string

text \<open>\<open>scope\<close> is only logged.\<close>

definition deny :: "nat \<Rightarrow> string \<Rightarrow> access" where
  "deny status reason = Denied status reason"

text \<open>
  \<open>retrieve\<close> is \<open>runs.retrieve\<close>, \<open>None\<close> when it throws; \<open>app\<close> is the application's database as the
  workflow query finds it, \<open>evo1\<close> and \<open>evo2\<close> the Phase-2 store as the two run queries find it.
\<close>

definition authorizeRunAccess ::
    "(string \<Rightarrow> trigger_run option) \<Rightarrow> store \<Rightarrow> store \<Rightarrow> store \<Rightarrow>
     string \<Rightarrow> string \<Rightarrow> string option \<Rightarrow> db_error + access" where
  "authorizeRunAccess retrieve app evo1 evo2 orgId runId sessionId =
     (case retrieve runId of
        Some run \<Rightarrow>
          if tr_orgId run \<noteq> Some orgId \<or> \<not> truthy (tr_workflowId run)
          then Inr (deny 403 ''run belongs to another org'')
          else
            (case app of
               Inl e \<Rightarrow> Inl e
             | Inr d \<Rightarrow>
                 (case getWorkflow orgId (nullish (tr_workflowId run) []) d of
                    None \<Rightarrow> Inr (deny 403 ''workflow not found in org'')
                  | Some workflow \<Rightarrow>
                      let runSessionId = nullish_opt (tr_outputSession run) (tr_metadataSession run) in
                      if sessionId \<noteq> None \<and> runSessionId \<noteq> sessionId
                      then Inr (deny 403 ''session does not belong to run'')
                      else Inr (Granted Legacy)))
      | None \<Rightarrow>
          let evoOrgId = getEvoRunOrgId runId evo1 in
          if \<not> truthy evoOrgId then Inr (deny 404 ''run not found'')
          else if evoOrgId \<noteq> Some orgId then Inr (deny 403 ''run belongs to another org'')
          else if sessionId \<noteq> None \<and> getEvoRunBrowserbaseSessionId orgId runId evo2 \<noteq> sessionId
          then Inr (deny 403 ''session does not belong to run'')
          else Inr (Granted Evo))"

section \<open>Routes\<close>

datatype 'a reply_body =
    ErrorBody string
  | TextBody string
  | NoBody
  | Body 'a

record 'a http =
  h_status :: nat
  h_body :: "'a reply_body"

definition reply :: "nat \<Rightarrow> 'a reply_body \<Rightarrow> 'a http" where
  "reply s b = \<lparr>h_status = s, h_body = b\<rparr>"

text \<open>
  The prologue every route shares: sign-in, then the organization, any failure of which is a 401.
  The routes differ in whether they answer in JSON or in text.
\<close>

definition signed_in ::
    "(nat \<Rightarrow> session) \<Rightarrow> (string \<Rightarrow> string + string option list) \<Rightarrow>
     (session \<times> string) option" where
  "signed_in sessions members =
     (let (s, k) = readAuthWithRetry sessions 0 in
      if \<not> truthy (se_userId s) then None
      else case fst (resolveActiveOrgId sessions members k) of
             Inl _ \<Rightarrow> None
           | Inr orgId \<Rightarrow> Some (s, orgId))"

definition denied_json :: "nat \<Rightarrow> 'a http" where
  "denied_json s = (if s = 404 then reply 404 (ErrorBody ''Run not found.'')
     else reply 403 (ErrorBody ''Forbidden''))"

definition denied_text :: "nat \<Rightarrow> 'a http" where
  "denied_text s = (if s = 404 then reply 404 (TextBody ''Run not found.'')
     else reply 403 (TextBody ''Forbidden''))"

record access_env =
  ae_sessions :: "nat \<Rightarrow> session"
  ae_members :: "string \<Rightarrow> string + string option list"
  ae_retrieve :: "string \<Rightarrow> trigger_run option"
  ae_app :: store
  ae_evo1 :: store
  ae_evo2 :: store

definition authorize :: "access_env \<Rightarrow> string \<Rightarrow> string \<Rightarrow> string option \<Rightarrow> db_error + access" where
  "authorize env orgId runId sessionId =
     authorizeRunAccess (ae_retrieve env) (ae_app env) (ae_evo1 env) (ae_evo2 env)
       orgId runId sessionId"

text \<open>An exception that leaves a route: the framework answers with a 500.\<close>

datatype route_error = StoreThrew db_error | ApiThrew string

text \<open>\<open>GET /api/live-view/[sessionId]\<close>; \<open>debug\<close> is Browserbase's call, with the
  debugger URL and its full-screen form, \<open>None\<close> when it throws.\<close>

definition live_view_GET ::
    "access_env \<Rightarrow> (string \<Rightarrow> (string \<times> string) option) \<Rightarrow> string \<Rightarrow> string option \<Rightarrow>
     route_error + (string \<times> string) http" where
  "live_view_GET env debug sessionId runId =
     (case signed_in (ae_sessions env) (ae_members env) of
        None \<Rightarrow> Inr (reply 401 (ErrorBody ''Unauthorized''))
      | Some (s, orgId) \<Rightarrow>
          if \<not> truthy runId then Inr (reply 400 (ErrorBody ''Missing runId query parameter.''))
          else
            (case authorize env orgId (nullish runId []) (Some sessionId) of
               Inl e \<Rightarrow> Inl (StoreThrew e)
             | Inr (Denied status reason) \<Rightarrow> Inr (denied_json status)
             | Inr (Granted engine) \<Rightarrow>
                 (case debug sessionId of
                    Some urls \<Rightarrow> Inr (reply 200 (Body urls))
                  | None \<Rightarrow> Inr (reply 404 (ErrorBody ''Live view unavailable for this session.'')))))"

text \<open>
  \<open>POST /api/live-view/[sessionId]/connected\<close>: the response and the two stores after the handshake,
  which is written where the engine of the run polls for it.
\<close>

definition connected_POST ::
    "access_env \<Rightarrow> int \<Rightarrow> string \<Rightarrow> string option \<Rightarrow> store \<times> store \<Rightarrow>
     (route_error + bool http) \<times> store \<times> store" where
  "connected_POST env now sessionId runId = (\<lambda>(neon, phase2).
     (case signed_in (ae_sessions env) (ae_members env) of
        None \<Rightarrow> (Inr (reply 401 (ErrorBody ''Unauthorized'')), neon, phase2)
      | Some (s, orgId) \<Rightarrow>
          if \<not> truthy runId
          then (Inr (reply 400 (ErrorBody ''Missing runId query parameter.'')), neon, phase2)
          else
            (case authorize env orgId (nullish runId []) (Some sessionId) of
               Inl e \<Rightarrow> (Inl (StoreThrew e), neon, phase2)
             | Inr (Denied status reason) \<Rightarrow> (Inr (denied_json status), neon, phase2)
             | Inr (Granted Legacy) \<Rightarrow>
                 (case neon of
                    Inl e \<Rightarrow> (Inl (StoreThrew e), neon, phase2)
                  | Inr d \<Rightarrow> (Inr (reply 200 (Body True)),
                      Inr (markLiveViewConnected now sessionId runId d), phase2))
             | Inr (Granted Evo) \<Rightarrow>
                 (Inr (reply 200 (Body True)), neon,
                  markEvoLiveViewConnected now sessionId runId phase2))))"

text \<open>
  \<open>GET /api/replays/[sessionId]\<close>.  \<open>retrieve\<close> gives the ids of the recorded pages and \<open>page\<close> the
  playlist of one of them.
\<close>

datatype browserbase_error = NotFoundError | OtherError string

definition replay_GET ::
    "access_env \<Rightarrow> (string \<Rightarrow> browserbase_error + string list) \<Rightarrow>
     (string \<Rightarrow> string \<Rightarrow> browserbase_error + string) \<Rightarrow> string \<Rightarrow> string option \<Rightarrow>
     route_error + string http" where
  "replay_GET env retrieve page sessionId runId =
     (let failed = (\<lambda>e. case e of NotFoundError \<Rightarrow> Inr (reply 202 NoBody)
                               | OtherError m \<Rightarrow> Inl (ApiThrew m))
      in case signed_in (ae_sessions env) (ae_members env) of
        None \<Rightarrow> Inr (reply 401 (TextBody ''Unauthorized''))
      | Some (s, orgId) \<Rightarrow>
          if \<not> truthy runId then Inr (reply 400 (TextBody ''Missing runId query parameter.''))
          else if \<not> has_pro s then Inr (reply 403 (TextBody ''Pro plan required''))
          else
            (case authorize env orgId (nullish runId []) (Some sessionId) of
               Inl e \<Rightarrow> Inl (StoreThrew e)
             | Inr (Denied status reason) \<Rightarrow> Inr (denied_text status)
             | Inr (Granted engine) \<Rightarrow>
                 (case retrieve sessionId of
                    Inl e \<Rightarrow> failed e
                  | Inr [] \<Rightarrow> Inr (reply 202 NoBody)
                  | Inr (firstPage # _) \<Rightarrow>
                      (case page sessionId firstPage of
                         Inl e \<Rightarrow> failed e
                       | Inr m3u8 \<Rightarrow> Inr (reply 200 (Body m3u8))))))"

text \<open>
  \<open>GET /api/runs/[runId]/screenshot\<close>: \<open>app2\<close> and \<open>evo3\<close> are the stores at the artifact query,
  \<open>decode\<close> is Base64.
\<close>

definition screenshot_GET ::
    "access_env \<Rightarrow> store \<Rightarrow> store \<Rightarrow> (string \<Rightarrow> nat list) \<Rightarrow> string \<Rightarrow> route_error + (nat list) http" where
  "screenshot_GET env app2 evo3 decode runId =
     (case signed_in (ae_sessions env) (ae_members env) of
        None \<Rightarrow> Inr (reply 401 (ErrorBody ''Unauthorized''))
      | Some (s, orgId) \<Rightarrow>
          (case authorize env orgId runId None of
             Inl e \<Rightarrow> Inl (StoreThrew e)
           | Inr (Denied status reason) \<Rightarrow> Inr (denied_json status)
           | Inr (Granted engine) \<Rightarrow>
               bind_res
                 (case engine of
                    Legacy \<Rightarrow> (case app2 of Inl e \<Rightarrow> Inl (StoreThrew e)
                                        | Inr d \<Rightarrow> Inr (getRunArtifact orgId runId d))
                  | Evo \<Rightarrow> Inr (getEvoRunArtifact orgId runId evo3))
                 (\<lambda>artifact.
                    let screenshotBase64 = Option.bind artifact ra_screenshotBase64 in
                    if \<not> truthy screenshotBase64
                    then Inr (reply 404 (ErrorBody ''No screenshot available for this run.''))
                    else Inr (reply 200 (Body (decode (nullish screenshotBase64 [])))))))"

text \<open>\<open>GET /api/runs/[runId]/events\<close>; \<open>None\<close> is the 401.\<close>

definition events_GET ::
    "access_env \<Rightarrow> (string \<Rightarrow> raw_event option) \<Rightarrow> string \<Rightarrow> string option \<Rightarrow> sse_env \<Rightarrow>
     (db_error + sse_response) option" where
  "events_GET env parse_event runId lastEventId sse =
     (case signed_in (ae_sessions env) (ae_members env) of
        None \<Rightarrow> None
      | Some (s, orgId) \<Rightarrow> Some (buildEvoRunEventsResponse parse_event runId orgId lastEventId sse))"

section \<open>Collaboration routes\<close>

record profile =
  pr_id :: string
  pr_fullName :: "string option"
  pr_username :: "string option"
  pr_primaryEmail :: "string option"
  pr_imageUrl :: string

record user_info =
  ui_name :: string
  ui_avatar :: string

definition display_info :: "profile \<Rightarrow> user_info" where
  "display_info u =
     \<lparr>ui_name = nullish (nullish_opt (pr_fullName u) (nullish_opt (pr_username u) (pr_primaryEmail u)))
                  ''Anonymous'',
      ui_avatar = pr_imageUrl u\<rparr>"

text \<open>
  \<open>POST /api/liveblocks/auth\<close>; \<open>identify userId groupIds organizationId info\<close> is the Liveblocks call,
  whose status and body are passed on.
\<close>

definition liveblocks_auth_POST ::
    "access_env \<Rightarrow> profile option \<Rightarrow> (string \<Rightarrow> string list \<Rightarrow> string \<Rightarrow> user_info \<Rightarrow> nat \<times> string) \<Rightarrow>
     string http" where
  "liveblocks_auth_POST env currentUser identify =
     (case signed_in (ae_sessions env) (ae_members env) of
        None \<Rightarrow> reply 401 (TextBody ''Unauthorized'')
      | Some (s, orgId) \<Rightarrow>
          (case currentUser of
             None \<Rightarrow> reply 401 (TextBody ''Unauthorized'')
           | Some user \<Rightarrow>
               let (status, body) = identify (nullish (se_userId s) []) [orgId] orgId (display_info user)
               in reply status (Body body)))"

text \<open>
  \<open>POST /api/liveblocks/users\<close>: \<open>body\<close> is the parsed request body, \<open>None\<close> when it is not JSON;
  \<open>userList ids orgs limit\<close> is Clerk's listing.  Reading a property of \<open>null\<close> throws inside the
  same \<open>try\<close>; any other value that has no such property gives undefined.
\<close>

definition body_userIds :: "jsval option \<Rightarrow> jsval option" where
  "body_userIds body =
     (case body of
        None \<Rightarrow> None
      | Some v \<Rightarrow>
          if is_nullish v then None
          else Some (case v of JObj ps \<Rightarrow> nullish (map_of ps ''userIds'') JUndef | _ \<Rightarrow> JUndef))"

fun string_ids :: "jsval list \<Rightarrow> string list option" where
  "string_ids [] = Some []"
| "string_ids (JStr s # vs) = map_option (\<lambda>ids. s # ids) (string_ids vs)"
| "string_ids (v # vs) = None"

definition liveblocks_users_POST ::
    "access_env \<Rightarrow> (string list \<Rightarrow> string list \<Rightarrow> nat \<Rightarrow> profile list) \<Rightarrow> jsval option \<Rightarrow>
     user_info option list http" where
  "liveblocks_users_POST env userList body =
     (case signed_in (ae_sessions env) (ae_members env) of
        None \<Rightarrow> reply 401 (TextBody ''Unauthorized'')
      | Some (s, orgId) \<Rightarrow>
          (case body_userIds body of
             None \<Rightarrow> reply 400 (TextBody ''Invalid JSON body'')
           | Some userIds \<Rightarrow>
               (case (case userIds of JArr vs \<Rightarrow> string_ids vs | _ \<Rightarrow> None) of
                  None \<Rightarrow> reply 400 (TextBody ''Expected { userIds: string[] }'')
                | Some ids \<Rightarrow>
                    if length ids = 0 then reply 200 (Body [])
                    else
                      let users = userList ids [orgId] (length ids);
                          usersById = foldl (\<lambda>m u. m(pr_id u \<mapsto> u)) Map.empty users
                      in reply 200 (Body (map (\<lambda>i. map_option display_info (usersById i)) ids)))))"

section \<open>What a grant means\<close>

lemma getEvoRunOrgId_Some:
  assumes "db_keys d"
  shows "getEvoRunOrgId i (Inr d) = Some orgId \<longleftrightarrow> (\<exists>r \<in> set (db_runs d). wr_id r = i \<and> wr_orgId r = orgId)"
  using select_one_key [OF keys_of(6) [OF assms]]
  by (auto simp: getEvoRunOrgId_def dest!: select_one_Some)

lemma getEvoRunSession:
  assumes "db_keys d" and "r \<in> set (db_runs d)"
  shows "getEvoRunBrowserbaseSessionId (wr_orgId r) (wr_id r) (Inr d) = wr_browserbaseSessionId r"
  using select_one_key_and [OF keys_of(6) [OF assms(1)] assms(2), of "\<lambda>x. wr_orgId x = wr_orgId r"]
  by (simp add: getEvoRunBrowserbaseSessionId_def)

definition owns_run ::
    "access_env \<Rightarrow> string \<Rightarrow> string \<Rightarrow> string option \<Rightarrow> engine \<Rightarrow> bool" where
  "owns_run env orgId runId sessionId e \<longleftrightarrow>
     (case e of
        Legacy \<Rightarrow> \<exists>t a w. ae_retrieve env runId = Some t \<and> tr_orgId t = Some orgId \<and>
          ae_app env = Inr a \<and> w \<in> set (db_workflows a) \<and> wf_orgId w = orgId \<and>
          tr_workflowId t = Some (wf_id w) \<and> wf_id w \<noteq> [] \<and>
          (sessionId \<noteq> None \<longrightarrow> nullish_opt (tr_outputSession t) (tr_metadataSession t) = sessionId)
      | Evo \<Rightarrow> \<exists>d r. ae_retrieve env runId = None \<and> ae_evo1 env = Inr d \<and> r \<in> set (db_runs d) \<and>
          wr_id r = runId \<and> wr_orgId r = orgId \<and> orgId \<noteq> [] \<and>
          (sessionId \<noteq> None \<longrightarrow> wr_browserbaseSessionId r = sessionId))"

lemma getWorkflow_found:
  "(\<exists>row. getWorkflow orgId i d = Some row) \<longleftrightarrow>
     (\<exists>w \<in> set (db_workflows d). wf_id w = i \<and> wf_orgId w = orgId)"
  using select_one_None [of "owns_workflow orgId i" "db_workflows d"]
  by (auto simp: getWorkflow_def owns_workflow_def simp del: select_one_None)

lemma access_legacy:
  assumes "ae_retrieve env runId = Some t" and "ae_app env = Inr a" and "tr_workflowId t = Some i"
  shows "authorize env orgId runId sessionId = Inr (Granted e) \<longleftrightarrow>
    e = Legacy \<and> tr_orgId t = Some orgId \<and> i \<noteq> [] \<and> (\<exists>row. getWorkflow orgId i a = Some row) \<and>
    (sessionId \<noteq> None \<longrightarrow> nullish_opt (tr_outputSession t) (tr_metadataSession t) = sessionId)"
  using assms
  by (cases "getWorkflow orgId i a")
    (simp_all add: authorize_def authorizeRunAccess_def deny_def Let_def, auto)

lemma access_evo:
  assumes "ae_retrieve env runId = None" and "ae_evo1 env = Inr d" and "ae_evo2 env = Inr d"
  shows "authorize env orgId runId sessionId = Inr (Granted e) \<longleftrightarrow>
    e = Evo \<and> orgId \<noteq> [] \<and> getEvoRunOrgId runId (Inr d) = Some orgId \<and>
    (sessionId \<noteq> None \<longrightarrow> getEvoRunBrowserbaseSessionId orgId runId (Inr d) = sessionId)"
  using assms
  by (cases "getEvoRunOrgId runId (Inr d)")
    (simp_all add: authorize_def authorizeRunAccess_def deny_def Let_def, auto)

lemma evo_row:
  assumes "db_keys d"
  shows "getEvoRunOrgId runId (Inr d) = Some orgId \<and>
      (sessionId \<noteq> None \<longrightarrow> getEvoRunBrowserbaseSessionId orgId runId (Inr d) = sessionId) \<longleftrightarrow>
    (\<exists>r \<in> set (db_runs d). wr_id r = runId \<and> wr_orgId r = orgId \<and>
      (sessionId \<noteq> None \<longrightarrow> wr_browserbaseSessionId r = sessionId))"
  unfolding getEvoRunOrgId_Some [OF assms] using getEvoRunSession [OF assms] by fastforce

text \<open>
  C23. Access to a run is granted exactly to its owner: for a legacy run to the organization of the
  payload, provided its workflow still exists there, for an Evo run to the organization of the run
  row, and only for the Browserbase session the run drove when one is asked for.
\<close>

theorem access_exact:
  assumes "\<And>d. ae_evo1 env = Inr d \<Longrightarrow> db_keys d" and "ae_evo2 env = ae_evo1 env"
  shows "authorize env orgId runId sessionId = Inr (Granted e) \<longleftrightarrow> owns_run env orgId runId sessionId e"
proof (cases "ae_retrieve env runId")
  case None
  show ?thesis
  proof (cases "ae_evo1 env")
    case (Inl x)
    then show ?thesis using None
      by (cases e) (simp_all add: authorize_def authorizeRunAccess_def owns_run_def deny_def getEvoRunOrgId_def)
  next
    case (Inr d)
    note keys = assms(1) [OF Inr]
    have evo2: "ae_evo2 env = Inr d" using assms(2) Inr by simp
    show ?thesis
      unfolding access_evo [OF None Inr evo2] using evo_row [OF keys, of runId orgId sessionId]
      by (cases e) (auto simp: owns_run_def None Inr)
  qed
next
  case (Some t)
  show ?thesis
  proof (cases "ae_app env")
    case (Inl x)
    then show ?thesis using Some
      by (cases e) (auto simp: authorize_def authorizeRunAccess_def owns_run_def deny_def)
  next
    case (Inr a)
    show ?thesis
    proof (cases "tr_workflowId t")
      case None
      then show ?thesis using Some Inr
        by (cases e) (auto simp: authorize_def authorizeRunAccess_def owns_run_def deny_def)
    next
      case wf: (Some i)
      show ?thesis
        unfolding access_legacy [OF Some Inr wf] getWorkflow_found
        by (cases e) (auto simp: owns_run_def Some Inr wf)
    qed
  qed
qed

text \<open>
  The check throws exactly when Trigger.dev knows the run as one of the caller's organization
  and the application's database cannot be reached; every other failure of a store or provider is
  the denial an unknown run gets.
\<close>

theorem access_throws_exact:
  "authorize env orgId runId sessionId = Inl e \<longleftrightarrow>
     (\<exists>t. ae_retrieve env runId = Some t \<and> tr_orgId t = Some orgId \<and> truthy (tr_workflowId t) \<and>
        ae_app env = Inl e)"
  by (cases "ae_retrieve env runId"; cases "ae_app env")
    (auto simp: authorize_def authorizeRunAccess_def deny_def Let_def split: option.splits)

section \<open>What a signed-in request is\<close>

lemma retry_cases: "fst (readAuthWithRetry f k) \<in> {f k, f (Suc k)}"
  by (simp add: readAuthWithRetry_def Let_def)

text \<open>
  A request passes the prologue of the routes only when a user is signed in, and then acts for
  an organization that one of the tokens of that request claims or that is the first of the
  memberships of the user of one of these tokens.
\<close>

theorem signed_in_sound:
  assumes "signed_in sessions members = Some (s, orgId)"
  shows "truthy (se_userId s) \<and> orgId \<noteq> [] \<and> s \<in> {sessions 0, sessions 1} \<and>
    (\<exists>k \<in> {1, 2, 3}. truthy (se_userId (sessions k)) \<and>
       (se_orgId (sessions k) = Some orgId \<or>
        (\<exists>ms. members (nullish (se_userId (sessions k)) []) = Inr (Some orgId # ms))))"
proof -
  obtain s' k where r: "readAuthWithRetry sessions 0 = (s', k)" by (cases "readAuthWithRetry sessions 0")
  then have k: "k \<in> {1, 2}" "s' \<in> {sessions 0, sessions 1}"
    by (auto simp: readAuthWithRetry_def Let_def split: if_splits)
  have s: "s' = s" "truthy (se_userId s)" and org: "fst (resolveActiveOrgId sessions members k) = Inr orgId"
    using assms r by (auto simp: signed_in_def split: if_splits sum.splits)
  obtain t k' where t: "readAuthWithRetry sessions k = (t, k')" by (cases "readAuthWithRetry sessions k")
  then have tk: "t \<in> {sessions k, sessions (Suc k)}" using retry_cases [of sessions k] by simp
  have "truthy (se_userId t) \<and> orgId \<noteq> [] \<and> (se_orgId t = Some orgId \<or>
      (\<exists>ms. members (nullish (se_userId t) []) = Inr (Some orgId # ms)))"
    using org t
    by (cases "se_userId t"; cases "se_orgId t")
      (auto simp: resolveActiveOrgId_def or_undef_def Let_def truthy_iff split: if_splits sum.splits list.splits option.splits)
  then show ?thesis using s k tk by (auto simp: numeral_2_eq_2 numeral_3_eq_3)
qed

section \<open>The routes serve owners only\<close>

lemma reply_fields [simp]:
  "h_status (denied_json n) = (if n = 404 then 404 else 403)"
  "h_status (denied_text n) = (if n = 404 then 404 else 403)"
  "h_status (reply n b) = n" "h_body (reply n b) = b"
  by (simp_all add: denied_json_def denied_text_def reply_def)

lemma live_view_ok:
  assumes "live_view_GET env debug sessionId runId = Inr h" and "h_status h = 200"
  shows "\<exists>s orgId i e. signed_in (ae_sessions env) (ae_members env) = Some (s, orgId) \<and> runId = Some i \<and>
    authorize env orgId i (Some sessionId) = Inr (Granted e)"
  using assms
  by (cases runId) (auto simp: live_view_GET_def split: option.splits if_splits sum.splits access.splits)

lemma replay_ok:
  assumes "replay_GET env retrieve page sessionId runId = Inr h" and "h_status h \<in> {200, 202}"
  shows "\<exists>s orgId i e. signed_in (ae_sessions env) (ae_members env) = Some (s, orgId) \<and> runId = Some i \<and>
    has_pro s \<and> authorize env orgId i (Some sessionId) = Inr (Granted e)"
  using assms
  by (cases runId) (auto simp: replay_GET_def Let_def split: option.splits if_splits sum.splits access.splits)

lemma screenshot_ok:
  assumes "screenshot_GET env app2 evo3 decode runId = Inr h" and "h_status h = 200"
  shows "\<exists>s orgId e. signed_in (ae_sessions env) (ae_members env) = Some (s, orgId) \<and>
    authorize env orgId runId None = Inr (Granted e)"
  using assms
  by (auto simp: screenshot_GET_def split: option.splits if_splits sum.splits access.splits)

lemma connected_writes:
  assumes "connected_POST env now sessionId runId (neon, phase2) = (r, neon', phase2')"
    and "neon' \<noteq> neon \<or> phase2' \<noteq> phase2"
  shows "\<exists>s orgId i e. signed_in (ae_sessions env) (ae_members env) = Some (s, orgId) \<and> runId = Some i \<and>
    authorize env orgId i (Some sessionId) = Inr (Granted e) \<and>
    (case e of Legacy \<Rightarrow> phase2' = phase2 | Evo \<Rightarrow> neon' = neon)"
  using assms
  by (cases runId) (auto simp: connected_POST_def split: option.splits if_splits sum.splits access.splits engine.splits)

text \<open>
  C5. Behind every artifact route stands an owner: a live view, a recording (or the promise of
  one) and a screenshot are only served, and a handshake is only written, for a signed-in member
  of the organization that owns the run, and, but for the screenshot, for the session that run
  drove; a recording needs the Pro plan, and a handshake touches only the store of the engine the
  run belongs to.
\<close>

theorem artifacts_for_owner_only:
  assumes "\<And>d. ae_evo1 env = Inr d \<Longrightarrow> db_keys d" and "ae_evo2 env = ae_evo1 env"
  shows
    "(live_view_GET env debug sessionId runId = Inr h \<and> h_status h = 200 \<longrightarrow>
       (\<exists>s orgId i e. signed_in (ae_sessions env) (ae_members env) = Some (s, orgId) \<and>
          runId = Some i \<and> owns_run env orgId i (Some sessionId) e)) \<and>
     (replay_GET env retrieve page sessionId runId = Inr h' \<and> h_status h' \<in> {200, 202} \<longrightarrow>
       (\<exists>s orgId i e. signed_in (ae_sessions env) (ae_members env) = Some (s, orgId) \<and>
          runId = Some i \<and> has_pro s \<and> owns_run env orgId i (Some sessionId) e)) \<and>
     (screenshot_GET env app2 evo3 decode j = Inr h'' \<and> h_status h'' = 200 \<longrightarrow>
       (\<exists>s orgId e. signed_in (ae_sessions env) (ae_members env) = Some (s, orgId) \<and>
          owns_run env orgId j None e)) \<and>
     (connected_POST env now sessionId runId (neon, phase2) = (r, neon', phase2') \<and>
      (neon' \<noteq> neon \<or> phase2' \<noteq> phase2) \<longrightarrow>
       (\<exists>s orgId i e. signed_in (ae_sessions env) (ae_members env) = Some (s, orgId) \<and>
          runId = Some i \<and> owns_run env orgId i (Some sessionId) e \<and>
          (case e of Legacy \<Rightarrow> phase2' = phase2 | Evo \<Rightarrow> neon' = neon)))"
proof -
  have exact: "\<And>orgId i s e. authorize env orgId i s = Inr (Granted e) \<longleftrightarrow> owns_run env orgId i s e"
    by (rule access_exact) (use assms in auto)
  note live_view = live_view_ok [of env debug sessionId runId h, unfolded exact]
    and replay = replay_ok [of env retrieve page sessionId runId h', unfolded exact]
    and screenshot = screenshot_ok [of env app2 evo3 decode j h'', unfolded exact]
    and connected = connected_writes [of env now sessionId runId neon phase2 r neon' phase2', unfolded exact]
  show ?thesis
    by (intro conjI impI; elim conjE; (rule live_view replay screenshot connected; assumption)?)
qed

text \<open>
  The names shown in a shared canvas are only those Clerk lists for the caller's organization:
  one entry per requested id, in order, and an id that is not in that listing gets none.
\<close>

lemma users_by_id:
  "foldl (\<lambda>m u. m(pr_id u \<mapsto> u)) m0 us i = (case List.find (\<lambda>u. pr_id u = i) (rev us) of Some u \<Rightarrow> Some u | None \<Rightarrow> m0 i)"
  by (induction us arbitrary: m0 rule: rev_induct) auto

theorem user_names_org_scoped:
  assumes "liveblocks_users_POST env userList (Some (JObj [(''userIds'', JArr (map JStr ids))])) = r"
    and "signed_in (ae_sessions env) (ae_members env) = Some (s, orgId)" and "ids \<noteq> []"
  shows "\<exists>infos. r = reply 200 (Body infos) \<and> length infos = length ids \<and>
    (\<forall>n < length ids. (case infos ! n of
        None \<Rightarrow> ids ! n \<notin> pr_id ` set (userList ids [orgId] (length ids))
      | Some info \<Rightarrow> \<exists>u \<in> set (userList ids [orgId] (length ids)). pr_id u = ids ! n \<and> info = display_info u))"
proof -
  have ids: "string_ids (map JStr ids) = Some ids" by (induction ids) auto
  let ?us = "userList ids [orgId] (length ids)"
  let ?find = "\<lambda>i. List.find (\<lambda>u. pr_id u = i) (rev ?us)"
  let ?infos = "map (\<lambda>i. map_option display_info (?find i)) ids"
  have "foldl (\<lambda>m u. m(pr_id u \<mapsto> u)) Map.empty ?us i = ?find i" for i
    by (cases "?find i") (simp_all add: users_by_id)
  then have r: "r = reply 200 (Body ?infos)"
    using assms ids by (simp add: liveblocks_users_POST_def body_userIds_def Let_def)
  have "case ?infos ! n of None \<Rightarrow> ids ! n \<notin> pr_id ` set ?us
      | Some info \<Rightarrow> \<exists>u \<in> set ?us. pr_id u = ids ! n \<and> info = display_info u" if "n < length ids" for n
  proof (cases "?find (ids ! n)")
    case None
    then have "ids ! n \<notin> pr_id ` set ?us" using find_NoneD [OF None] by force
    then show ?thesis using that None by simp
  next
    case (Some u)
    then show ?thesis using that find_SomeD [OF Some] by auto
  qed
  then show ?thesis using r by (intro exI [of _ ?infos]) simp
qed

section \<open>A concrete request\<close>

definition demo_evo :: db where
  "demo_evo = demo_versions\<lparr>db_runs := [(new_run demo_run_args 5)\<lparr>wr_browserbaseSessionId := Some ''s1''\<rparr>]\<rparr>"

definition demo_env :: access_env where
  "demo_env = \<lparr>ae_sessions = (\<lambda>k. \<lparr>se_userId = Some ''u'', se_orgId = (if k = 0 then None else Some ''org''),
       se_has_pro = Some True\<rparr>),
     ae_members = (\<lambda>u. Inr []), ae_retrieve = (\<lambda>i. None), ae_app = Inr empty_db,
     ae_evo1 = Inr demo_evo, ae_evo2 = Inr demo_evo\<rparr>"

lemma demo_env_keys: "ae_evo1 demo_env = Inr d \<Longrightarrow> db_keys d" "ae_evo2 demo_env = ae_evo1 demo_env"
  by (auto simp: demo_env_def demo_evo_def demo_versions_def db_keys_def empty_db_def)

lemma demo_signed_in:
  "signed_in (ae_sessions demo_env) (ae_members demo_env) =
     Some (\<lparr>se_userId = Some ''u'', se_orgId = None, se_has_pro = Some True\<rparr>, ''org'')"
  by (simp add: signed_in_def readAuthWithRetry_def resolveActiveOrgId_def demo_env_def or_undef_def Let_def)

theorem access_exact_witness:
  "authorize demo_env ''org'' ''evo_1'' (Some ''s1'') = Inr (Granted Evo)"
  by (subst access_exact [OF demo_env_keys])
    (auto simp: owns_run_def demo_env_def demo_evo_def new_run_def demo_run_args_def)

theorem signed_in_sound_witness: "''org'' \<noteq> []"
  using signed_in_sound [OF demo_signed_in] by simp

lemma demo_live_view:
  "live_view_GET demo_env (\<lambda>s. Some (''d'', ''f'')) ''s1'' (Some ''evo_1'') = Inr (reply 200 (Body (''d'', ''f'')))"
proof -
  have "authorize demo_env ''org'' ''evo_1'' (Some ''s1'') = Inr (Granted Evo)"
    by (simp add: authorize_def authorizeRunAccess_def demo_env_def demo_evo_def new_run_def demo_run_args_def
        getEvoRunOrgId_def getEvoRunBrowserbaseSessionId_def Let_def)
  then show ?thesis by (simp add: live_view_GET_def demo_signed_in)
qed

theorem artifacts_for_owner_only_witness:
  "\<exists>e. owns_run demo_env ''org'' ''evo_1'' (Some ''s1'') e"
  using artifacts_for_owner_only [OF demo_env_keys, where debug = "\<lambda>s. Some (''d'', ''f'')" and sessionId = "''s1''"
      and runId = "Some ''evo_1''" and h = "reply 200 (Body (''d'', ''f''))", THEN conjunct1]
    demo_live_view demo_signed_in by auto

theorem user_names_org_scoped_witness:
  "\<exists>infos. liveblocks_users_POST demo_env (\<lambda>ids orgs n. []) (Some (JObj [(''userIds'', JArr (map JStr [''x'']))])) =
     reply 200 (Body infos) \<and> length infos = 1"
  using user_names_org_scoped [OF refl demo_signed_in, of "[''x'']" "\<lambda>ids orgs n. []"] by auto

end
