(* ===== verification/Engine.thy ===== *)
theory Engine
  imports RunRecords
begin

text \<open>
  The execution engines behind one interface: \<open>execution-engine.ts\<close> (flag and adapter cache),
  \<open>evo-engine-adapter.ts\<close>, \<open>evo-scheduler-client.ts\<close> and \<open>legacy-engine-adapter.ts\<close>, all under
  \<open>features/workflows/lib\<close>.  The scheduler service and Trigger.dev are parameters; \<open>'s\<close> is the state
  of the outside world their calls change.
\<close>

section \<open>The adapter interface\<close>

record engine_run_handle =
  eh_engine :: engine
  eh_runId :: string
  eh_providerRunId :: "string option"

record start_run_args =
  sa_orgId :: string
  sa_workflowId :: string
  sa_workflowVersionId :: "string option"
  sa_graph :: workflow_graph
  sa_runId :: "string option"

datatype engine_status = EQueued | ERunning | ESucceeded | EFailed | ECanceled | EUnknown

record engine_run_status =
  es_runId :: string
  es_engine :: engine
  es_status :: engine_status

datatype engine_error = RpcFailed string | Rejected string

record 's adapter =
  ad_engine :: engine
  ad_startRun :: "start_run_args \<Rightarrow> 's \<Rightarrow> (engine_error + engine_run_handle) \<times> 's"
  ad_cancelRun :: "string \<Rightarrow> 's \<Rightarrow> (engine_error + unit) \<times> 's"
  ad_getRunStatus :: "string \<Rightarrow> 's \<Rightarrow> (engine_error + engine_run_status) \<times> 's"

text \<open>Every handle and every status names the engine of the adapter it came from.\<close>

locale engine_adapter =
  fixes ad :: "'s adapter"
  assumes start_engine: "ad_startRun ad a s = (Inr h, s') \<Longrightarrow> eh_engine h = ad_engine ad"
    and status_engine: "ad_getRunStatus ad i s = (Inr r, s') \<Longrightarrow>
      es_engine r = ad_engine ad \<and> es_runId r = i"
begin

lemma started_as:
  "ad_engine ad = e \<Longrightarrow> ad_startRun ad a s = (Inr h, s') \<Longrightarrow> eh_engine h = e"
  using start_engine by blast

end

section \<open>Choosing the engine\<close>

definition getExecutionEngine :: "(string \<Rightarrow> string option) \<Rightarrow> engine" where
  "getExecutionEngine env =
     (let raw = to_lower (trim (nullish (env ''EXECUTION_ENGINE'') [])) in
      if raw = ''evo'' then Evo else Legacy)"

text \<open>
  The cached adapter, as the module-level variable before and after the call; \<open>mkEvo\<close> and
  \<open>mkLegacy\<close> construct an adapter.
\<close>

definition getExecutionEngineAdapter ::
    "'s adapter \<Rightarrow> 's adapter \<Rightarrow> engine \<Rightarrow> 's adapter option \<Rightarrow> 's adapter \<times> 's adapter option" where
  "getExecutionEngineAdapter mkEvo mkLegacy engine cachedAdapter =
     (case cachedAdapter of
        Some ad \<Rightarrow>
          if ad_engine ad = engine then (ad, cachedAdapter)
          else let ad' = (if engine = Evo then mkEvo else mkLegacy) in (ad', Some ad')
      | None \<Rightarrow> let ad' = (if engine = Evo then mkEvo else mkLegacy) in (ad', Some ad'))"

section \<open>The canonical DAG\<close>

definition dag_node_json :: "string \<times> string \<times> string \<Rightarrow> jsval" where
  "dag_node_json = (\<lambda>(i, k, t). JObj [(''id'', JStr i), (''kind'', JStr k), (''type'', JStr t)])"

definition dag_edge_json :: "string \<times> string \<Rightarrow> jsval" where
  "dag_edge_json = (\<lambda>(a, b). JObj [(''from'', JStr a), (''to'', JStr b)])"

definition dag_node :: "step_node \<Rightarrow> string \<times> string \<times> string" where
  "dag_node n = (sn_id n, if sd_kind (sn_data n) = Trigger then ''trigger'' else ''action'',
     sd_type (sn_data n))"

definition dag_edge :: "edge \<Rightarrow> string \<times> string" where
  "dag_edge e = (eg_source e, eg_target e)"

definition dag_edge_cmp ::
    "(string \<Rightarrow> string \<Rightarrow> int) \<Rightarrow> string \<times> string \<Rightarrow> string \<times> string \<Rightarrow> int" where
  "dag_edge_cmp lc a b = (if fst a \<noteq> fst b then lc (fst a) (fst b) else lc (snd a) (snd b))"

definition graphToCanonicalDagJson ::
    "(string \<Rightarrow> string \<Rightarrow> int) \<Rightarrow> workflow_graph \<Rightarrow> string" where
  "graphToCanonicalDagJson lc g =
     (let nodes = map dag_node (sort_cmp (\<lambda>a b. lc (sn_id a) (sn_id b)) (wg_nodes g));
          edges = sort_cmp (dag_edge_cmp lc) (map dag_edge (wg_edges g))
      in nullish (stringify (JObj [(''nodes'', JArr (map dag_node_json nodes)),
                                   (''edges'', JArr (map dag_edge_json edges))])) [])"

section \<open>The scheduler client\<close>

record submit_request =
  sq_orgId :: string
  sq_workflowVersionId :: string
  sq_runId :: string
  sq_dagJson :: string
  sq_traceId :: string

record submit_response =
  sp_runId :: string
  sp_accepted :: bool
  sp_message :: string

record cancel_request =
  cq_runId :: string
  cq_reason :: string
  cq_traceId :: string
  cq_requestedAtMs :: "int option"

record get_response =
  gp_runId :: string
  gp_status :: string
  gp_outcome :: string

record health_response =
  hp_ok :: bool
  hp_detail :: string

text \<open>The interface the adapter needs; an RPC failure is its message.\<close>

record 's scheduler_client =
  sc_submitRun :: "submit_request \<Rightarrow> 's \<Rightarrow> (string + submit_response) \<times> 's"
  sc_cancelRun :: "cancel_request \<Rightarrow> 's \<Rightarrow> (string + bool) \<times> 's"
  sc_getRun :: "string \<Rightarrow> 's \<Rightarrow> (string + get_response) \<times> 's"
  sc_getRunDetail :: "string \<Rightarrow> 's \<Rightarrow> (string + evo_run_detail) \<times> 's"
  sc_health :: "'s \<Rightarrow> (string + health_response) \<times> 's"

text \<open>Continuing an RPC on success.\<close>

definition on_reply ::
    "(string + 'a) \<times> 's \<Rightarrow> ('a \<Rightarrow> engine_error + 'b) \<Rightarrow> (engine_error + 'b) \<times> 's" where
  "on_reply r f = (case r of (Inl e, s) \<Rightarrow> (Inl (RpcFailed e), s) | (Inr x, s) \<Rightarrow> (f x, s))"

definition engine_mapRunStatus :: "string \<Rightarrow> engine_status" where
  "engine_mapRunStatus status =
     (if status = ''RUN_QUEUED'' then EQueued
      else if status = ''RUN_RUNNING'' then ERunning
      else if status = ''RUN_SUCCEEDED'' then ESucceeded
      else if status = ''RUN_FAILED'' then EFailed
      else if status = ''RUN_CANCELED'' then ECanceled
      else EUnknown)"

text \<open>\<open>fresh\<close> is the generated run id and \<open>now\<close> the clock at the call.\<close>

definition evo_startRun ::
    "(string \<Rightarrow> string \<Rightarrow> int) \<Rightarrow> 's scheduler_client \<Rightarrow> string \<Rightarrow> start_run_args \<Rightarrow> 's \<Rightarrow>
     (engine_error + engine_run_handle) \<times> 's" where
  "evo_startRun lc client fresh a s =
     (let runId = nullish (sa_runId a) fresh;
          dagJson = graphToCanonicalDagJson lc (sa_graph a)
      in on_reply (sc_submitRun client
             \<lparr>sq_orgId = sa_orgId a, sq_workflowVersionId = nullish (sa_workflowVersionId a) [],
              sq_runId = runId, sq_dagJson = dagJson, sq_traceId = runId\<rparr> s)
           (\<lambda>resp. if \<not> sp_accepted resp then Inl (Rejected (''Evo scheduler rejected run: '' @ sp_message resp))
                   else Inr \<lparr>eh_engine = Evo, eh_runId = or_default (Some (sp_runId resp)) runId,
                             eh_providerRunId = None\<rparr>))"

definition evo_cancelRun ::
    "'s scheduler_client \<Rightarrow> int \<Rightarrow> string \<Rightarrow> 's \<Rightarrow> (engine_error + unit) \<times> 's" where
  "evo_cancelRun client now runId s =
     on_reply (sc_cancelRun client
         \<lparr>cq_runId = runId, cq_reason = ''user requested stop'', cq_traceId = runId,
          cq_requestedAtMs = Some now\<rparr> s) (\<lambda>_. Inr ())"

definition evo_getRunStatus ::
    "'s scheduler_client \<Rightarrow> string \<Rightarrow> 's \<Rightarrow> (engine_error + engine_run_status) \<times> 's" where
  "evo_getRunStatus client runId s =
     on_reply (sc_getRun client runId s)
       (\<lambda>resp. Inr \<lparr>es_runId = runId, es_engine = Evo, es_status = engine_mapRunStatus (gp_status resp)\<rparr>)"

definition createEvoEngineAdapter ::
    "(string \<Rightarrow> string \<Rightarrow> int) \<Rightarrow> 's scheduler_client \<Rightarrow> string \<Rightarrow> int \<Rightarrow> 's adapter" where
  "createEvoEngineAdapter lc client fresh now =
     \<lparr>ad_engine = Evo, ad_startRun = evo_startRun lc client fresh,
      ad_cancelRun = evo_cancelRun client now, ad_getRunStatus = evo_getRunStatus client\<rparr>"

section \<open>The legacy adapter\<close>

text \<open>\<open>trigger workflowId orgId\<close> starts a Trigger.dev run and gives its id; \<open>cancel\<close> stops one.\<close>

definition createLegacyEngineAdapter ::
    "(string \<Rightarrow> string \<Rightarrow> 's \<Rightarrow> (string + string) \<times> 's) \<Rightarrow> (string \<Rightarrow> 's \<Rightarrow> (string + unit) \<times> 's) \<Rightarrow>
     's adapter" where
  "createLegacyEngineAdapter trigger cancel =
     \<lparr>ad_engine = Legacy,
      ad_startRun = (\<lambda>a s. on_reply (trigger (sa_workflowId a) (sa_orgId a) s)
        (\<lambda>i. Inr \<lparr>eh_engine = Legacy, eh_runId = i, eh_providerRunId = Some i\<rparr>)),
      ad_cancelRun = (\<lambda>runId s. on_reply (cancel runId s) (\<lambda>_. Inr ())),
      ad_getRunStatus = (\<lambda>runId s.
        (Inr \<lparr>es_runId = runId, es_engine = Legacy, es_status = EUnknown\<rparr>, s))\<rparr>"

lemma on_reply_Inr:
  "on_reply r f = (Inr y, s) \<longleftrightarrow> (\<exists>x. r = (Inr x, s) \<and> f x = Inr y)"
  by (cases r; cases "fst r") (auto simp: on_reply_def split: sum.splits)

interpretation evo_adapter: engine_adapter "createEvoEngineAdapter lc client fresh now"
  for lc client fresh now
  by unfold_locales
    (auto simp: createEvoEngineAdapter_def evo_startRun_def evo_getRunStatus_def on_reply_Inr Let_def
      split: if_splits)

interpretation legacy_adapter: engine_adapter "createLegacyEngineAdapter trigger cancel"
  for trigger cancel
  by unfold_locales (auto simp: createLegacyEngineAdapter_def on_reply_Inr)

section \<open>The gRPC client\<close>

text \<open>
  A \<open>google.protobuf.Timestamp\<close> as the loader gives it (the numbers of its fields, a missing field
  is \<open>None\<close>) and the raw replies of the service.
\<close>

record proto_timestamp =
  pts_seconds :: "int option"
  pts_nanos :: "int option"

definition timestampToMs :: "proto_timestamp option \<Rightarrow> int option" where
  "timestampToMs ts =
     (case ts of
        None \<Rightarrow> None
      | Some t \<Rightarrow>
          let secs = nullish (pts_seconds t) 0; ns = nullish (pts_nanos t) 0 in
          if secs = 0 \<and> ns = 0 then None else Some (secs * 1000 + ns div 1000000))"

text \<open>The timestamp a cancel request carries, with \<open>Math.floor\<close> and \<open>%\<close>.\<close>

definition requested_at :: "int \<Rightarrow> proto_timestamp" where
  "requested_at ms = \<lparr>pts_seconds = Some (ms div 1000), pts_nanos = Some (js_rem ms 1000 * 1000000)\<rparr>"

record grpc_cancel =
  gc_runId :: string
  gc_reason :: string
  gc_traceId :: string
  gc_requestedAt :: "proto_timestamp option"

record raw_submit =
  rs_runId :: "string option"
  rs_accepted :: "bool option"
  rs_message :: "string option"

record raw_node =
  rn_nodeId :: "string option"
  rn_nodeType :: "string option"
  rn_state :: "string option"
  rn_attemptNumber :: "int option"
  rn_output :: "string option"
  rn_error :: "string option"
  rn_startedAt :: "proto_timestamp option"
  rn_finishedAt :: "proto_timestamp option"

record raw_run =
  rw_runId :: "string option"
  rw_status :: "string option"
  rw_outcome :: "string option"
  rw_createdAt :: "proto_timestamp option"
  rw_finishedAt :: "proto_timestamp option"
  rw_nodes :: "raw_node list option"

record raw_health =
  rh_ok :: "bool option"
  rh_detail :: "string option"

text \<open>
  The gRPC stack: the unary calls of \<open>ControlService\<close> on a channel to an address with the given
  metadata (the value of the \<open>authorization\<close> entry), and whether a channel can be loaded.
\<close>

record 's transport =
  tp_load :: "string \<Rightarrow> bool"
  tp_submit :: "string \<Rightarrow> string option \<Rightarrow> submit_request \<Rightarrow> 's \<Rightarrow> (string + raw_submit) \<times> 's"
  tp_cancel :: "string \<Rightarrow> string option \<Rightarrow> grpc_cancel \<Rightarrow> 's \<Rightarrow> (string + bool option) \<times> 's"
  tp_get :: "string \<Rightarrow> string option \<Rightarrow> string \<Rightarrow> 's \<Rightarrow> (string + raw_run) \<times> 's"
  tp_health :: "string \<Rightarrow> string option \<Rightarrow> 's \<Rightarrow> (string + raw_health) \<times> 's"

definition buildMetadata :: "(string \<Rightarrow> string option) \<Rightarrow> string option" where
  "buildMetadata env =
     (let token = env ''EVO_ENGINE_TOKEN'' in
      if truthy token then Some (''Bearer '' @ nullish token []) else None)"

text \<open>
  One unary call: the module-level \<open>cachedClient\<close> (here the address of its channel, next to the
  outside state) is used when there is one and else loaded for \<open>addr\<close>.
\<close>

definition unary ::
    "'s transport \<Rightarrow> (string \<Rightarrow> string option) \<Rightarrow> string \<Rightarrow>
     (string \<Rightarrow> string option \<Rightarrow> 's \<Rightarrow> (string + 'r) \<times> 's) \<Rightarrow> ('r \<Rightarrow> 'a) \<Rightarrow>
     's \<times> string option \<Rightarrow> (string + 'a) \<times> 's \<times> string option" where
  "unary tp env addr call k = (\<lambda>(s, cachedClient).
     (let result = (\<lambda>a. case call a (buildMetadata env) s of
                          (Inl e, s') \<Rightarrow> (Inl e, s', Some a)
                        | (Inr r, s') \<Rightarrow> (Inr (k r), s', Some a))
      in case cachedClient of
           Some a \<Rightarrow> result a
         | None \<Rightarrow> if tp_load tp addr then result addr else (Inl ''load failed'', s, None)))"

definition raw_node_status :: "raw_node \<Rightarrow> evo_node_status" where
  "raw_node_status n =
     \<lparr>en_nodeId = nullish (rn_nodeId n) [], en_nodeType = nullish (rn_nodeType n) [],
      en_state = nullish (rn_state n) ''NODE_STATE_UNSPECIFIED'',
      en_attemptNumber = nullish (rn_attemptNumber n) 1, en_output = nullish (rn_output n) [],
      en_error = nullish (rn_error n) [], en_startedAtMs = timestampToMs (rn_startedAt n),
      en_finishedAtMs = timestampToMs (rn_finishedAt n)\<rparr>"

definition raw_run_detail :: "string \<Rightarrow> raw_run \<Rightarrow> evo_run_detail" where
  "raw_run_detail runId r =
     \<lparr>ed_runId = nullish (rw_runId r) runId, ed_status = nullish (rw_status r) ''RUN_STATUS_UNSPECIFIED'',
      ed_outcome = nullish (rw_outcome r) ''OUTCOME_UNSPECIFIED'',
      ed_createdAtMs = timestampToMs (rw_createdAt r), ed_finishedAtMs = timestampToMs (rw_finishedAt r),
      ed_nodes = map raw_node_status (nullish (rw_nodes r) [])\<rparr>"

definition createGrpcEvoSchedulerClient ::
    "'s transport \<Rightarrow> (string \<Rightarrow> string option) \<Rightarrow> string \<Rightarrow> ('s \<times> string option) scheduler_client" where
  "createGrpcEvoSchedulerClient tp env addr =
     \<lparr>sc_submitRun = (\<lambda>q. unary tp env addr (\<lambda>a md. tp_submit tp a md q)
        (\<lambda>r. \<lparr>sp_runId = nullish (rs_runId r) (sq_runId q), sp_accepted = nullish (rs_accepted r) False,
              sp_message = nullish (rs_message r) []\<rparr>)),
      sc_cancelRun = (\<lambda>q. unary tp env addr
        (\<lambda>a md. tp_cancel tp a md \<lparr>gc_runId = cq_runId q, gc_reason = cq_reason q, gc_traceId = cq_traceId q,
           gc_requestedAt = map_option requested_at (cq_requestedAtMs q)\<rparr>) (\<lambda>ok. nullish ok False)),
      sc_getRun = (\<lambda>runId. unary tp env addr (\<lambda>a md. tp_get tp a md runId)
        (\<lambda>r. \<lparr>gp_runId = nullish (rw_runId r) runId,
              gp_status = nullish (rw_status r) ''RUN_STATUS_UNSPECIFIED'',
              gp_outcome = nullish (rw_outcome r) ''OUTCOME_UNSPECIFIED''\<rparr>)),
      sc_getRunDetail = (\<lambda>runId. unary tp env addr (\<lambda>a md. tp_get tp a md runId) (raw_run_detail runId)),
      sc_health = unary tp env addr (\<lambda>a md. tp_health tp a md)
        (\<lambda>r. \<lparr>hp_ok = nullish (rh_ok r) False, hp_detail = nullish (rh_detail r) []\<rparr>)\<rparr>"

section \<open>Properties\<close>

text \<open>
  The time of a cancel request survives the trip through a protobuf timestamp and back exactly
  for the times after the epoch and for whole seconds before it: the epoch itself reads as unset,
  and every other time before it comes back one second early.
\<close>

theorem timestamp_roundtrip:
  "timestampToMs (Some (requested_at ms)) =
     (if ms = 0 then None
      else if ms < 0 then Some (ms - (if 1000 dvd ms then 0 else 1000)) else Some ms)"
proof (cases "ms < 0")
  case True
  have "js_rem ms 1000 = - (- ms mod 1000)" using True by (simp add: js_rem_def)
  moreover have "- ms mod 1000 = (if 1000 dvd ms then 0 else 1000 - ms mod 1000)"
    by (simp add: zmod_zminus1_eq_if dvd_eq_mod_eq_0)
  moreover have "ms div 1000 * 1000 + ms mod 1000 = ms" by simp
  moreover have "ms div 1000 \<noteq> 0" using True by (simp add: div_eq_0_iff)
  ultimately show ?thesis using True
    by (auto simp: timestampToMs_def requested_at_def Let_def)
next
  case False
  then have "js_rem ms 1000 = ms mod 1000" by (simp add: js_rem_nonneg)
  moreover have "ms div 1000 * 1000 + ms mod 1000 = ms" by simp
  ultimately show ?thesis using False
    by (auto simp: timestampToMs_def requested_at_def Let_def)
qed

lemma map_insort_cmp:
  "map f (insort_cmp (\<lambda>a b. c (f a) (f b)) x xs) = insort_cmp c (f x) (map f xs)"
  by (induction xs) auto

lemma map_sort_cmp: "map f (sort_cmp (\<lambda>a b. c (f a) (f b)) xs) = sort_cmp c (map f xs)"
  by (induction xs) (simp_all add: sort_cmp_def map_insort_cmp)

lemma consistent_dag_edge_cmp:
  assumes "consistent_cmp lc" and "\<And>i j. lc i j = 0 \<Longrightarrow> i = j"
  shows "consistent_cmp (dag_edge_cmp lc)"
proof -
  note c = consistentD [OF assms(1)]
  have refl: "lc i i = 0" for i using c(1) [of i i] by linarith
  have "dag_edge_cmp lc a b = edge_cmp lc (demo_edge [] (fst a) (snd a)) (demo_edge [] (fst b) (snd b))" for a b
    using assms(2) [of "fst a" "fst b"] refl
    by (auto simp: dag_edge_cmp_def edge_cmp_def demo_edge_def Let_def)
  then have eq: "dag_edge_cmp lc =
      (\<lambda>a b. edge_cmp lc ((\<lambda>e. demo_edge [] (fst e) (snd e)) a) ((\<lambda>e. demo_edge [] (fst e) (snd e)) b))"
    by (intro ext) simp
  show ?thesis unfolding eq by (rule consistent_on [OF consistent_edge_cmp [OF assms(1)]])
qed

lemma fst_dag_node [simp]: "fst (dag_node n) = sn_id n"
  by (simp add: dag_node_def)


text \<open>A comparator by character codes, which tells all strings apart.\<close>

fun code_cmp :: "string \<Rightarrow> string \<Rightarrow> int" where
  "code_cmp [] [] = 0"
| "code_cmp [] (d # ds) = - 1"
| "code_cmp (c # cs) [] = 1"
| "code_cmp (c # cs) (d # ds) =
     (if (of_char c :: nat) = of_char d then code_cmp cs ds else if (of_char c :: nat) < of_char d then - 1 else 1)"

lemma code_cmp_eq: "code_cmp a b = 0 \<Longrightarrow> a = b"
  by (induction a b rule: code_cmp.induct) (auto split: if_splits)

lemma code_cmp_sign: "0 < code_cmp a b \<longleftrightarrow> code_cmp b a < 0"
  by (induction a b rule: code_cmp.induct) auto

lemma code_cmp_trans: "code_cmp a b \<le> 0 \<Longrightarrow> code_cmp b c \<le> 0 \<Longrightarrow> code_cmp a c \<le> 0"
proof (induction a b arbitrary: c rule: code_cmp.induct)
  case (2 d ds)
  then show ?case by (cases c) auto
next
  case (4 x xs y ys)
  then show ?case by (cases c) (auto split: if_splits)
next
  case 1
  then show ?case by (cases c) auto
qed auto

lemma consistent_code_cmp: "consistent_cmp code_cmp"
  unfolding consistent_cmp_def using code_cmp_sign code_cmp_trans by blast


text \<open>
  The channel is shared by the whole process: after the first call, every client, whatever
  address it was created for, talks to the address of the first one.
\<close>

theorem scheduler_channel_sticky:
  "fst (sc_getRun (createGrpcEvoSchedulerClient tp env b) i (s, Some a)) =
      fst (sc_getRun (createGrpcEvoSchedulerClient tp env a) i (s, Some a)) \<and>
    fst (sc_submitRun (createGrpcEvoSchedulerClient tp env b) q (s, Some a)) =
      fst (sc_submitRun (createGrpcEvoSchedulerClient tp env a) q (s, Some a)) \<and>
    snd (snd (sc_submitRun (createGrpcEvoSchedulerClient tp env b) q (s, Some a))) = Some a"
  by (simp add: createGrpcEvoSchedulerClient_def unary_def Let_def split: prod.splits sum.splits)

end
