(* ===== verification/Actions.thy ===== *)
theory Actions
  imports Access Engine Planner
begin

text \<open>
  The server actions of \<open>features/workflows/actions.ts\<close> with their input contracts
  (\<open>lib/action-schemas.ts\<close>), over the data access, version, run-record, engine and planner theories.
  An action is a transition of the system state, with the error it throws or its result.  Logging
  and cache revalidation are left out.
\<close>

section \<open>Input contracts\<close>

text \<open>
  The first issue Zod reports, with its path; the arguments are typed, so the issues about a wrong
  JavaScript type do not arise.  \<open>zod\<close> gives the package's own message texts, \<open>is_uuid\<close> its format
  check.
\<close>

datatype issue_code = TooSmall | TooBig

type_synonym issue = "string list \<times> string"

record zod_package =
  zp_message :: "issue_code \<Rightarrow> string"
  zp_is_uuid :: "string \<Rightarrow> bool"

definition run_id_char :: "char \<Rightarrow> bool" where
  "run_id_char c \<longleftrightarrow>
     (let n = (of_char c :: nat) in
      65 \<le> n \<and> n \<le> 90 \<or> 97 \<le> n \<and> n \<le> 122 \<or> 48 \<le> n \<and> n \<le> 57 \<or> n = 46 \<or> n = 95 \<or> n = 45)"

definition runIdSchema :: "zod_package \<Rightarrow> string \<Rightarrow> string + string" where
  "runIdSchema z s =
     (if length s < 1 then Inl (zp_message z TooSmall)
      else if 200 < length s then Inl (zp_message z TooBig)
      else if \<not> list_all run_id_char s then Inl ''must contain only letters, digits, dot, dash''
      else Inr s)"

definition workflowIdSchema :: "zod_package \<Rightarrow> string \<Rightarrow> string + string" where
  "workflowIdSchema z s = (if zp_is_uuid z s then Inr s else Inl ''must be a workflow id (uuid)'')"

definition workflowNameSchema :: "zod_package \<Rightarrow> string \<Rightarrow> string + string" where
  "workflowNameSchema z s =
     (let t = trim s in
      if length t < 1 then Inl (zp_message z TooSmall)
      else if 120 < length t then Inl (zp_message z TooBig) else Inr t)"

definition goalSchema :: "zod_package \<Rightarrow> string \<Rightarrow> string + string" where
  "goalSchema z s =
     (let t = trim s in
      if length t < 1 then Inl ''Goal prompt cannot be empty.''
      else if 2000 < length t then Inl (zp_message z TooBig) else Inr t)"

text \<open>Prefixing the path of an issue.\<close>

definition at_path :: "string list \<Rightarrow> string + 'a \<Rightarrow> issue + 'a" where
  "at_path p r = (case r of Inl m \<Rightarrow> Inl (p, m) | Inr x \<Rightarrow> Inr x)"

definition nonempty_issue :: "zod_package \<Rightarrow> string list \<Rightarrow> string \<Rightarrow> issue list" where
  "nonempty_issue z p s = (if length s < 1 then [(p, zp_message z TooSmall)] else [])"

definition node_issues :: "zod_package \<Rightarrow> step_node \<Rightarrow> issue list" where
  "node_issues z n =
     nonempty_issue z [''id''] (sn_id n) @ nonempty_issue z [''data'', ''type''] (sd_type (sn_data n)) @
     nonempty_issue z [''data'', ''title''] (sd_title (sn_data n))"

definition edge_issues :: "zod_package \<Rightarrow> edge \<Rightarrow> issue list" where
  "edge_issues z e =
     nonempty_issue z [''id''] (eg_id e) @ nonempty_issue z [''source''] (eg_source e) @
     nonempty_issue z [''target''] (eg_target e)"

text \<open>The issues of the elements of an array, below its name and their index.\<close>

definition array_issues :: "string \<Rightarrow> ('a \<Rightarrow> issue list) \<Rightarrow> 'a list \<Rightarrow> issue list" where
  "array_issues name f xs =
     concat (map (\<lambda>(i, x). map (\<lambda>(p, m). (name # nat_text i # p, m)) (f x)) (enumerate 0 xs))"

definition workflowGraphSchema :: "zod_package \<Rightarrow> workflow_graph \<Rightarrow> issue + workflow_graph" where
  "workflowGraphSchema z g =
     (case array_issues ''nodes'' (node_issues z) (wg_nodes g) @
           (if length (wg_nodes g) < 1 then [([''nodes''], zp_message z TooSmall)] else []) @
           array_issues ''edges'' (edge_issues z) (wg_edges g) of
        i # _ \<Rightarrow> Inl i
      | [] \<Rightarrow> Inr g)"

datatype action_error =
    InvalidInput string
  | AuthFailed auth_error
  | ProRequired
  | WorkflowNotFound
  | SaveFailed version_error
  | StoreFailed sql_error
  | ClientFailed
  | SnapshotFailed
  | EngineFailed engine_error
  | RoomFailed string

definition parseActionInput :: "issue + 'a \<Rightarrow> string \<Rightarrow> action_error + 'a" where
  "parseActionInput result label =
     (case result of
        Inr x \<Rightarrow> Inr x
      | Inl (p, m) \<Rightarrow>
          let path = join ''.'' p in
          Inl (InvalidInput (''Invalid '' @ label @ (if path \<noteq> [] then '' ('' @ path @ '')'' else []) @
                             '': '' @ m)))"

section \<open>The system\<close>

text \<open>
  The two databases, the outside world of the engines and of Liveblocks, and the cached adapter.
\<close>

record 's sys =
  sy_neon :: db
  sy_phase2 :: db
  sy_outside :: 's
  sy_adapter :: "'s adapter option"

text \<open>
  Everything an action gets from outside: the session, the packages, the environment, and what each
  of its store calls finds (\<open>world\<close>); \<open>None\<close> for the Phase-2 client means that it cannot be made.
\<close>

record 's action_env =
  ax_sessions :: "nat \<Rightarrow> session"
  ax_members :: "string \<Rightarrow> string + string option list"
  ax_zod :: zod_package
  ax_env :: "string \<Rightarrow> string option"
  ax_now :: int
  ax_ids :: "nat \<Rightarrow> string"
  ax_uuid :: string
  ax_toposort :: topo
  ax_hash :: "workflow_graph \<Rightarrow> string"
  ax_mkEvo :: "'s adapter"
  ax_mkLegacy :: "'s adapter"
  ax_phase2Client :: bool
  ax_neonClient :: bool
  ax_w_save :: world
  ax_w_workflow :: world
  ax_w_ensure :: world
  ax_w_version :: world
  ax_w_record :: world

definition resolve_org :: "'s action_env \<Rightarrow> (auth_error + string) \<times> nat" where
  "resolve_org ax = resolveActiveOrgId (ax_sessions ax) (ax_members ax) 0"

definition adapter_for :: "'s action_env \<Rightarrow> engine \<Rightarrow> 's sys \<Rightarrow> 's adapter \<times> 's sys" where
  "adapter_for ax e st =
     (case getExecutionEngineAdapter (ax_mkEvo ax) (ax_mkLegacy ax) e (sy_adapter st) of
        (ad, cached) \<Rightarrow> (ad, st\<lparr>sy_adapter := cached\<rparr>))"

section \<open>Creating and deleting a workflow\<close>

text \<open>The result is the page the action redirects to.\<close>

definition createWorkflowAction ::
    "'s action_env \<Rightarrow> string \<Rightarrow> 's sys \<Rightarrow> (action_error + string) \<times> 's sys" where
  "createWorkflowAction ax name st =
     (case parseActionInput (at_path [''name''] (workflowNameSchema (ax_zod ax) name)) ''workflow name'' of
        Inl e \<Rightarrow> (Inl e, st)
      | Inr safeName \<Rightarrow>
          (case fst (resolve_org ax) of
             Inl e \<Rightarrow> (Inl (AuthFailed e), st)
           | Inr orgId \<Rightarrow>
               (case ax_w_save ax 0 (sy_neon st) of
                  Inl _ \<Rightarrow> (Inl (StoreFailed ConnectionError), st)
                | Inr d \<Rightarrow>
                    let (workflow, d') = createWorkflow (ax_uuid ax) (ax_now ax) orgId safeName d
                    in (Inr (''/workflows/'' @ wf_id workflow @ ''?new=true''), st\<lparr>sy_neon := d'\<rparr>))))"

text \<open>\<open>deleteRoom\<close> is the Liveblocks call, whose failure is thrown after the row is gone.\<close>

definition deleteWorkflowAction ::
    "'s action_env \<Rightarrow> (string \<Rightarrow> 's \<Rightarrow> (string + unit) \<times> 's) \<Rightarrow> string \<Rightarrow> 's sys \<Rightarrow>
     (action_error + string) \<times> 's sys" where
  "deleteWorkflowAction ax deleteRoom i st =
     (case parseActionInput (at_path [''id''] (workflowIdSchema (ax_zod ax) i)) ''workflow id'' of
        Inl e \<Rightarrow> (Inl e, st)
      | Inr safeId \<Rightarrow>
          (case fst (resolve_org ax) of
             Inl e \<Rightarrow> (Inl (AuthFailed e), st)
           | Inr orgId \<Rightarrow>
               (case ax_w_save ax 0 (sy_neon st) of
                  Inl _ \<Rightarrow> (Inl (StoreFailed ConnectionError), st)
                | Inr d \<Rightarrow>
                    (case deleteWorkflow orgId safeId d of
                       Inl e \<Rightarrow> (Inl (StoreFailed e), st\<lparr>sy_neon := d\<rparr>)
                     | Inr (None, d') \<Rightarrow> (Inl WorkflowNotFound, st\<lparr>sy_neon := d'\<rparr>)
                     | Inr (Some w, d') \<Rightarrow>
                         (case deleteRoom safeId (sy_outside st) of
                            (Inl m, s') \<Rightarrow> (Inl (RoomFailed m), st\<lparr>sy_neon := d', sy_outside := s'\<rparr>)
                          | (Inr _, s') \<Rightarrow> (Inr ''/'', st\<lparr>sy_neon := d', sy_outside := s'\<rparr>))))))"

section \<open>Running a workflow\<close>

text \<open>The checks before anything is touched: shape, organization, plan.\<close>

definition has_agent :: "workflow_graph \<Rightarrow> bool" where
  "has_agent g \<longleftrightarrow> (\<exists>n \<in> set (wg_nodes g). sd_type (sn_data n) = ''agent'')"

definition run_gate :: "'s action_env \<Rightarrow> string \<Rightarrow> workflow_graph \<Rightarrow> action_error + string" where
  "run_gate ax i graph =
     (case parseActionInput
             (bind_res (at_path [''id''] (workflowIdSchema (ax_zod ax) i)) (\<lambda>_.
                case workflowGraphSchema (ax_zod ax) graph of
                  Inl (p, m) \<Rightarrow> Inl (''graph'' # p, m) | Inr g \<Rightarrow> Inr g)) ''run input'' of
        Inl e \<Rightarrow> Inl e
      | Inr safeGraph \<Rightarrow>
          (case resolve_org ax of
             (Inl e, _) \<Rightarrow> Inl (AuthFailed e)
           | (Inr orgId, k) \<Rightarrow>
               if has_agent safeGraph \<and> \<not> has_pro (ax_sessions ax k) then Inl ProRequired
               else Inr orgId))"

definition version_args_of :: "'s action_env \<Rightarrow> string \<Rightarrow> string \<Rightarrow> workflow_graph \<Rightarrow> version_args" where
  "version_args_of ax orgId i graph =
     \<lparr>va_orgId = orgId, va_workflowId = i, va_graph = graph, va_hash = ax_hash ax graph\<rparr>"

text \<open>The snapshot: required, in the Phase-2 store, for Evo; best effort, in Neon, for legacy.\<close>

definition snapshot_evo ::
    "'s action_env \<Rightarrow> string \<Rightarrow> string \<Rightarrow> workflow_graph \<Rightarrow> 's sys \<Rightarrow>
     (action_error + string option) \<times> 's sys" where
  "snapshot_evo ax orgId i graph st =
     (if \<not> ax_phase2Client ax then (Inl ClientFailed, st)
      else case ax_w_workflow ax 0 (sy_neon st) of
        Inl _ \<Rightarrow> (Inl (StoreFailed ConnectionError), st)
      | Inr d \<Rightarrow>
          let name = nullish (map_option wf_name (getWorkflow orgId i d)) ''workflow''; st = st\<lparr>sy_neon := d\<rparr> in
          (case ensurePhase2Workflow (ax_now ax) i orgId name (ax_w_ensure ax 0 (sy_phase2 st)) of
             Inl e \<Rightarrow> (Inl (StoreFailed e), st)
           | Inr d2 \<Rightarrow>
               (case createWorkflowVersion (ax_w_version ax) (ax_ids ax) (ax_now ax)
                       (version_args_of ax orgId i graph) d2 of
                  (Inl _, d3) \<Rightarrow> (Inl SnapshotFailed, st\<lparr>sy_phase2 := d3\<rparr>)
                | (Inr version, d3) \<Rightarrow> (Inr (Some (wv_id version)), st\<lparr>sy_phase2 := d3\<rparr>))))"

definition snapshot_legacy ::
    "'s action_env \<Rightarrow> string \<Rightarrow> string \<Rightarrow> workflow_graph \<Rightarrow> 's sys \<Rightarrow> string option \<times> 's sys" where
  "snapshot_legacy ax orgId i graph st =
     (case createWorkflowVersion (ax_w_version ax) (ax_ids ax) (ax_now ax)
             (version_args_of ax orgId i graph) (sy_neon st) of
        (Inl _, d) \<Rightarrow> (None, st\<lparr>sy_neon := d\<rparr>)
      | (Inr version, d) \<Rightarrow> (Some (wv_id version), st\<lparr>sy_neon := d\<rparr>))"

text \<open>The submission: for Evo the run row comes first, for legacy after it and at best effort.\<close>

definition submit_evo ::
    "'s action_env \<Rightarrow> string \<Rightarrow> string \<Rightarrow> workflow_graph \<Rightarrow> string option \<Rightarrow> 's sys \<Rightarrow>
     (action_error + engine_run_handle) \<times> 's sys" where
  "submit_evo ax orgId i graph versionId st0 =
     (let (ad, st) = adapter_for ax Evo st0; runId = ''evo_'' @ ax_uuid ax in
      case createWorkflowRunRecord (ax_w_record ax) (ax_now ax)
             \<lparr>rr_runId = runId, rr_orgId = orgId, rr_workflowId = i, rr_workflowVersionId = versionId,
              rr_engine = Evo\<rparr> (sy_phase2 st) of
        (Inl e, d) \<Rightarrow> (Inl (StoreFailed e), st\<lparr>sy_phase2 := d\<rparr>)
      | (Inr _, d) \<Rightarrow>
          (case ad_startRun ad
                  \<lparr>sa_orgId = orgId, sa_workflowId = i, sa_workflowVersionId = versionId, sa_graph = graph,
                   sa_runId = Some runId\<rparr> (sy_outside st) of
             (Inl e, s') \<Rightarrow> (Inl (EngineFailed e), st\<lparr>sy_phase2 := d, sy_outside := s'\<rparr>)
           | (Inr h, s') \<Rightarrow> (Inr h, st\<lparr>sy_phase2 := d, sy_outside := s'\<rparr>)))"

definition submit_legacy ::
    "'s action_env \<Rightarrow> string \<Rightarrow> string \<Rightarrow> workflow_graph \<Rightarrow> string option \<Rightarrow> 's sys \<Rightarrow>
     (action_error + engine_run_handle) \<times> 's sys" where
  "submit_legacy ax orgId i graph versionId st0 =
     (let (ad, st) = adapter_for ax Legacy st0 in
      case ad_startRun ad
             \<lparr>sa_orgId = orgId, sa_workflowId = i, sa_workflowVersionId = versionId, sa_graph = graph,
              sa_runId = None\<rparr> (sy_outside st) of
        (Inl e, s') \<Rightarrow> (Inl (EngineFailed e), st\<lparr>sy_outside := s'\<rparr>)
      | (Inr h, s') \<Rightarrow>
          (case createWorkflowRunRecord (ax_w_record ax) (ax_now ax)
                  \<lparr>rr_runId = eh_runId h, rr_orgId = orgId, rr_workflowId = i,
                   rr_workflowVersionId = versionId, rr_engine = Legacy\<rparr> (sy_neon st) of
             (_, d) \<Rightarrow> (Inr h, st\<lparr>sy_neon := d, sy_outside := s'\<rparr>)))"

definition runWorkflowAction ::
    "'s action_env \<Rightarrow> string \<Rightarrow> workflow_graph \<Rightarrow> 's sys \<Rightarrow>
     (action_error + engine_run_handle) \<times> 's sys" where
  "runWorkflowAction ax i graph st =
     (case run_gate ax i graph of
        Inl e \<Rightarrow> (Inl e, st)
      | Inr orgId \<Rightarrow>
          (case default_save (ax_toposort ax) (ax_w_save ax) (ax_now ax) orgId i graph (sy_neon st) of
             (Inl e, d) \<Rightarrow> (Inl (SaveFailed e), st\<lparr>sy_neon := d\<rparr>)
           | (Inr _, d) \<Rightarrow>
               let st = st\<lparr>sy_neon := d\<rparr> in
               if getExecutionEngine (ax_env ax) = Evo then
                 (case snapshot_evo ax orgId i graph st of
                    (Inl e, st) \<Rightarrow> (Inl e, st)
                  | (Inr v, st) \<Rightarrow> submit_evo ax orgId i graph v st)
               else
                 (case snapshot_legacy ax orgId i graph st of
                    (v, st) \<Rightarrow> submit_legacy ax orgId i graph v st)))"

section \<open>Canceling, listing, planning\<close>

text \<open>The stores as the two lookups of \<open>resolveRunEngine\<close> find them.\<close>

definition cancelWorkflowRunAction ::
    "'s action_env \<Rightarrow> string \<Rightarrow> 's sys \<Rightarrow> (action_error + unit) \<times> 's sys" where
  "cancelWorkflowRunAction ax runId st =
     (case parseActionInput (at_path [''runId''] (runIdSchema (ax_zod ax) runId)) ''run id'' of
        Inl e \<Rightarrow> (Inl e, st)
      | Inr safeRunId \<Rightarrow>
          (case fst (resolve_org ax) of
             Inl e \<Rightarrow> (Inl (AuthFailed e), st)
           | Inr orgId \<Rightarrow>
               (case resolveRunEngine
                       (if ax_phase2Client ax then Some (ax_w_record ax 0 (sy_phase2 st)) else None)
                       (if ax_neonClient ax then Some (ax_w_record ax 1 (sy_neon st)) else None) safeRunId of
                  Inl _ \<Rightarrow> (Inl ClientFailed, st)
                | Inr owner \<Rightarrow>
                    let (ad, st) = adapter_for ax (nullish owner Legacy) st in
                    (case ad_cancelRun ad safeRunId (sy_outside st) of
                       (Inl e, s') \<Rightarrow> (Inl (EngineFailed e), st\<lparr>sy_outside := s'\<rparr>)
                     | (Inr _, s') \<Rightarrow> (Inr (), st\<lparr>sy_outside := s'\<rparr>)))))"

text \<open>
  The list crosses the action boundary with its times as ISO texts (\<open>toISO\<close>); \<open>store2\<close> is what the
  node query of each run finds.
\<close>

definition listEvoRunsAction ::
    "'s action_env \<Rightarrow> (int \<Rightarrow> string) \<Rightarrow> (string \<Rightarrow> store) \<Rightarrow> string \<Rightarrow> 's sys \<Rightarrow>
     action_error + (view_model \<times> string option) list" where
  "listEvoRunsAction ax toISO store2 workflowId st =
     (case parseActionInput (at_path [''workflowId''] (workflowIdSchema (ax_zod ax) workflowId)) ''workflow id'' of
        Inl e \<Rightarrow> Inl e
      | Inr w \<Rightarrow>
          (case fst (resolve_org ax) of
             Inl e \<Rightarrow> Inl (AuthFailed e)
           | Inr orgId \<Rightarrow>
               Inr (map (\<lambda>r. (r, map_option toISO (vm_createdAt r)))
                 (listEvoRunsForWorkflow orgId w (ax_w_record ax 0 (sy_phase2 st)) store2))))"

record plan_result =
  pl_success :: bool
  pl_text :: "string option"
  pl_plan :: "workflow_plan option"

definition planWorkflowAction ::
    "'s action_env \<Rightarrow> plan_parser \<Rightarrow> string option \<Rightarrow> (nat \<Rightarrow> reply) \<Rightarrow> string \<Rightarrow> string \<Rightarrow>
     action_error + plan_result" where
  "planWorkflowAction ax parse_plan apiKey replies workflowId goal =
     (case parseActionInput
             (bind_res (at_path [''workflowId''] (workflowIdSchema (ax_zod ax) workflowId)) (\<lambda>_.
                at_path [''goal''] (goalSchema (ax_zod ax) goal))) ''planner input'' of
        Inl e \<Rightarrow> Inl e
      | Inr trimmedGoal \<Rightarrow>
          (case fst (resolve_org ax) of
             Inl e \<Rightarrow> Inl (AuthFailed e)
           | Inr orgId \<Rightarrow>
               Inr (case generateWorkflowPlan (ax_toposort ax) parse_plan apiKey replies of
                      Inr plan \<Rightarrow>
                        \<lparr>pl_success = True,
                         pl_text = (if wp_canBuild plan then Some ''Workflow plan generated successfully.''
                                    else wp_unsupportedReason plan),
                         pl_plan = Some plan\<rparr>
                    | Inl errorMessage \<Rightarrow>
                        \<lparr>pl_success = False, pl_text = Some errorMessage, pl_plan = None\<rparr>)))"

section \<open>The gates of a run\<close>

lemma parse_Inr: "parseActionInput r l = Inr x \<longleftrightarrow> r = Inr x"
  by (auto simp: parseActionInput_def Let_def split: sum.splits prod.splits)

lemma at_path_Inr [simp]: "at_path p r = Inr x \<longleftrightarrow> r = Inr x"
  by (auto simp: at_path_def split: sum.splits)

lemma workflowIdSchema_Inr: "workflowIdSchema z s = Inr t \<longleftrightarrow> zp_is_uuid z s \<and> t = s"
  by (auto simp: workflowIdSchema_def)

lemma workflowGraphSchema_Inr: "workflowGraphSchema z g = Inr h \<Longrightarrow> h = g \<and> wg_nodes g \<noteq> []"
  by (auto simp: workflowGraphSchema_def split: list.splits if_splits)

lemma run_gate_Inr:
  assumes "run_gate ax i g = Inr orgId"
  shows "zp_is_uuid (ax_zod ax) i \<and> workflowGraphSchema (ax_zod ax) g = Inr g \<and>
    (\<exists>k. resolve_org ax = (Inr orgId, k) \<and> (has_agent g \<longrightarrow> has_pro (ax_sessions ax k)))"
proof -
  let ?parsed = "bind_res (at_path [''id''] (workflowIdSchema (ax_zod ax) i)) (\<lambda>_.
      case workflowGraphSchema (ax_zod ax) g of Inl (p, m) \<Rightarrow> Inl (''graph'' # p, m) | Inr g \<Rightarrow> Inr g)"
  obtain h where h: "parseActionInput ?parsed ''run input'' = Inr h"
    using assms by (cases "parseActionInput ?parsed ''run input''") (simp_all add: run_gate_def)
  then have "zp_is_uuid (ax_zod ax) i" "workflowGraphSchema (ax_zod ax) g = Inr h"
    unfolding parse_Inr by (auto simp: workflowIdSchema_Inr split: sum.splits)
  moreover from this have "h = g" using workflowGraphSchema_Inr by blast
  moreover have "\<exists>k. resolve_org ax = (Inr orgId, k) \<and> (has_agent h \<longrightarrow> has_pro (ax_sessions ax k))"
    using assms h by (auto simp: run_gate_def split: prod.splits sum.splits if_splits)
  ultimately show ?thesis by simp
qed

lemma default_save_Inr:
  assumes "default_save toposort world now orgId i g d = (Inr u, d')"
  shows "validateGraph toposort g = []"
  using assms by (auto simp: default_save_def saveWorkflowGraph_def Let_def split: sum.splits if_splits)

lemma snapshot_evo_outside: "sy_outside (snd (snapshot_evo ax orgId i g st)) = sy_outside st"
  by (auto simp: snapshot_evo_def Let_def split: sum.splits prod.splits)

lemma snapshot_legacy_outside: "sy_outside (snd (snapshot_legacy ax orgId i g st)) = sy_outside st"
  by (auto simp: snapshot_legacy_def split: sum.splits prod.splits)


section \<open>Canceling does not look at the owner\<close>

text \<open>
  Canceling a run does the same whoever asks: any caller who resolves to some organization
  stops the run, whatever organization the run belongs to.
\<close>

theorem cancel_ignores_owner:
  assumes "fst (resolve_org ax) = Inr orgId" and "fst (resolve_org ax') = Inr orgId'"
    and "ax' = ax\<lparr>ax_sessions := ss, ax_members := ms\<rparr>"
  shows "cancelWorkflowRunAction ax' runId st = cancelWorkflowRunAction ax runId st"
  using assms by (simp add: cancelWorkflowRunAction_def adapter_for_def cong: sum.case_cong)

section \<open>Deleting a workflow\<close>

text \<open>
  A workflow is deleted, and its room after it, exactly when it belongs to the caller's
  organization and neither a version nor a run refers to it; a workflow that has ever been
  snapshotted for a run can no longer be deleted, the database refuses and nothing changes.
\<close>

theorem delete_exact:
  assumes "zp_is_uuid (ax_zod ax) i" and "fst (resolve_org ax) = Inr orgId"
    and "ax_w_save ax 0 (sy_neon st) = Inr d"
  shows "deleteWorkflowAction ax deleteRoom i st =
    (if \<not> (\<exists>w \<in> set (db_workflows d). owns_workflow orgId i w)
     then (Inl WorkflowNotFound, st\<lparr>sy_neon := d\<rparr>)
     else if workflow_referenced i d then (Inl (StoreFailed ForeignKeyViolation), st\<lparr>sy_neon := d\<rparr>)
     else (case deleteRoom i (sy_outside st) of
             (Inl m, s') \<Rightarrow> (Inl (RoomFailed m), st\<lparr>sy_neon := d\<lparr>db_workflows :=
                filter (\<lambda>w. \<not> owns_workflow orgId i w) (db_workflows d)\<rparr>, sy_outside := s'\<rparr>)
           | (Inr u, s') \<Rightarrow> (Inr ''/'', st\<lparr>sy_neon := d\<lparr>db_workflows :=
                filter (\<lambda>w. \<not> owns_workflow orgId i w) (db_workflows d)\<rparr>, sy_outside := s'\<rparr>)))"
proof -
  have parsed: "parseActionInput (at_path [''id''] (workflowIdSchema (ax_zod ax) i)) ''workflow id'' = Inr i"
    using assms(1) by (simp add: parse_Inr workflowIdSchema_Inr)
  show ?thesis
  proof (cases "select_one (owns_workflow orgId i) (db_workflows d)")
    case None
    have "\<not> (\<exists>w \<in> set (db_workflows d). owns_workflow orgId i w)" using None by simp
    then show ?thesis using assms(2,3) parsed
      by (simp add: deleteWorkflowAction_def deleteWorkflow_def None del: select_one_None)
  next
    case (Some w)
    have "\<exists>w \<in> set (db_workflows d). owns_workflow orgId i w" using select_one_Some [OF Some] by blast
    then show ?thesis using assms(2,3) parsed
      by (simp add: deleteWorkflowAction_def deleteWorkflow_def Some)
  qed
qed

section \<open>Every engine submission is recorded\<close>

lemma createRunRecord_stored:
  assumes "append_only world" and "db_keys d"
    and "createWorkflowRunRecord world now a d = (Inr row, d')"
  shows "\<exists>row \<in> set (db_runs d'). wr_id row = rr_runId a" "set (db_versions d) \<subseteq> set (db_versions d')"
proof -
  obtain d0 where d0: "world 0 d = Inr d0"
    using assms(3) by (cases "world 0 d") (auto simp: createWorkflowRunRecord_def)
  note k0 = append_onlyD [OF assms(1) d0 assms(2)]
  have "(\<exists>row \<in> set (db_runs d'). wr_id row = rr_runId a) \<and> set (db_versions d) \<subseteq> set (db_versions d')"
  proof (cases "insert_run (new_run a now) d0")
    case (Inr d1)
    then show ?thesis using assms(3) d0 k0 insert_run_Inr(1) [OF Inr]
      by (auto simp: createWorkflowRunRecord_def new_run_def)
  next
    case (Inl e)
    note failed = Inl
    have u: "isPrimaryKeyViolation e" using assms(3) d0 failed
      by (simp add: createWorkflowRunRecord_def split: if_splits)
    obtain d1 where d1: "world 1 d0 = Inr d1"
      using assms(3) d0 failed u by (cases "world 1 d0") (simp_all add: createWorkflowRunRecord_def)
    note k1 = append_onlyD [OF assms(1) d1 k0(1)]
    obtain r where r: "select_one (\<lambda>r. wr_id r = rr_runId a) (db_runs d1) = Some r" "d' = d1"
      using assms(3) d0 failed u d1
      by (cases "select_one (\<lambda>r. wr_id r = rr_runId a) (db_runs d1)")
        (simp_all add: createWorkflowRunRecord_def del: select_one_None)
    have "r \<in> set (db_runs d1)" "wr_id r = rr_runId a" using select_one_Some [OF r(1)] by simp_all
    then show ?thesis using k0(2) k1(2) r(2) by blast
  qed
  then show "\<exists>row \<in> set (db_runs d'). wr_id row = rr_runId a" "set (db_versions d) \<subseteq> set (db_versions d')"
    by blast+
qed

lemma adapter_for_state [simp]:
  "sy_neon (snd (adapter_for ax e st)) = sy_neon st" "sy_phase2 (snd (adapter_for ax e st)) = sy_phase2 st"
  "sy_outside (snd (adapter_for ax e st)) = sy_outside st"
  by (simp_all add: adapter_for_def split: prod.splits)

lemma submit_evo_recorded:
  assumes "append_only (ax_w_record ax)" and "db_keys (sy_phase2 st)"
    and "submit_evo ax orgId i g v st = (r, st')"
    and "sy_outside st' \<noteq> sy_outside st \<or> (\<exists>h. r = Inr h)"
  shows "(\<exists>row \<in> set (db_runs (sy_phase2 st')). wr_id row = ''evo_'' @ ax_uuid ax) \<and>
    set (db_versions (sy_phase2 st)) \<subseteq> set (db_versions (sy_phase2 st'))"
proof -
  obtain ad st1 where ad: "adapter_for ax Evo st = (ad, st1)" by (cases "adapter_for ax Evo st")
  then have same: "sy_phase2 st1 = sy_phase2 st" "sy_outside st1 = sy_outside st"
    using adapter_for_state [of ax Evo st] by simp_all
  let ?a = "\<lparr>rr_runId = ''evo_'' @ ax_uuid ax, rr_orgId = orgId, rr_workflowId = i,
     rr_workflowVersionId = v, rr_engine = Evo\<rparr>"
  obtain q d where rec: "createWorkflowRunRecord (ax_w_record ax) (ax_now ax) ?a (sy_phase2 st) = (q, d)"
    by (cases "createWorkflowRunRecord (ax_w_record ax) (ax_now ax) ?a (sy_phase2 st)")
  then obtain row where q: "q = Inr row"
    using assms(3,4) ad same by (cases q) (auto simp: submit_evo_def)
  have "sy_phase2 st' = d"
    using assms(3) ad same rec q by (auto simp: submit_evo_def split: prod.splits sum.splits)
  then show ?thesis using createRunRecord_stored [OF assms(1,2)] rec q by fastforce
qed

lemma snapshot_evo_stored:
  assumes "append_only (ax_w_version ax)"
    and "\<And>d'. ax_w_ensure ax 0 (sy_phase2 st) = Inr d' \<Longrightarrow> db_keys d'"
    and "snapshot_evo ax orgId i g st = (Inr vid, st')"
  shows "db_keys (sy_phase2 st')"
    and "\<exists>v \<in> set (db_versions (sy_phase2 st')). vid = Some (wv_id v) \<and> of_workflow orgId i v \<and>
      wv_graphHash v = Some (ax_hash ax g)"
proof -
  obtain d0 where d0: "ax_w_workflow ax 0 (sy_neon st) = Inr d0"
    using assms(3) by (cases "ax_w_workflow ax 0 (sy_neon st)") (auto simp: snapshot_evo_def split: if_splits)
  let ?name = "nullish (map_option wf_name (getWorkflow orgId i d0)) ''workflow''"
  obtain d2 where d2: "ensurePhase2Workflow (ax_now ax) i orgId ?name (ax_w_ensure ax 0 (sy_phase2 st)) = Inr d2"
    using assms(3) d0
    by (cases "ensurePhase2Workflow (ax_now ax) i orgId ?name (ax_w_ensure ax 0 (sy_phase2 st))")
      (auto simp: snapshot_evo_def Let_def split: if_splits)
  obtain d1 where d1: "ax_w_ensure ax 0 (sy_phase2 st) = Inr d1"
    using d2 by (cases "ax_w_ensure ax 0 (sy_phase2 st)") (auto simp: ensurePhase2Workflow_def)
  have keys2: "db_keys d2"
    using d2 d1 assms(2) [OF d1] keys_of(1) [OF assms(2) [OF d1]]
    by (auto simp: ensurePhase2Workflow_def intro!: keys_update(1))
  obtain q d3 where cv: "createWorkflowVersion (ax_w_version ax) (ax_ids ax) (ax_now ax)
      (version_args_of ax orgId i g) d2 = (q, d3)"
    by (cases "createWorkflowVersion (ax_w_version ax) (ax_ids ax) (ax_now ax) (version_args_of ax orgId i g) d2")
  have res: "\<exists>v. q = Inr v \<and> vid = Some (wv_id v) \<and> sy_phase2 st' = d3"
    using assms(3) d0 d2 cv by (cases q) (auto simp: snapshot_evo_def Let_def split: if_splits)
  then obtain v where v: "q = Inr v" "vid = Some (wv_id v)" and st': "sy_phase2 st' = d3" by blast
  show "db_keys (sy_phase2 st')" using history_kept [OF assms(1) keys2 cv] st' by simp
  show "\<exists>v \<in> set (db_versions (sy_phase2 st')). vid = Some (wv_id v) \<and> of_workflow orgId i v \<and>
      wv_graphHash v = Some (ax_hash ax g)"
    using version_stored [OF cv [unfolded v]] v st' by (auto simp: version_args_of_def)
qed


section \<open>The engine that runs it\<close>

text \<open>The adapters of the module, and a cache that holds one of them or nothing.\<close>

definition standard_adapters :: "'s action_env \<Rightarrow> bool" where
  "standard_adapters ax \<longleftrightarrow>
     (\<exists>lc client fresh now. ax_mkEvo ax = createEvoEngineAdapter lc client fresh now) \<and>
     (\<exists>trigger cancel. ax_mkLegacy ax = createLegacyEngineAdapter trigger cancel)"

lemma adapter_for_engine:
  assumes "standard_adapters ax" and "sy_adapter st \<in> {None, Some (ax_mkEvo ax), Some (ax_mkLegacy ax)}"
  shows "fst (adapter_for ax e st) = (if e = Evo then ax_mkEvo ax else ax_mkLegacy ax)"
    and "sy_adapter (snd (adapter_for ax e st)) \<in> {None, Some (ax_mkEvo ax), Some (ax_mkLegacy ax)}"
proof -
  have eng: "ad_engine (ax_mkEvo ax) = Evo" "ad_engine (ax_mkLegacy ax) = Legacy"
    using assms(1) by (auto simp: standard_adapters_def createEvoEngineAdapter_def createLegacyEngineAdapter_def)
  show "fst (adapter_for ax e st) = (if e = Evo then ax_mkEvo ax else ax_mkLegacy ax)"
    and "sy_adapter (snd (adapter_for ax e st)) \<in> {None, Some (ax_mkEvo ax), Some (ax_mkLegacy ax)}"
    using assms(2) eng
    by (cases e; auto simp: adapter_for_def getExecutionEngineAdapter_def Let_def)+
qed

lemma standard_start:
  assumes "standard_adapters ax"
  shows "ad_startRun (ax_mkEvo ax) a s = (Inr h, s') \<Longrightarrow> eh_engine h = Evo"
    and "ad_startRun (ax_mkLegacy ax) a s = (Inr h, s') \<Longrightarrow> eh_engine h = Legacy"
proof -
  obtain lc client fresh now trigger cancel where
    ads: "ax_mkEvo ax = createEvoEngineAdapter lc client fresh now"
    "ax_mkLegacy ax = createLegacyEngineAdapter trigger cancel"
    using assms unfolding standard_adapters_def by blast
  show "ad_startRun (ax_mkEvo ax) a s = (Inr h, s') \<Longrightarrow> eh_engine h = Evo"
    unfolding ads by (rule evo_adapter.started_as) (simp_all add: createEvoEngineAdapter_def)
  show "ad_startRun (ax_mkLegacy ax) a s = (Inr h, s') \<Longrightarrow> eh_engine h = Legacy"
    unfolding ads by (rule legacy_adapter.started_as) (simp_all add: createLegacyEngineAdapter_def)
qed

lemma snapshot_adapter:
  "sy_adapter (snd (snapshot_evo ax orgId i g st)) = sy_adapter st"
  "sy_adapter (snd (snapshot_legacy ax orgId i g st)) = sy_adapter st"
  by (auto simp: snapshot_evo_def snapshot_legacy_def Let_def split: sum.splits prod.splits)

lemma submit_started:
  "submit_evo ax orgId i g v st = (Inr h, st') \<Longrightarrow>
     \<exists>a s s'. ad_startRun (fst (adapter_for ax Evo st)) a s = (Inr h, s')"
  "submit_legacy ax orgId i g v st = (Inr h, st') \<Longrightarrow>
     \<exists>a s s'. ad_startRun (fst (adapter_for ax Legacy st)) a s = (Inr h, s')"
proof -
  assume sub: "submit_evo ax orgId i g v st = (Inr h, st')"
  obtain ad st1 where ad: "adapter_for ax Evo st = (ad, st1)" by (cases "adapter_for ax Evo st")
  let ?r = "createWorkflowRunRecord (ax_w_record ax) (ax_now ax) \<lparr>rr_runId = ''evo_'' @ ax_uuid ax,
     rr_orgId = orgId, rr_workflowId = i, rr_workflowVersionId = v, rr_engine = Evo\<rparr> (sy_phase2 st1)"
  let ?s = "ad_startRun ad \<lparr>sa_orgId = orgId, sa_workflowId = i, sa_workflowVersionId = v,
     sa_graph = g, sa_runId = Some (''evo_'' @ ax_uuid ax)\<rparr> (sy_outside st1)"
  have "fst ?s = Inr h"
    using sub ad by (cases ?r; cases "fst ?r"; cases ?s; cases "fst ?s") (simp_all add: submit_evo_def)
  then show "\<exists>a s s'. ad_startRun (fst (adapter_for ax Evo st)) a s = (Inr h, s')"
    using ad by (metis fst_conv prod.collapse)
next
  assume sub: "submit_legacy ax orgId i g v st = (Inr h, st')"
  obtain ad st1 where ad: "adapter_for ax Legacy st = (ad, st1)" by (cases "adapter_for ax Legacy st")
  let ?s = "ad_startRun ad \<lparr>sa_orgId = orgId, sa_workflowId = i, sa_workflowVersionId = v,
     sa_graph = g, sa_runId = None\<rparr> (sy_outside st1)"
  have "fst ?s = Inr h"
    using sub ad by (cases ?s; cases "fst ?s") (simp_all add: submit_legacy_def split: prod.splits)
  then show "\<exists>a s s'. ad_startRun (fst (adapter_for ax Legacy st)) a s = (Inr h, s')"
    using ad by (metis fst_conv prod.collapse)
qed

lemma submit_engine:
  assumes "standard_adapters ax" and "sy_adapter st \<in> {None, Some (ax_mkEvo ax), Some (ax_mkLegacy ax)}"
  shows "submit_evo ax orgId i g v st = (Inr h, st') \<Longrightarrow> eh_engine h = Evo"
    and "submit_legacy ax orgId i g v st = (Inr h, st') \<Longrightarrow> eh_engine h = Legacy"
  using submit_started [of ax orgId i g v st h st'] standard_start [OF assms(1)]
  unfolding adapter_for_engine(1) [OF assms] by auto

text \<open>
  A started run is started on the engine the environment names: Evo exactly when
  \<open>EXECUTION_ENGINE\<close> is "evo" up to surrounding white space and case, the legacy engine otherwise,
  whatever adapter an earlier request left in the cache.
\<close>

theorem run_on_configured_engine:
  assumes "standard_adapters ax" and "sy_adapter st \<in> {None, Some (ax_mkEvo ax), Some (ax_mkLegacy ax)}"
    and "runWorkflowAction ax i g st = (Inr h, st')"
  shows "eh_engine h = Evo \<longleftrightarrow>
    (\<exists>v. ax_env ax ''EXECUTION_ENGINE'' = Some v \<and> to_lower (trim v) = ''evo'')"
proof -
  obtain orgId where gate: "run_gate ax i g = Inr orgId"
    using assms(3) by (cases "run_gate ax i g") (auto simp: runWorkflowAction_def)
  obtain q d where save: "default_save (ax_toposort ax) (ax_w_save ax) (ax_now ax) orgId i g (sy_neon st) = (q, d)"
    by (cases "default_save (ax_toposort ax) (ax_w_save ax) (ax_now ax) orgId i g (sy_neon st)")
  let ?st = "st\<lparr>sy_neon := d\<rparr>"
  have cached: "sy_adapter (snd (snapshot_evo ax orgId i g ?st)) \<in> {None, Some (ax_mkEvo ax), Some (ax_mkLegacy ax)}"
    "sy_adapter (snd (snapshot_legacy ax orgId i g ?st)) \<in> {None, Some (ax_mkEvo ax), Some (ax_mkLegacy ax)}"
    unfolding snapshot_adapter using assms(2) by simp_all
  have "eh_engine h = getExecutionEngine (ax_env ax)"
  proof (cases "getExecutionEngine (ax_env ax)")
    case Evo
    then have "(case snapshot_evo ax orgId i g ?st of (Inl e, st) \<Rightarrow> (Inl e, st)
        | (Inr v, st) \<Rightarrow> submit_evo ax orgId i g v st) = (Inr h, st')"
      using assms(3) gate save by (cases q) (auto simp: runWorkflowAction_def Let_def)
    then show ?thesis using Evo submit_engine(1) [OF assms(1) cached(1)]
      by (cases "snapshot_evo ax orgId i g ?st"; cases "fst (snapshot_evo ax orgId i g ?st)") auto
  next
    case Legacy
    then have "(case snapshot_legacy ax orgId i g ?st of (v, st) \<Rightarrow> submit_legacy ax orgId i g v st) = (Inr h, st')"
      using assms(3) gate save by (cases q) (auto simp: runWorkflowAction_def Let_def)
    then show ?thesis using Legacy submit_engine(2) [OF assms(1) cached(2)]
      by (cases "snapshot_legacy ax orgId i g ?st") auto
  qed
  then show ?thesis
    by (cases "ax_env ax ''EXECUTION_ENGINE''")
      (auto simp: getExecutionEngine_def Let_def trim_def to_lower_def)
qed

text \<open>
  A legacy run that passes the checks and is saved is triggered exactly once and returns what
  the provider answers, whether or not the version snapshot or the run record could be written.
\<close>

lemma submit_legacy_result:
  assumes "fst (adapter_for ax Legacy st) = createLegacyEngineAdapter trigger cancel"
  shows "fst (submit_legacy ax orgId i g v st) =
      (case fst (trigger i orgId (sy_outside st)) of
         Inl m \<Rightarrow> Inl (EngineFailed (RpcFailed m))
       | Inr t \<Rightarrow> Inr \<lparr>eh_engine = Legacy, eh_runId = t, eh_providerRunId = Some t\<rparr>)"
    and "sy_outside (snd (submit_legacy ax orgId i g v st)) = snd (trigger i orgId (sy_outside st))"
proof -
  obtain ad st1 where ad: "adapter_for ax Legacy st = (ad, st1)" by (cases "adapter_for ax Legacy st")
  have same: "sy_outside st1 = sy_outside st" using adapter_for_state(3) [of ax Legacy st] ad by simp
  obtain q s' where q: "trigger i orgId (sy_outside st) = (q, s')" by (cases "trigger i orgId (sy_outside st)")
  have start: "ad_startRun ad a (sy_outside st) = on_reply (trigger (sa_workflowId a) (sa_orgId a) (sy_outside st))
      (\<lambda>i. Inr \<lparr>eh_engine = Legacy, eh_runId = i, eh_providerRunId = Some i\<rparr>)" for a
    using assms ad by (simp add: createLegacyEngineAdapter_def)
  show "fst (submit_legacy ax orgId i g v st) =
      (case fst (trigger i orgId (sy_outside st)) of
         Inl m \<Rightarrow> Inl (EngineFailed (RpcFailed m))
       | Inr t \<Rightarrow> Inr \<lparr>eh_engine = Legacy, eh_runId = t, eh_providerRunId = Some t\<rparr>)"
    and "sy_outside (snd (submit_legacy ax orgId i g v st)) = snd (trigger i orgId (sy_outside st))"
    by (cases q; simp add: submit_legacy_def ad same start q on_reply_def split: prod.splits)+
qed

theorem legacy_run_fail_open:
  assumes "standard_adapters ax" and "ax_mkLegacy ax = createLegacyEngineAdapter trigger cancel"
    and "sy_adapter st \<in> {None, Some (ax_mkEvo ax), Some (ax_mkLegacy ax)}"
    and "getExecutionEngine (ax_env ax) = Legacy" and "run_gate ax i g = Inr orgId"
    and "fst (default_save (ax_toposort ax) (ax_w_save ax) (ax_now ax) orgId i g (sy_neon st)) = Inr ()"
  shows "fst (runWorkflowAction ax i g st) =
      (case fst (trigger i orgId (sy_outside st)) of
         Inl m \<Rightarrow> Inl (EngineFailed (RpcFailed m))
       | Inr t \<Rightarrow> Inr \<lparr>eh_engine = Legacy, eh_runId = t, eh_providerRunId = Some t\<rparr>) \<and>
    sy_outside (snd (runWorkflowAction ax i g st)) = snd (trigger i orgId (sy_outside st))"
proof -
  obtain d where save: "default_save (ax_toposort ax) (ax_w_save ax) (ax_now ax) orgId i g (sy_neon st) = (Inr (), d)"
    using assms(6) by (metis prod.collapse)
  let ?st = "st\<lparr>sy_neon := d\<rparr>"
  obtain v st1 where snap: "snapshot_legacy ax orgId i g ?st = (v, st1)" by (cases "snapshot_legacy ax orgId i g ?st")
  have run: "runWorkflowAction ax i g st = submit_legacy ax orgId i g v st1"
    using assms(4,5) save snap by (simp add: runWorkflowAction_def)
  have "sy_adapter st1 = sy_adapter st" "sy_outside st1 = sy_outside st"
    using snapshot_adapter(2) [of ax orgId i g ?st] snapshot_legacy_outside [of ax orgId i g ?st] snap by simp_all
  moreover from this have "fst (adapter_for ax Legacy st1) = createLegacyEngineAdapter trigger cancel"
    using adapter_for_engine(1) [OF assms(1), of st1 Legacy] assms(2,3) by simp
  ultimately show ?thesis using submit_legacy_result [of ax st1] run by simp
qed

section \<open>Concrete requests\<close>

text \<open>
  A signed-in member of an organization, a store nobody else touches, and engines that log what
  they are asked.
\<close>

definition demo_client :: "string list scheduler_client" where
  "demo_client = \<lparr>sc_submitRun = (\<lambda>q s. (Inr \<lparr>sp_runId = sq_runId q, sp_accepted = True, sp_message = []\<rparr>,
       s @ [sq_runId q])),
     sc_cancelRun = (\<lambda>q s. (Inr True, s @ [cq_runId q])),
     sc_getRun = (\<lambda>i s. (Inr \<lparr>gp_runId = i, gp_status = ''RUN_RUNNING'', gp_outcome = []\<rparr>, s)),
     sc_getRunDetail = (\<lambda>i s. (Inl ''none'', s)),
     sc_health = (\<lambda>s. (Inr \<lparr>hp_ok = True, hp_detail = []\<rparr>, s))\<rparr>"

definition demo_trigger :: "string \<Rightarrow> string \<Rightarrow> string list \<Rightarrow> (string + string) \<times> string list" where
  "demo_trigger w orgId s = (Inr ''run_1'', s @ [''run_1''])"

definition demo_cancel :: "string \<Rightarrow> string list \<Rightarrow> (string + unit) \<times> string list" where
  "demo_cancel i s = (Inr (), s @ [i])"

definition demo_ax :: "string \<Rightarrow> string list action_env" where
  "demo_ax engine = \<lparr>ax_sessions = (\<lambda>k. \<lparr>se_userId = Some ''u'', se_orgId = Some ''org'', se_has_pro = Some False\<rparr>),
     ax_members = (\<lambda>u. Inr []), ax_zod = \<lparr>zp_message = (\<lambda>c. ''bad''), zp_is_uuid = (\<lambda>s. s \<noteq> [])\<rparr>,
     ax_env = (\<lambda>k. if k = ''EXECUTION_ENGINE'' then Some engine else None),
     ax_now = 9, ax_ids = demo_ids, ax_uuid = ''7'', ax_toposort = kahn_sort, ax_hash = (\<lambda>g. ''h2''),
     ax_mkEvo = createEvoEngineAdapter code_cmp demo_client ''fresh'' 9,
     ax_mkLegacy = createLegacyEngineAdapter demo_trigger demo_cancel,
     ax_phase2Client = True, ax_neonClient = True,
     ax_w_save = (\<lambda>k. Inr), ax_w_workflow = (\<lambda>k. Inr), ax_w_ensure = (\<lambda>k. Inr),
     ax_w_version = (\<lambda>k. Inr), ax_w_record = (\<lambda>k. Inr)\<rparr>"

definition demo_sys :: "string list sys" where
  "demo_sys = \<lparr>sy_neon = demo_versions, sy_phase2 = empty_db, sy_outside = [], sy_adapter = None\<rparr>"

lemma demo_org: "resolve_org (demo_ax e) = (Inr ''org'', 1)"
  by (simp add: resolve_org_def resolveActiveOrgId_def readAuthWithRetry_def demo_ax_def or_undef_def Let_def)

lemma demo_gate: "run_gate (demo_ax e) ''w'' demo_graph = Inr ''org''"
proof -
  have "workflowGraphSchema z demo_graph = Inr demo_graph" for z
    by (simp add: workflowGraphSchema_def array_issues_def node_issues_def edge_issues_def nonempty_issue_def
        demo_graph_def demo_node_def demo_edge_def)
  moreover have "\<not> has_agent demo_graph" by (simp add: has_agent_def demo_graph_def demo_node_def)
  ultimately show ?thesis
    by (simp add: run_gate_def demo_org parseActionInput_def workflowIdSchema_def at_path_def)
      (simp add: demo_ax_def)
qed

lemma demo_valid: "validateGraph kahn_sort demo_graph = []"
  by (simp add: validateGraph_def demo_graph_def demo_node_def demo_edge_def Let_def edge_pairs_def) (code_simp)

lemma demo_save:
  "default_save kahn_sort (\<lambda>k. Inr) 9 ''org'' ''w'' demo_graph demo_versions =
     (Inr (), demo_versions\<lparr>db_workflows := [\<lparr>wf_id = ''w'', wf_orgId = ''org'', wf_name = ''demo'',
        wf_graph = Some demo_graph, wf_createdAt = 0, wf_updatedAt = 9\<rparr>]\<rparr>)"
  by (simp add: default_save_def saveWorkflowGraph_def demo_valid Let_def)
    (simp add: demo_versions_def owns_workflow_def)

lemma demo_flag: "to_lower (trim ''Evo '') = ''evo''" "to_lower (trim []) = []"
  by (code_simp, code_simp)

lemma demo_engine: "getExecutionEngine (ax_env (demo_ax ''Evo '')) = Evo" "getExecutionEngine (ax_env (demo_ax [])) = Legacy"
  by (simp_all add: getExecutionEngine_def demo_ax_def demo_flag)

lemma demo_fields:
  "ax_w_save (demo_ax e) = (\<lambda>k. Inr)" "ax_w_version (demo_ax e) = (\<lambda>k. Inr)" "ax_w_record (demo_ax e) = (\<lambda>k. Inr)"
  "ax_w_workflow (demo_ax e) = (\<lambda>k. Inr)" "ax_w_ensure (demo_ax e) = (\<lambda>k. Inr)" "ax_now (demo_ax e) = 9"
  "ax_ids (demo_ax e) = demo_ids" "ax_uuid (demo_ax e) = ''7''" "ax_toposort (demo_ax e) = kahn_sort"
  "ax_hash (demo_ax e) = (\<lambda>g. ''h2'')" "ax_phase2Client (demo_ax e)"
  "zp_is_uuid (ax_zod (demo_ax e)) i \<longleftrightarrow> i \<noteq> []"
  "ax_mkEvo (demo_ax e) = createEvoEngineAdapter code_cmp demo_client ''fresh'' 9"
  "ax_mkLegacy (demo_ax e) = createLegacyEngineAdapter demo_trigger demo_cancel"
  by (simp_all add: demo_ax_def)

lemma demo_sys_fields: "sy_neon demo_sys = demo_versions" "sy_phase2 demo_sys = empty_db"
    "sy_outside demo_sys = []" "sy_adapter demo_sys = None"
  by (simp_all add: demo_sys_def)

lemma demo_snapshot:
  "snapshot_evo (demo_ax ''Evo '') ''org'' ''w'' demo_graph (demo_sys\<lparr>sy_neon := d\<rparr>) =
     (Inr (Some ''nn''), demo_sys\<lparr>sy_neon := d, sy_phase2 := empty_db\<lparr>
        db_workflows := [\<lparr>wf_id = ''w'', wf_orgId = ''org'',
          wf_name = nullish (map_option wf_name (getWorkflow ''org'' ''w'' d)) ''workflow'',
          wf_graph = None, wf_createdAt = 9, wf_updatedAt = 9\<rparr>],
        db_versions := [new_version (version_args_of (demo_ax ''Evo '') ''org'' ''w'' demo_graph) 9 ''nn'' 1]\<rparr>\<rparr>)"
  by (simp add: snapshot_evo_def demo_fields demo_sys_fields Let_def ensurePhase2Workflow_def empty_db_def
      createWorkflowVersion_def latest_version_def listWorkflowVersions_def MAX_VERSION_RETRIES_def
      eval_nat_numeral insert_version_def new_version_def version_args_of_def demo_ids_def)

lemma demo_evo_run:
  "\<exists>st'. runWorkflowAction (demo_ax ''Evo '') ''w'' demo_graph demo_sys =
     (Inr \<lparr>eh_engine = Evo, eh_runId = ''evo_7'', eh_providerRunId = None\<rparr>, st')"
  by (simp add: runWorkflowAction_def demo_gate demo_engine demo_fields demo_sys_fields demo_save demo_snapshot
      submit_evo_def adapter_for_def getExecutionEngineAdapter_def Let_def createWorkflowRunRecord_def
      insert_run_def new_run_def new_version_def version_args_of_def createEvoEngineAdapter_def
      evo_startRun_def demo_client_def on_reply_def empty_db_def)

lemma demo_standard: "standard_adapters (demo_ax e)"
  unfolding standard_adapters_def demo_fields by blast


theorem cancel_ignores_owner_witness:
  "cancelWorkflowRunAction ((demo_ax [])\<lparr>ax_sessions := (\<lambda>k. \<lparr>se_userId = Some ''eve'', se_orgId = Some ''other'',
      se_has_pro = None\<rparr>), ax_members := (\<lambda>u. Inr [])\<rparr>) ''run_1'' demo_sys =
   cancelWorkflowRunAction (demo_ax []) ''run_1'' demo_sys"
  by (rule cancel_ignores_owner [OF _ _ refl])
    (simp_all add: demo_org resolve_org_def resolveActiveOrgId_def readAuthWithRetry_def or_undef_def Let_def demo_ax_def)

theorem delete_exact_witness:
  "fst (deleteWorkflowAction (demo_ax []) (\<lambda>i s. (Inr (), s)) ''w'' demo_sys) = Inl (StoreFailed ForeignKeyViolation)"
  using delete_exact [of "demo_ax []" "''w''" "''org''" demo_sys demo_versions "\<lambda>i s. (Inr (), s)"]
  by (simp add: demo_org demo_fields demo_sys_fields)
    (simp add: demo_ax_def demo_versions_def owns_workflow_def workflow_referenced_def demo_version_def)


theorem run_on_configured_engine_witness: "\<exists>v. ax_env (demo_ax ''Evo '') ''EXECUTION_ENGINE'' = Some v"
  using run_on_configured_engine [OF demo_standard, of demo_sys "''Evo ''" "''w''" demo_graph] demo_evo_run
  by (fastforce simp: demo_sys_fields)

theorem legacy_run_fail_open_witness:
  "fst (runWorkflowAction (demo_ax []) ''w'' demo_graph demo_sys) =
     Inr \<lparr>eh_engine = Legacy, eh_runId = ''run_1'', eh_providerRunId = Some ''run_1''\<rparr>"
  using legacy_run_fail_open [OF demo_standard, of "[]" demo_trigger demo_cancel demo_sys "''w''" demo_graph "''org''"]
  by (simp add: demo_fields demo_sys_fields demo_gate demo_save demo_engine demo_trigger_def)

end
