(* ===== verification/Leases.thy ===== *)
theory Leases
  imports Schema
begin

text \<open>
  The worker registry and the leases on task attempts, \<open>worker/src/lease-store.ts\<close>, and the contract
  \<open>TaskLeaseStore\<close> of \<open>worker/src/worker.ts\<close>.  Each operation is one SQL statement, so a transition
  of the database.  The contract is stated over an abstract lease per attempt: an attempt that is
  not running has none, a running one has the worker and the expiry of its row.
\<close>

section \<open>The statements\<close>

type_synonym attempt_key = "string \<times> string \<times> int"

text \<open>The join of the two updates: the attempt with this number of this node of this run.\<close>

definition selects :: "db \<Rightarrow> attempt_key \<Rightarrow> task_attempt_row \<Rightarrow> bool" where
  "selects d = (\<lambda>(runId, nodeId, n) a.
     \<exists>nr \<in> set (db_nodeRuns d). ta_nodeRunId a = nr_id nr \<and> nr_runId nr = runId \<and> nr_nodeId nr = nodeId \<and>
       ta_attemptNumber a = n)"

definition running_attempt :: "db \<Rightarrow> attempt_key \<Rightarrow> task_attempt_row \<Rightarrow> bool" where
  "running_attempt d k a \<longleftrightarrow> selects d k a \<and> ta_status a = ''running''"

text \<open>\<open>UPDATE task_attempts SET f WHERE p\<close>: the number of rows changed and the database after it.\<close>

definition update_attempts ::
    "(task_attempt_row \<Rightarrow> bool) \<Rightarrow> (task_attempt_row \<Rightarrow> task_attempt_row) \<Rightarrow> db \<Rightarrow> nat \<times> db" where
  "update_attempts p f d =
     (count_if p (db_attempts d),
      d\<lparr>db_attempts := map (\<lambda>a. if p a then f a else a) (db_attempts d)\<rparr>)"

definition workerHeartbeat :: "int \<Rightarrow> string \<Rightarrow> string \<Rightarrow> int \<Rightarrow> db \<Rightarrow> bool \<times> db" where
  "workerHeartbeat db_now workerId envPrefix nowWallMs d =
     (True,
      if workerId \<in> wk_workerId ` set (db_workers d)
      then d\<lparr>db_workers := map (\<lambda>w. if wk_workerId w = workerId
             then w\<lparr>wk_envPrefix := envPrefix, wk_status := ''alive'', wk_lastHeartbeatAt := Some nowWallMs\<rparr>
             else w) (db_workers d)\<rparr>
      else d\<lparr>db_workers := db_workers d @
             [\<lparr>wk_workerId = workerId, wk_envPrefix = envPrefix, wk_status = ''alive'',
               wk_registeredAt = db_now, wk_lastHeartbeatAt = Some nowWallMs\<rparr>]\<rparr>)"

definition may_take :: "string \<Rightarrow> int \<Rightarrow> task_attempt_row \<Rightarrow> bool" where
  "may_take workerId now a \<longleftrightarrow>
     ta_workerId a = None \<or> ta_workerId a = Some workerId \<or> ta_leaseExpiresAt a = None \<or>
     (\<exists>e \<in> set_option (ta_leaseExpiresAt a). e \<le> now)"

definition acquireAttemptLease ::
    "attempt_key \<Rightarrow> string \<Rightarrow> int \<Rightarrow> int \<Rightarrow> db \<Rightarrow> bool \<times> db" where
  "acquireAttemptLease k workerId acquiredWallMs expiresWallMs d =
     (case update_attempts (\<lambda>a. running_attempt d k a \<and> may_take workerId acquiredWallMs a)
             (\<lambda>a. a\<lparr>ta_workerId := Some workerId, ta_leaseAcquiredAt := Some acquiredWallMs,
                    ta_leaseRenewedAt := Some acquiredWallMs, ta_leaseExpiresAt := Some expiresWallMs\<rparr>) d of
        (rowCount, d') \<Rightarrow> (rowCount = 1, d'))"

definition renewAttemptLease ::
    "attempt_key \<Rightarrow> string \<Rightarrow> int \<Rightarrow> int \<Rightarrow> db \<Rightarrow> bool \<times> db" where
  "renewAttemptLease k workerId renewedWallMs expiresWallMs d =
     (case update_attempts (\<lambda>a. running_attempt d k a \<and> ta_workerId a = Some workerId)
             (\<lambda>a. a\<lparr>ta_leaseRenewedAt := Some renewedWallMs, ta_leaseExpiresAt := Some expiresWallMs\<rparr>) d of
        (rowCount, d') \<Rightarrow> (rowCount = 1, d'))"

section \<open>The contract\<close>

text \<open>The lease of an attempt: \<open>None\<close> when it is not running, else its holder and its expiry.\<close>

type_synonym lease = "(string option \<times> int option) option"

fun spec_acquire :: "string \<Rightarrow> int \<Rightarrow> int \<Rightarrow> lease \<Rightarrow> bool \<times> lease" where
  "spec_acquire w now e None = (False, None)"
| "spec_acquire w now e (Some (holder, expiry)) =
     (if holder = None \<or> holder = Some w \<or> expiry = None \<or> (\<exists>x \<in> set_option expiry. x \<le> now)
      then (True, Some (Some w, Some e)) else (False, Some (holder, expiry)))"

fun spec_renew :: "string \<Rightarrow> int \<Rightarrow> lease \<Rightarrow> bool \<times> lease" where
  "spec_renew w e None = (False, None)"
| "spec_renew w e (Some (holder, expiry)) =
     (if holder = Some w then (True, Some (Some w, Some e)) else (False, Some (holder, expiry)))"

datatype lease_op =
    Acquire attempt_key string int int
  | Renew attempt_key string int int

fun op_key :: "lease_op \<Rightarrow> attempt_key" where
  "op_key (Acquire k w t e) = k"
| "op_key (Renew k w t e) = k"

fun op_worker :: "lease_op \<Rightarrow> string" where
  "op_worker (Acquire k w t e) = w"
| "op_worker (Renew k w t e) = w"

fun op_time :: "lease_op \<Rightarrow> int" where
  "op_time (Acquire k w t e) = t"
| "op_time (Renew k w t e) = t"

fun op_expiry :: "lease_op \<Rightarrow> int" where
  "op_expiry (Acquire k w t e) = e"
| "op_expiry (Renew k w t e) = e"

fun spec_op :: "lease_op \<Rightarrow> lease \<Rightarrow> bool \<times> lease" where
  "spec_op (Acquire k w t e) l = spec_acquire w t e l"
| "spec_op (Renew k w t e) l = spec_renew w e l"

text \<open>A sequence of operations of any workers, and their answers.\<close>

fun run_ops :: "(lease_op \<Rightarrow> 'st \<Rightarrow> bool \<times> 'st) \<Rightarrow> lease_op list \<Rightarrow> 'st \<Rightarrow> bool list \<times> 'st" where
  "run_ops f [] s = ([], s)"
| "run_ops f (x # xs) s =
     (case f x s of (b, s1) \<Rightarrow> (case run_ops f xs s1 of (bs, s2) \<Rightarrow> (b # bs, s2)))"

text \<open>Holding a lease at least until \<open>e\<close>, and the operations that do not end that.\<close>

definition held :: "lease \<Rightarrow> string \<Rightarrow> int \<Rightarrow> bool" where
  "held l w e \<longleftrightarrow> (\<exists>x. l = Some (Some w, Some x) \<and> e \<le> x)"

definition tame :: "attempt_key \<Rightarrow> string \<Rightarrow> int \<Rightarrow> lease_op \<Rightarrow> bool" where
  "tame k w e x \<longleftrightarrow> op_key x = k \<longrightarrow>
     (if op_worker x = w then e \<le> op_expiry x else op_time x < e)"

text \<open>
  A store implements the contract when each operation answers as the abstract lease of its attempt
  does, changes that lease accordingly and no other, and keeps the store's invariant.
\<close>

locale task_lease_store =
  fixes inv :: "'st \<Rightarrow> bool"
    and lease_of :: "'st \<Rightarrow> attempt_key \<Rightarrow> lease"
    and do_op :: "lease_op \<Rightarrow> 'st \<Rightarrow> bool \<times> 'st"
  assumes op_inv: "inv s \<Longrightarrow> inv (snd (do_op x s))"
    and op_answer: "inv s \<Longrightarrow> fst (do_op x s) = fst (spec_op x (lease_of s (op_key x)))"
    and op_effect: "inv s \<Longrightarrow> lease_of (snd (do_op x s)) =
      (lease_of s)(op_key x := snd (spec_op x (lease_of s (op_key x))))"
begin

lemma held_step:
  assumes "inv s" and "held (lease_of s k) w e" and "tame k w e x"
  shows "held (lease_of (snd (do_op x s)) k) w e"
    and "op_key x = k \<Longrightarrow> op_worker x \<noteq> w \<Longrightarrow> \<not> fst (do_op x s)"
proof -
  obtain y where y: "lease_of s k = Some (Some w, Some y)" "e \<le> y" using assms(2) by (auto simp: held_def)
  show "held (lease_of (snd (do_op x s)) k) w e"
    using y assms(3) unfolding held_def op_effect [OF assms(1)]
    by (cases x) (auto simp: tame_def split: if_splits)
  show "op_key x = k \<Longrightarrow> op_worker x \<noteq> w \<Longrightarrow> \<not> fst (do_op x s)"
    using y assms(3) unfolding op_answer [OF assms(1)] by (cases x) (auto simp: tame_def)
qed

text \<open>While a lease is held, no operation of another worker on the attempt succeeds.\<close>

lemma exclusive:
  "inv s \<Longrightarrow> held (lease_of s k) w e \<Longrightarrow> list_all (tame k w e) xs \<Longrightarrow> run_ops do_op xs s = (bs, s') \<Longrightarrow>
     inv s' \<and> held (lease_of s' k) w e \<and>
     list_all2 (\<lambda>x b. op_key x = k \<and> op_worker x \<noteq> w \<longrightarrow> \<not> b) xs bs"
proof (induction xs arbitrary: s bs)
  case (Cons x xs)
  obtain b s1 where s1: "do_op x s = (b, s1)" by (cases "do_op x s")
  obtain bs2 where r: "run_ops do_op xs s1 = (bs2, s')" "bs = b # bs2"
    using Cons.prems(4) s1 by (auto split: prod.splits)
  have "inv s1" using op_inv [OF Cons.prems(1), of x] s1 by simp
  moreover have "held (lease_of s1 k) w e" "op_key x = k \<and> op_worker x \<noteq> w \<longrightarrow> \<not> b"
    using held_step [OF Cons.prems(1,2), of x] Cons.prems(3) s1 by auto
  ultimately show ?case using Cons.IH [of s1 bs2] Cons.prems(3) r by auto
qed simp

lemma acquired_held:
  "inv s \<Longrightarrow> do_op (Acquire k w t e) s = (True, s1) \<Longrightarrow> inv s1 \<and> held (lease_of s1 k) w e"
  using op_inv [of s "Acquire k w t e"] op_answer [of s "Acquire k w t e"] op_effect [of s "Acquire k w t e"]
  by (cases "lease_of s k") (auto simp: held_def split: if_splits)

end

section \<open>The Postgres store implements the contract\<close>

definition lease_of_row :: "task_attempt_row \<Rightarrow> string option \<times> int option" where
  "lease_of_row a = (ta_workerId a, ta_leaseExpiresAt a)"

definition db_lease :: "db \<Rightarrow> attempt_key \<Rightarrow> lease" where
  "db_lease d k = map_option lease_of_row (List.find (running_attempt d k) (db_attempts d))"

fun pg_op :: "lease_op \<Rightarrow> db \<Rightarrow> bool \<times> db" where
  "pg_op (Acquire k w t e) d = acquireAttemptLease k w t e d"
| "pg_op (Renew k w t e) d = renewAttemptLease k w t e d"

lemma count_unique:
  assumes "\<And>a b. a \<in> set xs \<Longrightarrow> b \<in> set xs \<Longrightarrow> S a \<Longrightarrow> S b \<Longrightarrow> a = b" and "distinct xs"
  shows "count_if (\<lambda>a. S a \<and> c a) xs = (case List.find S xs of None \<Rightarrow> 0 | Some a \<Rightarrow> if c a then 1 else 0)"
  using assms
proof (induction xs)
  case (Cons x xs)
  show ?case
  proof (cases "S x")
    case True
    then have "\<not> S b" if "b \<in> set xs" for b using Cons.prems that by auto
    then have "filter (\<lambda>a. S a \<and> c a) xs = []" by (auto simp: filter_empty_conv)
    then show ?thesis using True by simp
  next
    case False
    then show ?thesis using Cons by simp
  qed
qed simp

lemma find_after_update:
  assumes "\<And>a. S (f a) = S a"
  shows "List.find S (map (\<lambda>a. if T a then f a else a) xs) =
    map_option (\<lambda>a. if T a then f a else a) (List.find S xs)"
  using assms by (induction xs) auto

lemma distinct_key_inj:
  "distinct (map key xs) \<Longrightarrow> a \<in> set xs \<Longrightarrow> b \<in> set xs \<Longrightarrow> key a = key b \<Longrightarrow> a = b"
  by (auto simp: distinct_map dest: inj_onD)

lemma running_unique:
  assumes "db_keys d" and "a \<in> set (db_attempts d)" and "b \<in> set (db_attempts d)"
    and "running_attempt d k a" and "running_attempt d k b"
  shows "a = b"
proof -
  obtain r n j where k: "k = (r, n, j)" by (cases k)
  obtain x y where xy: "x \<in> set (db_nodeRuns d)" "y \<in> set (db_nodeRuns d)"
    "ta_nodeRunId a = nr_id x" "ta_nodeRunId b = nr_id y"
    "(nr_runId x, nr_nodeId x) = (nr_runId y, nr_nodeId y)" "ta_attemptNumber a = ta_attemptNumber b"
    using assms(4,5) k by (auto simp: running_attempt_def selects_def)
  then have "x = y" using distinct_key_inj [OF keys_of(8) [OF assms(1)]] by blast
  then show ?thesis using distinct_key_inj [OF keys_of(10) [OF assms(1)] assms(2,3)] xy by simp
qed

lemma other_key:
  assumes "db_keys d" and "a \<in> set (db_attempts d)" and "running_attempt d k a" and "running_attempt d k' a"
  shows "k = k'"
proof -
  obtain r n j r' n' j' where k: "k = (r, n, j)" "k' = (r', n', j')" by (cases k, cases k') auto
  obtain x y where xy: "x \<in> set (db_nodeRuns d)" "y \<in> set (db_nodeRuns d)" "nr_id x = nr_id y"
    "nr_runId x = r" "nr_nodeId x = n" "nr_runId y = r'" "nr_nodeId y = n'" "j = j'"
    using assms(3,4) k by (auto simp: running_attempt_def selects_def)
  then have "x = y" using keys_of(7) [OF assms(1)] by (auto simp: distinct_map dest: inj_onD)
  with xy k show ?thesis by simp
qed

text \<open>What one guarded update does to the leases, for a change that leaves the key and the status.\<close>

lemma update_lease:
  assumes "db_keys d"
    and f: "\<And>a. ta_nodeRunId (f a) = ta_nodeRunId a" "\<And>a. ta_attemptNumber (f a) = ta_attemptNumber a"
      "\<And>a. ta_status (f a) = ta_status a" "\<And>a. ta_id (f a) = ta_id a"
    and u: "update_attempts (\<lambda>a. running_attempt d k a \<and> c a) f d = (n, d')"
  shows "db_keys d'"
    and "n = (case List.find (running_attempt d k) (db_attempts d) of None \<Rightarrow> 0 | Some a \<Rightarrow> if c a then 1 else 0)"
    and "db_lease d' = (db_lease d)(k := map_option (\<lambda>a. lease_of_row (if c a then f a else a))
      (List.find (running_attempt d k) (db_attempts d)))"
proof -
  let ?T = "\<lambda>a. running_attempt d k a \<and> c a"
  have d': "d' = d\<lparr>db_attempts := map (\<lambda>a. if ?T a then f a else a) (db_attempts d)\<rparr>"
    and n: "n = count_if ?T (db_attempts d)"
    using u by (simp_all add: update_attempts_def)
  have ids: "distinct (map ta_id (map (\<lambda>a. if ?T a then f a else a) (db_attempts d)))"
    "distinct (map (\<lambda>a. (ta_nodeRunId a, ta_attemptNumber a)) (map (\<lambda>a. if ?T a then f a else a) (db_attempts d)))"
    using keys_of(9,10) [OF assms(1)] f by (simp_all add: distinct_key_map del: map_map)
  show "db_keys d'" unfolding d' by (rule keys_update(6) [OF assms(1) ids])
  have dist: "distinct (db_attempts d)" using keys_of(9) [OF assms(1)] by (simp add: distinct_map)
  show "n = (case List.find (running_attempt d k) (db_attempts d) of None \<Rightarrow> 0 | Some a \<Rightarrow> if c a then 1 else 0)"
    unfolding n by (rule count_unique [OF running_unique [OF assms(1)] dist])
  have same: "running_attempt d' j = running_attempt d j" for j
    by (intro ext) (simp add: running_attempt_def selects_def d' split: prod.splits)
  have kept: "running_attempt d j (f a) = running_attempt d j a" for j a
    by (simp add: running_attempt_def selects_def f split: prod.splits)
  have found: "List.find (running_attempt d' j) (db_attempts d') =
      map_option (\<lambda>a. if ?T a then f a else a) (List.find (running_attempt d j) (db_attempts d))" for j
    unfolding same by (simp add: d' find_after_update [of "running_attempt d j" f, OF kept])
  show "db_lease d' = (db_lease d)(k := map_option (\<lambda>a. lease_of_row (if c a then f a else a))
      (List.find (running_attempt d k) (db_attempts d)))"
  proof
    fix j
    show "db_lease d' j = ((db_lease d)(k := map_option (\<lambda>a. lease_of_row (if c a then f a else a))
        (List.find (running_attempt d k) (db_attempts d)))) j"
    proof (cases "List.find (running_attempt d j) (db_attempts d)")
      case None
      then show ?thesis by (auto simp: db_lease_def found)
    next
      case (Some a)
      then have "a \<in> set (db_attempts d)" "running_attempt d j a" using find_SomeD by force+
      then have "running_attempt d k a \<longleftrightarrow> j = k" using other_key [OF assms(1)] by blast
      then show ?thesis using Some by (auto simp: db_lease_def found)
    qed
  qed
qed

lemma lease_answer:
  "fst (spec_acquire w t e (map_option lease_of_row r)) = (\<exists>a. r = Some a \<and> may_take w t a)"
  "snd (spec_acquire w t e (map_option lease_of_row r)) =
     map_option (\<lambda>a. if may_take w t a then (Some w, Some e) else lease_of_row a) r"
  "fst (spec_renew w e (map_option lease_of_row r)) = (\<exists>a. r = Some a \<and> ta_workerId a = Some w)"
  "snd (spec_renew w e (map_option lease_of_row r)) =
     map_option (\<lambda>a. if ta_workerId a = Some w then (Some w, Some e) else lease_of_row a) r"
  by (cases r; simp add: lease_of_row_def may_take_def)+

lemma pg_acquire:
  assumes "db_keys d" and "acquireAttemptLease k w t e d = (b, d')"
  shows "db_keys d'" and "b = fst (spec_acquire w t e (db_lease d k))"
    and "db_lease d' = (db_lease d)(k := snd (spec_acquire w t e (db_lease d k)))"
proof -
  let ?f = "\<lambda>a. a\<lparr>ta_workerId := Some w, ta_leaseAcquiredAt := Some t, ta_leaseRenewedAt := Some t,
     ta_leaseExpiresAt := Some e\<rparr>"
  obtain n where u: "update_attempts (\<lambda>a. running_attempt d k a \<and> may_take w t a) ?f d = (n, d')" "b = (n = 1)"
    using assms(2) by (auto simp: acquireAttemptLease_def split: prod.splits)
  note l = update_lease [OF assms(1) _ _ _ _ u(1), simplified]
  show "db_keys d'" by (rule l(1))
  show "b = fst (spec_acquire w t e (db_lease d k))"
    using u(2) l(2) lease_answer(1) [of w t e "List.find (running_attempt d k) (db_attempts d)"]
    by (auto simp: db_lease_def split: option.splits)
  have "(\<lambda>a. lease_of_row (if may_take w t a then ?f a else a)) =
      (\<lambda>a. if may_take w t a then (Some w, Some e) else lease_of_row a)"
    by (auto simp: lease_of_row_def)
  then show "db_lease d' = (db_lease d)(k := snd (spec_acquire w t e (db_lease d k)))"
    using l(3) lease_answer(2) [of w t e "List.find (running_attempt d k) (db_attempts d)"]
    by (simp add: db_lease_def)
qed

lemma pg_renew:
  assumes "db_keys d" and "renewAttemptLease k w t e d = (b, d')"
  shows "db_keys d'" and "b = fst (spec_renew w e (db_lease d k))"
    and "db_lease d' = (db_lease d)(k := snd (spec_renew w e (db_lease d k)))"
proof -
  let ?f = "\<lambda>a. a\<lparr>ta_leaseRenewedAt := Some t, ta_leaseExpiresAt := Some e\<rparr>"
  obtain n where u: "update_attempts (\<lambda>a. running_attempt d k a \<and> ta_workerId a = Some w) ?f d = (n, d')" "b = (n = 1)"
    using assms(2) by (auto simp: renewAttemptLease_def split: prod.splits)
  note l = update_lease [OF assms(1) _ _ _ _ u(1), simplified]
  show "db_keys d'" by (rule l(1))
  show "b = fst (spec_renew w e (db_lease d k))"
    using u(2) l(2) lease_answer(3) [of w e "List.find (running_attempt d k) (db_attempts d)"]
    by (auto simp: db_lease_def split: option.splits)
  have "(\<lambda>a. lease_of_row (if ta_workerId a = Some w then ?f a else a)) =
      (\<lambda>a. if ta_workerId a = Some w then (Some w, Some e) else lease_of_row a)"
    by (auto simp: lease_of_row_def)
  then show "db_lease d' = (db_lease d)(k := snd (spec_renew w e (db_lease d k)))"
    using l(3) lease_answer(4) [of w e "List.find (running_attempt d k) (db_attempts d)"]
    by (simp add: db_lease_def)
qed

interpretation pg: task_lease_store db_keys db_lease pg_op
proof
  fix s x
  assume keys: "db_keys s"
  show "db_keys (snd (pg_op x s))"
    by (cases x) (use pg_acquire(1) [OF keys] pg_renew(1) [OF keys] in \<open>auto simp: prod_eq_iff\<close>)
  show "fst (pg_op x s) = fst (spec_op x (db_lease s (op_key x)))"
    by (cases x) (use pg_acquire(2) [OF keys] pg_renew(2) [OF keys] in \<open>auto simp: prod_eq_iff\<close>)
  show "db_lease (snd (pg_op x s)) = (db_lease s)(op_key x := snd (spec_op x (db_lease s (op_key x))))"
    by (cases x) (use pg_acquire(3) [OF keys] pg_renew(3) [OF keys] in \<open>auto simp: prod_eq_iff\<close>)
qed

text \<open>
  C6. The SQL implements the lease contract: acquiring and renewing answer exactly as the abstract
  lease of the attempt says, change that lease accordingly, and leave every other attempt's lease
  and the keys alone.
\<close>

theorem lease_store_refines:
  assumes "db_keys d"
  shows "fst (pg_op x d) = fst (spec_op x (db_lease d (op_key x))) \<and>
    db_lease (snd (pg_op x d)) = (db_lease d)(op_key x := snd (spec_op x (db_lease d (op_key x)))) \<and>
    db_keys (snd (pg_op x d))"
  using pg.op_inv [OF assms] pg.op_answer [OF assms] pg.op_effect [OF assms] by blast

text \<open>
  C7. A worker that acquired a lease keeps it until the expiry it asked for: in any interleaving of
  acquisitions and renewals by any workers on any attempts, as long as the others act before that
  time and the holder only asks for later expiries, every operation of another worker on the
  attempt is refused and the holder still holds the lease at the end.
\<close>

theorem lease_exclusive:
  assumes "db_keys d" and "acquireAttemptLease k w t e d = (True, d1)"
    and "list_all (tame k w e) xs" and "run_ops pg_op xs d1 = (bs, d2)"
  shows "list_all2 (\<lambda>x b. op_key x = k \<and> op_worker x \<noteq> w \<longrightarrow> \<not> b) xs bs \<and>
    held (db_lease d2 k) w e"
  using pg.exclusive [OF _ _ assms(3,4)] pg.acquired_held [OF assms(1), of k w t e d1] assms(2) by simp

section \<open>A concrete store\<close>

definition demo_attempts :: db where
  "demo_attempts = empty_db\<lparr>
     db_nodeRuns := [\<lparr>nr_id = ''n1'', nr_runId = ''r'', nr_nodeId = ''a'', nr_nodeType = ''act'',
       nr_status = ''running'', nr_attemptCount = 1, nr_output = None, nr_failureReason = None,
       nr_retryWaitUntil = None, nr_retryReason = None, nr_startedAt = None, nr_finishedAt = None\<rparr>],
     db_attempts := [\<lparr>ta_id = ''t1'', ta_nodeRunId = ''n1'', ta_attemptNumber = 1, ta_workerId = None,
       ta_status = ''running'', ta_output = None, ta_error = None, ta_startedAt = None,
       ta_finishedAt = None, ta_leaseAcquiredAt = None, ta_leaseRenewedAt = None,
       ta_leaseExpiresAt = Some 5, ta_leaseExpiredAt = None\<rparr>]\<rparr>"

lemma demo_attempts_keys: "db_keys demo_attempts"
  by (simp add: db_keys_def demo_attempts_def empty_db_def)

abbreviation demo_key :: attempt_key where
  "demo_key \<equiv> (''r'', ''a'', 1)"

theorem lease_store_refines_witness:
  "fst (pg_op (Acquire demo_key ''w1'' 10 40) demo_attempts)"
  using lease_store_refines [OF demo_attempts_keys, of "Acquire demo_key ''w1'' 10 40"]
  by (simp add: db_lease_def demo_attempts_def running_attempt_def selects_def lease_of_row_def)

lemma demo_acquired: "fst (acquireAttemptLease demo_key ''w1'' 10 40 demo_attempts)"
  by (simp add: acquireAttemptLease_def update_attempts_def demo_attempts_def running_attempt_def selects_def may_take_def)

theorem lease_exclusive_witness:
  "\<exists>bs d2. run_ops pg_op [Renew demo_key ''w1'' 20 50, Acquire demo_key ''w2'' 30 60]
      (snd (acquireAttemptLease demo_key ''w1'' 10 40 demo_attempts)) = (bs, d2) \<and> length bs = 2 \<and> \<not> bs ! 1"
proof -
  let ?d1 = "snd (acquireAttemptLease demo_key ''w1'' 10 40 demo_attempts)"
  let ?xs = "[Renew demo_key ''w1'' 20 50, Acquire demo_key ''w2'' 30 60]"
  have acq: "acquireAttemptLease demo_key ''w1'' 10 40 demo_attempts = (True, ?d1)"
    using demo_acquired by (simp add: prod_eq_iff)
  have "list_all (tame demo_key ''w1'' 40) ?xs" by (simp add: tame_def)
  then have "list_all2 (\<lambda>x b. op_key x = demo_key \<and> op_worker x \<noteq> ''w1'' \<longrightarrow> \<not> b) ?xs (fst (run_ops pg_op ?xs ?d1))"
    using lease_exclusive [OF demo_attempts_keys acq, of ?xs "fst (run_ops pg_op ?xs ?d1)" "snd (run_ops pg_op ?xs ?d1)"]
    by simp
  then show ?thesis
    by (cases "run_ops pg_op ?xs ?d1")
      (auto simp: list_all2_Cons1 simp del: run_ops.simps)
qed

lemma keys_heartbeat:
  assumes "db_keys d"
  shows "db_keys (snd (workerHeartbeat db_now w p now d))"
  using keys_of(11) [OF assms]
  by (auto intro!: keys_update(7) [OF assms] simp: workerHeartbeat_def distinct_key_map simp del: map_map)

end
