(* ===== verification/Envelope.thy ===== *)
theory Envelope
  imports Engine
begin

text \<open>
  The envelopes workers and scheduler exchange, \<open>worker/src/envelope-codec.ts\<close>, and the stream client
  that carries them, \<open>worker/src/redis-streams.ts\<close>.  The protobuf runtime and Redis are parameters: a
  message is the record of its fields, \<open>None\<close> for a field that is not set, and a \<open>codec\<close> turns it
  into bytes and back.
\<close>

section \<open>Codes\<close>

definition STATUS_UNSPECIFIED :: int where "STATUS_UNSPECIFIED = 0"
definition STATUS_OK :: int where "STATUS_OK = 1"
definition NODE_FAILED :: int where "NODE_FAILED = 2"
definition STATUS_CANCELED :: int where "STATUS_CANCELED = 3"
definition ERROR_TRANSIENT :: int where "ERROR_TRANSIENT = 1"
definition ERROR_PERMANENT :: int where "ERROR_PERMANENT = 2"
definition ERROR_CANCELED :: int where "ERROR_CANCELED = 4"
definition CANCEL_RUN :: int where "CANCEL_RUN = 1"

lemmas code_defs = STATUS_UNSPECIFIED_def STATUS_OK_def NODE_FAILED_def STATUS_CANCELED_def
  ERROR_TRANSIENT_def ERROR_PERMANENT_def ERROR_CANCELED_def CANCEL_RUN_def

type_synonym bytes = string

text \<open>
  \<open>pc_encode\<close> verifies, creates and encodes a message (the error is the verification's text);
  \<open>pc_decode\<close> is \<open>None\<close> on malformed bytes.
\<close>

record 'm codec =
  pc_encode :: "'m \<Rightarrow> string + bytes"
  pc_decode :: "bytes \<Rightarrow> 'm option"

definition encode_or_throw :: "string \<Rightarrow> 'm codec \<Rightarrow> 'm \<Rightarrow> string + bytes" where
  "encode_or_throw name c payload =
     (case pc_encode c payload of Inl err \<Rightarrow> Inl (name @ '' invalid: '' @ err) | Inr b \<Rightarrow> Inr b)"

definition wallToTimestamp :: "int \<Rightarrow> proto_timestamp" where
  "wallToTimestamp ms =
     (let seconds = ms div 1000; nanos = js_rem ms 1000 * 1000000
      in \<lparr>pts_seconds = Some seconds, pts_nanos = Some nanos\<rparr>)"

text \<open>An optional string that is only set when it is truthy.\<close>

definition if_truthy :: "string option \<Rightarrow> string option" where
  "if_truthy s = (if truthy s then s else None)"

section \<open>Task envelopes\<close>

record task_msg =
  tm_runId :: "string option"
  tm_workflowVersionId :: "string option"
  tm_orgId :: "string option"
  tm_nodeId :: "string option"
  tm_attemptNumber :: "int option"
  tm_resourceClass :: "int option"
  tm_affinityKey :: "string option"
  tm_traceId :: "string option"
  tm_spanId :: "string option"
  tm_nodeType :: "string option"
  tm_nodePayloadJson :: "string option"
  tm_becameReadyAt :: "proto_timestamp option"

record task_view =
  tk_runId :: string
  tk_workflowVersionId :: string
  tk_orgId :: string
  tk_nodeId :: string
  tk_attemptNumber :: int
  tk_resourceClass :: int
  tk_affinityKey :: string
  tk_traceId :: string
  tk_spanId :: string
  tk_nodeType :: string
  tk_nodePayloadJson :: string

definition task_of_msg :: "task_msg \<Rightarrow> task_view" where
  "task_of_msg m =
     \<lparr>tk_runId = nullish (tm_runId m) [], tk_workflowVersionId = nullish (tm_workflowVersionId m) [],
      tk_orgId = nullish (tm_orgId m) [], tk_nodeId = nullish (tm_nodeId m) [],
      tk_attemptNumber = nullish (tm_attemptNumber m) 0, tk_resourceClass = nullish (tm_resourceClass m) 0,
      tk_affinityKey = nullish (tm_affinityKey m) [], tk_traceId = nullish (tm_traceId m) [],
      tk_spanId = nullish (tm_spanId m) [], tk_nodeType = nullish (tm_nodeType m) [],
      tk_nodePayloadJson = nullish (tm_nodePayloadJson m) []\<rparr>"

definition decodeTaskEnvelope :: "task_msg codec \<Rightarrow> bytes \<Rightarrow> task_view option" where
  "decodeTaskEnvelope c b = map_option task_of_msg (pc_decode c b)"

record task_input =
  ti_runId :: string
  ti_workflowVersionId :: "string option"
  ti_orgId :: string
  ti_nodeId :: string
  ti_attemptNumber :: int
  ti_resourceClass :: "int option"
  ti_affinityKey :: "string option"
  ti_traceId :: "string option"
  ti_spanId :: "string option"
  ti_nodeType :: string
  ti_nodePayloadJson :: "string option"
  ti_becameReadyAtWallMs :: "int option"

definition encodeTaskEnvelope :: "task_msg codec \<Rightarrow> task_input \<Rightarrow> string + bytes" where
  "encodeTaskEnvelope c i = encode_or_throw ''TaskEnvelope'' c
     \<lparr>tm_runId = Some (ti_runId i), tm_workflowVersionId = if_truthy (ti_workflowVersionId i),
      tm_orgId = Some (ti_orgId i), tm_nodeId = Some (ti_nodeId i),
      tm_attemptNumber = Some (ti_attemptNumber i), tm_resourceClass = ti_resourceClass i,
      tm_affinityKey = if_truthy (ti_affinityKey i), tm_traceId = if_truthy (ti_traceId i),
      tm_spanId = if_truthy (ti_spanId i), tm_nodeType = Some (ti_nodeType i),
      tm_nodePayloadJson = ti_nodePayloadJson i,
      tm_becameReadyAt = map_option wallToTimestamp (ti_becameReadyAtWallMs i)\<rparr>"

section \<open>Control envelopes\<close>

record control_msg =
  cm_kind :: "int option"
  cm_runId :: "string option"
  cm_reason :: "string option"
  cm_requestedAt :: "proto_timestamp option"

record control_view =
  cv_kind :: int
  cv_runId :: string
  cv_reason :: string
  cv_requestedAtWallMs :: "int option"

text \<open>A field of the timestamp is truthy when it is set and not zero.\<close>

definition control_of_msg :: "control_msg \<Rightarrow> control_view" where
  "control_of_msg m =
     \<lparr>cv_kind = nullish (cm_kind m) 0, cv_runId = nullish (cm_runId m) [], cv_reason = nullish (cm_reason m) [],
      cv_requestedAtWallMs =
        (case cm_requestedAt m of
           None \<Rightarrow> None
         | Some t \<Rightarrow>
             if nullish (pts_seconds t) 0 \<noteq> 0 \<or> nullish (pts_nanos t) 0 \<noteq> 0
             then Some (nullish (pts_seconds t) 0 * 1000 + nullish (pts_nanos t) 0 div 1000000) else None)\<rparr>"

definition decodeControlEnvelope :: "control_msg codec \<Rightarrow> bytes \<Rightarrow> control_view option" where
  "decodeControlEnvelope c b = map_option control_of_msg (pc_decode c b)"

record control_input =
  ct_kind :: int
  ct_runId :: string
  ct_reason :: "string option"
  ct_requestedAtWallMs :: "int option"

definition encodeControlEnvelope :: "control_msg codec \<Rightarrow> control_input \<Rightarrow> string + bytes" where
  "encodeControlEnvelope c i = encode_or_throw ''ControlEnvelope'' c
     \<lparr>cm_kind = Some (ct_kind i), cm_runId = Some (ct_runId i), cm_reason = if_truthy (ct_reason i),
      cm_requestedAt = map_option wallToTimestamp (ct_requestedAtWallMs i)\<rparr>"

section \<open>Result envelopes\<close>

record result_msg =
  rm_runId :: "string option"
  rm_nodeId :: "string option"
  rm_attemptNumber :: "int option"
  rm_traceId :: "string option"
  rm_completed :: "bool option"
  rm_output :: "string option"
  rm_error :: "string option"
  rm_status :: "int option"
  rm_abandoned :: "bool option"
  rm_errorClass :: "int option"
  rm_retryable :: "bool option"
  rm_workerId :: "string option"
  rm_startedAt :: "proto_timestamp option"
  rm_finishedAt :: "proto_timestamp option"

record result_view =
  rv_runId :: string
  rv_nodeId :: string
  rv_attemptNumber :: int
  rv_traceId :: string
  rv_completed :: bool
  rv_output :: string
  rv_error :: string
  rv_status :: int
  rv_abandoned :: bool
  rv_errorClass :: int
  rv_retryable :: "bool option"
  rv_workerId :: string

definition result_of_msg :: "result_msg \<Rightarrow> result_view" where
  "result_of_msg m =
     \<lparr>rv_runId = nullish (rm_runId m) [], rv_nodeId = nullish (rm_nodeId m) [],
      rv_attemptNumber = nullish (rm_attemptNumber m) 0, rv_traceId = nullish (rm_traceId m) [],
      rv_completed = nullish (rm_completed m) False, rv_output = nullish (rm_output m) [],
      rv_error = nullish (rm_error m) [], rv_status = nullish (rm_status m) 0,
      rv_abandoned = nullish (rm_abandoned m) False, rv_errorClass = nullish (rm_errorClass m) 0,
      rv_retryable = rm_retryable m, rv_workerId = nullish (rm_workerId m) []\<rparr>"

definition decodeResultEnvelope :: "result_msg codec \<Rightarrow> bytes \<Rightarrow> result_view option" where
  "decodeResultEnvelope c b = map_option result_of_msg (pc_decode c b)"

record result_input =
  ri_runId :: string
  ri_nodeId :: string
  ri_attemptNumber :: int
  ri_traceId :: "string option"
  ri_completed :: bool
  ri_output :: "string option"
  ri_error :: "string option"
  ri_status :: "int option"
  ri_abandoned :: "bool option"
  ri_errorClass :: "int option"
  ri_retryable :: "bool option"
  ri_workerId :: "string option"
  ri_startedAtWallMs :: "int option"
  ri_finishedAtWallMs :: "int option"

definition result_payload :: "result_input \<Rightarrow> result_msg" where
  "result_payload i =
     \<lparr>rm_runId = Some (ri_runId i), rm_nodeId = Some (ri_nodeId i),
      rm_attemptNumber = Some (ri_attemptNumber i), rm_traceId = if_truthy (ri_traceId i),
      rm_completed = Some (ri_completed i), rm_output = ri_output i, rm_error = ri_error i,
      rm_status = ri_status i, rm_abandoned = ri_abandoned i, rm_errorClass = ri_errorClass i,
      rm_retryable = ri_retryable i, rm_workerId = ri_workerId i,
      rm_startedAt = map_option wallToTimestamp (ri_startedAtWallMs i),
      rm_finishedAt = map_option wallToTimestamp (ri_finishedAtWallMs i)\<rparr>"

definition encodeResultEnvelope :: "result_msg codec \<Rightarrow> result_input \<Rightarrow> string + bytes" where
  "encodeResultEnvelope c i = encode_or_throw ''ResultEnvelope'' c (result_payload i)"

section \<open>Streams\<close>

definition taskStreamKey :: "string \<Rightarrow> string" where "taskStreamKey p = p @ '':tasks''"
definition resultStreamKey :: "string \<Rightarrow> string" where "resultStreamKey p = p @ '':results''"
definition controlStreamKey :: "string \<Rightarrow> string" where "controlStreamKey p = p @ '':control''"
definition events_streamKey :: "string \<Rightarrow> string" where "events_streamKey p = p @ '':events''"

text \<open>A reply of Redis to the group read: the entries of the stream, each an id and its fields.\<close>

type_synonym group_reply = "(string \<times> (string \<times> string list) list) list option"

fun payload_field :: "string list \<Rightarrow> string option" where
  "payload_field [] = None"
| "payload_field (f # fs) =
     (if f = ''payload'' then (case fs of [] \<Rightarrow> None | v # _ \<Rightarrow> Some v) else payload_field fs)"

text \<open>\<open>readGroup\<close>, given the reply: the message, or nothing.\<close>

definition readGroup :: "group_reply \<Rightarrow> (string \<times> bytes) option" where
  "readGroup reply =
     (case reply of
        None \<Rightarrow> None
      | Some streams \<Rightarrow>
          (case streams of
             [] \<Rightarrow> None
           | (stream, messages) # _ \<Rightarrow>
               (case messages of
                  [] \<Rightarrow> None
                | (i, fs) # _ \<Rightarrow>
                    (case payload_field fs of None \<Rightarrow> None | Some raw \<Rightarrow> Some (i, raw)))))"

text \<open>\<open>ensureGroup\<close>: \<open>failure\<close> is Redis' error message, if any.\<close>

definition ensureGroup :: "string option \<Rightarrow> string + bool" where
  "ensureGroup failure =
     (case failure of
        None \<Rightarrow> Inr True
      | Some err \<Rightarrow> if str_includes err ''BUSYGROUP'' then Inr True else Inl err)"

section \<open>Round trips\<close>

text \<open>
  What protobuf promises: decoding the encoding of a message gives its fields back, but a field that
  has its default value may be read as not set, unless it is declared optional (\<open>retryable\<close> and the
  timestamps).
\<close>

definition same_result :: "result_msg \<Rightarrow> result_msg \<Rightarrow> bool" where
  "same_result p m \<longleftrightarrow> result_of_msg p = result_of_msg m"

definition same_control :: "control_msg \<Rightarrow> control_msg \<Rightarrow> bool" where
  "same_control p m \<longleftrightarrow>
     nullish (cm_kind p) 0 = nullish (cm_kind m) 0 \<and> nullish (cm_runId p) [] = nullish (cm_runId m) [] \<and>
     nullish (cm_reason p) [] = nullish (cm_reason m) [] \<and>
     map_option (\<lambda>t. (nullish (pts_seconds t) 0, nullish (pts_nanos t) 0)) (cm_requestedAt p) =
       map_option (\<lambda>t. (nullish (pts_seconds t) 0, nullish (pts_nanos t) 0)) (cm_requestedAt m)"

text \<open>
  A cancel message survives the trip: kind, run and reason come back as sent, and so does the
  time of the request, except that the epoch itself comes back as unset.
\<close>

theorem control_roundtrip:
  assumes "\<And>p b. pc_encode c p = Inr b \<Longrightarrow> \<exists>m. pc_decode c b = Some m \<and> same_control p m"
    and "encodeControlEnvelope c i = Inr b" and "\<forall>ms \<in> set_option (ct_requestedAtWallMs i). 0 \<le> ms"
  shows "decodeControlEnvelope c b =
    Some \<lparr>cv_kind = ct_kind i, cv_runId = ct_runId i, cv_reason = nullish (ct_reason i) [],
      cv_requestedAtWallMs = (if ct_requestedAtWallMs i = Some 0 then None else ct_requestedAtWallMs i)\<rparr>"
proof -
  let ?p = "\<lparr>cm_kind = Some (ct_kind i), cm_runId = Some (ct_runId i), cm_reason = if_truthy (ct_reason i),
      cm_requestedAt = map_option wallToTimestamp (ct_requestedAtWallMs i)\<rparr>"
  have enc: "pc_encode c ?p = Inr b"
    using assms(2) by (auto simp: encodeControlEnvelope_def encode_or_throw_def split: sum.splits)
  obtain m where m: "pc_decode c b = Some m" "same_control ?p m" using assms(1) [OF enc] by blast
  have split: "ms div 1000 * 1000 + js_rem ms 1000 = ms" "ms div 1000 = 0 \<and> js_rem ms 1000 = 0 \<longleftrightarrow> ms = 0"
    if "0 \<le> ms" for ms
  proof -
    show sum: "ms div 1000 * 1000 + js_rem ms 1000 = ms" using that by (simp add: js_rem_nonneg)
    show "ms div 1000 = 0 \<and> js_rem ms 1000 = 0 \<longleftrightarrow> ms = 0" using sum by (auto simp: js_rem_def)
  qed
  have reason: "nullish (if_truthy (ct_reason i)) [] = nullish (ct_reason i) []"
    by (cases "ct_reason i") (auto simp: if_truthy_def)
  show ?thesis
  proof (cases "ct_requestedAtWallMs i")
    case None
    then show ?thesis using m reason
      by (auto simp: decodeControlEnvelope_def control_of_msg_def same_control_def split: option.splits)
  next
    case (Some ms)
    then have "0 \<le> ms" using assms(3) by simp
    note b = split [OF this]
    obtain t where t: "cm_requestedAt m = Some t" "nullish (pts_seconds t) 0 = ms div 1000"
      "nullish (pts_nanos t) 0 = js_rem ms 1000 * 1000000"
      using m(2) Some by (cases "cm_requestedAt m") (auto simp: same_control_def wallToTimestamp_def Let_def)
    show ?thesis using m reason Some t b
      by (auto simp: decodeControlEnvelope_def control_of_msg_def same_control_def)
  qed
qed

lemma result_roundtrip:
  assumes "\<And>p b. pc_encode c p = Inr b \<Longrightarrow> \<exists>m. pc_decode c b = Some m \<and> same_result p m"
    and "encodeResultEnvelope c i = Inr b"
  shows "decodeResultEnvelope c b = Some (result_of_msg (result_payload i))"
proof -
  have "pc_encode c (result_payload i) = Inr b"
    using assms(2) by (auto simp: encodeResultEnvelope_def encode_or_throw_def split: sum.splits)
  from assms(1) [OF this] show ?thesis by (auto simp: decodeResultEnvelope_def same_result_def)
qed

text \<open>A small runtime: it accepts cancel messages sent at one fixed time, and sends the run id.\<close>

definition demo_cancel_msg :: "string \<Rightarrow> control_msg" where
  "demo_cancel_msg r = \<lparr>cm_kind = Some 1, cm_runId = Some r, cm_reason = None,
     cm_requestedAt = Some (wallToTimestamp 1500)\<rparr>"

definition demo_codec :: "control_msg codec" where
  "demo_codec = \<lparr>pc_encode = (\<lambda>p. if p = demo_cancel_msg (nullish (cm_runId p) []) then Inr (nullish (cm_runId p) [])
       else Inl ''unsupported''), pc_decode = (\<lambda>b. Some (demo_cancel_msg b))\<rparr>"

theorem control_roundtrip_witness:
  "decodeControlEnvelope demo_codec ''r'' =
     Some \<lparr>cv_kind = 1, cv_runId = ''r'', cv_reason = [], cv_requestedAtWallMs = Some 1500\<rparr>"
proof -
  let ?i = "\<lparr>ct_kind = 1, ct_runId = ''r'', ct_reason = None, ct_requestedAtWallMs = Some 1500\<rparr>"
  have "\<exists>m. pc_decode demo_codec b = Some m \<and> same_control p m" if "pc_encode demo_codec p = Inr b" for p b
    using that by (auto simp: demo_codec_def same_control_def split: if_splits)
  moreover have "encodeControlEnvelope demo_codec ?i = Inr ''r''"
    by (simp add: encodeControlEnvelope_def encode_or_throw_def demo_codec_def demo_cancel_msg_def if_truthy_def)
  ultimately show ?thesis using control_roundtrip [of demo_codec ?i "''r''"] by simp
qed

end
