(* ===== verification/Worker.thy ===== *)
theory Worker
  imports Envelope
begin

text \<open>
  The distributed worker of \<open>worker/src/worker.ts\<close> as a state machine.  Its jobs (one \<open>process\<close> call
  per claimed message), its control loop and its shutdown interleave at every \<open>await\<close>, so a job is the
  point its \<open>process\<close> call waits at, and a step is what happens between two waits: an event carries the
  outcome of the awaited call (of the lease store, the executor, Redis), which is arbitrary.  The
  invariants hold in every state reachable by any interleaving.
\<close>

section \<open>State\<close>

record executor_result =
  er_completed :: bool
  er_output :: "string option"
  er_error :: "string option"
  er_errorClass :: "int option"
  er_retryable :: "bool option"

record worker_config =
  wc_taskCodec :: "task_msg codec"
  wc_controlCodec :: "control_msg codec"
  wc_resultCodec :: "result_msg codec"
  wc_workerId :: string
  wc_hasLeaseStore :: bool

text \<open>Where a \<open>process\<close> call waits; the integers are its start time, the number of publish attempts made.\<close>

datatype job =
    Decoding bytes int
  | CancelPublishing task_view bytes nat
  | Leasing task_view int
  | Executing task_view int
  | Publishing task_view bytes nat
  | Acking
  | Ended

text \<open>
  The worker.  \<open>ws_controllers r\<close> tells whether the abort controller of run \<open>r\<close> exists and is
  aborted, \<open>ws_abort\<close> is the shutdown controller.  The logs record what happened outside, with the
  message each effect belongs to: results published, messages acknowledged, executor calls, calls of
  \<open>onCancelRun\<close>.
\<close>

record worker =
  ws_canceled :: "string set"
  ws_controllers :: "string \<Rightarrow> bool option"
  ws_abort :: bool
  ws_stopping :: bool
  ws_jobs :: "(string \<times> job) list"
  ws_published :: "(string \<times> bytes) list"
  ws_acked :: "string list"
  ws_executed :: "(string \<times> task_view) list"
  ws_closedRuns :: "string list"

definition init_worker :: worker where
  "init_worker = \<lparr>ws_canceled = {}, ws_controllers = (\<lambda>r. None), ws_abort = False, ws_stopping = False,
     ws_jobs = [], ws_published = [], ws_acked = [], ws_executed = [], ws_closedRuns = []\<rparr>"

definition isRunCanceled :: "string \<Rightarrow> worker \<Rightarrow> bool" where
  "isRunCanceled runId ws \<longleftrightarrow> runId \<in> ws_canceled ws"

text \<open>Get or create the controller of a run.\<close>

definition runAbortControllerFor :: "string \<Rightarrow> worker \<Rightarrow> worker" where
  "runAbortControllerFor runId ws =
     (case ws_controllers ws runId of
        Some _ \<Rightarrow> ws
      | None \<Rightarrow> ws\<lparr>ws_controllers := (ws_controllers ws)(runId := Some False)\<rparr>)"

text \<open>The signal an executor holds: the shutdown's or the run's.\<close>

definition signal_aborted :: "worker \<Rightarrow> string \<Rightarrow> bool" where
  "signal_aborted ws runId \<longleftrightarrow> ws_abort ws \<or> ws_controllers ws runId = Some True"

section \<open>Results\<close>

definition canceled_input :: "worker_config \<Rightarrow> task_view \<Rightarrow> int \<Rightarrow> int \<Rightarrow> result_input" where
  "canceled_input cfg t started finished =
     \<lparr>ri_runId = tk_runId t, ri_nodeId = tk_nodeId t, ri_attemptNumber = tk_attemptNumber t,
      ri_traceId = Some (tk_traceId t), ri_completed = False, ri_output = None, ri_error = Some ''canceled'',
      ri_status = Some STATUS_CANCELED, ri_abandoned = None, ri_errorClass = Some ERROR_CANCELED,
      ri_retryable = Some False, ri_workerId = Some (wc_workerId cfg), ri_startedAtWallMs = Some started,
      ri_finishedAtWallMs = Some finished\<rparr>"

text \<open>What a thrown executor error becomes.\<close>

definition caught :: "worker \<Rightarrow> task_view \<Rightarrow> string + executor_result \<Rightarrow> executor_result" where
  "caught ws t outcome =
     (case outcome of
        Inr r \<Rightarrow> r
      | Inl err \<Rightarrow>
          if isRunCanceled (tk_runId t) ws
          then \<lparr>er_completed = False, er_output = None, er_error = Some ''canceled'',
                er_errorClass = Some ERROR_CANCELED, er_retryable = Some False\<rparr>
          else \<lparr>er_completed = False, er_output = None, er_error = Some err,
                er_errorClass = Some ERROR_TRANSIENT, er_retryable = Some True\<rparr>)"

definition result_input_of ::
    "worker_config \<Rightarrow> worker \<Rightarrow> task_view \<Rightarrow> int \<Rightarrow> int \<Rightarrow> executor_result \<Rightarrow> result_input" where
  "result_input_of cfg ws t started finished r =
     \<lparr>ri_runId = tk_runId t, ri_nodeId = tk_nodeId t, ri_attemptNumber = tk_attemptNumber t,
      ri_traceId = Some (tk_traceId t), ri_completed = er_completed r, ri_output = er_output r,
      ri_error = er_error r,
      ri_status = Some (if er_completed r then STATUS_OK
                        else if isRunCanceled (tk_runId t) ws then STATUS_CANCELED else NODE_FAILED),
      ri_abandoned = None, ri_errorClass = er_errorClass r, ri_retryable = er_retryable r,
      ri_workerId = Some (wc_workerId cfg), ri_startedAtWallMs = Some started,
      ri_finishedAtWallMs = Some finished\<rparr>"

section \<open>Steps of a job\<close>

datatype job_event =
    EvDecoded int
  | EvLease "bool option"
  | EvExecuted int "string + executor_result"
  | EvPublish bool
  | EvAck bool

definition set_job :: "string \<Rightarrow> job \<Rightarrow> worker \<Rightarrow> worker" where
  "set_job i j ws = ws\<lparr>ws_jobs := AList.update i j (ws_jobs ws)\<rparr>"

text \<open>
  After decoding: a malformed message is only acknowledged, a task of a canceled run goes to the
  canceled result (an encoding error there ends the job), any other task takes its run's controller
  and goes on to the lease or, without a lease store, to the executor.
\<close>

definition start_execution :: "string \<Rightarrow> task_view \<Rightarrow> int \<Rightarrow> worker \<Rightarrow> worker" where
  "start_execution i t started ws =
     set_job i (Executing t started) (ws\<lparr>ws_executed := ws_executed ws @ [(i, t)]\<rparr>)"

definition after_decode ::
    "worker_config \<Rightarrow> string \<Rightarrow> bytes \<Rightarrow> int \<Rightarrow> int \<Rightarrow> worker \<Rightarrow> worker" where
  "after_decode cfg i payload started now ws =
     (case decodeTaskEnvelope (wc_taskCodec cfg) payload of
        None \<Rightarrow> set_job i Acking ws
      | Some t \<Rightarrow>
          if isRunCanceled (tk_runId t) ws then
            (case encodeResultEnvelope (wc_resultCodec cfg) (canceled_input cfg t started now) of
               Inl _ \<Rightarrow> set_job i Ended ws
             | Inr b \<Rightarrow> set_job i (CancelPublishing t b 0) ws)
          else
            let ws = runAbortControllerFor (tk_runId t) ws in
            if wc_hasLeaseStore cfg then set_job i (Leasing t started) ws
            else start_execution i t started ws)"

definition after_lease :: "string \<Rightarrow> task_view \<Rightarrow> int \<Rightarrow> bool option \<Rightarrow> worker \<Rightarrow> worker" where
  "after_lease i t started outcome ws =
     (if nullish outcome False then start_execution i t started ws else set_job i Acking ws)"

definition after_executor ::
    "worker_config \<Rightarrow> string \<Rightarrow> task_view \<Rightarrow> int \<Rightarrow> int \<Rightarrow> string + executor_result \<Rightarrow> worker \<Rightarrow> worker" where
  "after_executor cfg i t started now outcome ws =
     (case encodeResultEnvelope (wc_resultCodec cfg)
             (result_input_of cfg ws t started now (caught ws t outcome)) of
        Inl _ \<Rightarrow> set_job i Ended ws
      | Inr b \<Rightarrow> set_job i (Publishing t b 0) ws)"

definition MAX_PUBLISH :: nat where "MAX_PUBLISH = 3"

definition publish_result :: "string \<Rightarrow> bytes \<Rightarrow> worker \<Rightarrow> worker" where
  "publish_result i b ws = ws\<lparr>ws_published := ws_published ws @ [(i, b)]\<rparr>"

text \<open>A result that could not be published leaves the message unacknowledged.\<close>

definition after_publish :: "string \<Rightarrow> task_view \<Rightarrow> bytes \<Rightarrow> nat \<Rightarrow> bool \<Rightarrow> worker \<Rightarrow> worker" where
  "after_publish i t b n ok ws =
     (if ok then set_job i Acking (publish_result i b ws)
      else if Suc n < MAX_PUBLISH then set_job i (Publishing t b (Suc n)) ws
      else set_job i Ended ws)"

text \<open>\<open>publishCanceledResult\<close>: after the last failure the caller acknowledges all the same.\<close>

definition after_cancel_publish :: "string \<Rightarrow> task_view \<Rightarrow> bytes \<Rightarrow> nat \<Rightarrow> bool \<Rightarrow> worker \<Rightarrow> worker" where
  "after_cancel_publish i t b n ok ws =
     (if ok then set_job i Acking (publish_result i b ws)
      else if Suc n < MAX_PUBLISH then set_job i (CancelPublishing t b (Suc n)) ws
      else set_job i Acking ws)"

definition after_ack :: "string \<Rightarrow> bool \<Rightarrow> worker \<Rightarrow> worker" where
  "after_ack i ok ws =
     set_job i Ended (if ok then ws\<lparr>ws_acked := ws_acked ws @ [i]\<rparr> else ws)"

fun job_step :: "worker_config \<Rightarrow> string \<Rightarrow> job \<Rightarrow> job_event \<Rightarrow> worker \<Rightarrow> worker option" where
  "job_step cfg i (Decoding payload started) (EvDecoded now) ws =
     Some (after_decode cfg i payload started now ws)"
| "job_step cfg i (Leasing t started) (EvLease outcome) ws = Some (after_lease i t started outcome ws)"
| "job_step cfg i (Executing t started) (EvExecuted now outcome) ws =
     Some (after_executor cfg i t started now outcome ws)"
| "job_step cfg i (Publishing t b n) (EvPublish ok) ws = Some (after_publish i t b n ok ws)"
| "job_step cfg i (CancelPublishing t b n) (EvPublish ok) ws = Some (after_cancel_publish i t b n ok ws)"
| "job_step cfg i Acking (EvAck ok) ws = Some (after_ack i ok ws)"
| "job_step cfg i j ev ws = None"

section \<open>Claiming, canceling, stopping\<close>

text \<open>One turn of \<open>readLoop\<close> that reads a message.\<close>

definition claim :: "string \<Rightarrow> bytes \<Rightarrow> int \<Rightarrow> worker \<Rightarrow> worker" where
  "claim i payload now ws = set_job i (Decoding payload now) ws"

definition applyControlMessage :: "worker_config \<Rightarrow> bytes \<Rightarrow> worker \<Rightarrow> worker" where
  "applyControlMessage cfg payload ws =
     (case decodeControlEnvelope (wc_controlCodec cfg) payload of
        None \<Rightarrow> ws
      | Some control \<Rightarrow>
          if cv_kind control \<noteq> CANCEL_RUN \<or> cv_runId control = [] then ws
          else if isRunCanceled (cv_runId control) ws then ws
          else
            ws\<lparr>ws_canceled := insert (cv_runId control) (ws_canceled ws),
               ws_controllers := (ws_controllers ws)(cv_runId control := Some True),
               ws_closedRuns := ws_closedRuns ws @ [cv_runId control]\<rparr>)"

definition stop_worker :: "worker \<Rightarrow> worker" where
  "stop_worker ws = ws\<lparr>ws_stopping := True, ws_abort := True\<rparr>"

text \<open>
  A message is delivered once to the group (it reads only new ones), so a claimed id is not among
  the jobs.
\<close>

inductive worker_step :: "worker_config \<Rightarrow> worker \<Rightarrow> worker \<Rightarrow> bool" for cfg where
  claimed: "\<not> ws_stopping ws \<Longrightarrow> i \<notin> fst ` set (ws_jobs ws) \<Longrightarrow> worker_step cfg ws (claim i payload now ws)"
| job: "map_of (ws_jobs ws) i = Some j \<Longrightarrow> job_step cfg i j ev ws = Some ws' \<Longrightarrow> worker_step cfg ws ws'"
| control: "worker_step cfg ws (applyControlMessage cfg payload ws)"
| stopped: "worker_step cfg ws (stop_worker ws)"

inductive reachable :: "worker_config \<Rightarrow> worker \<Rightarrow> bool" for cfg where
  init: "reachable cfg init_worker"
| step: "reachable cfg ws \<Longrightarrow> worker_step cfg ws ws' \<Longrightarrow> reachable cfg ws'"

section \<open>One call of process on its own\<close>

text \<open>
  The outcomes of the awaited calls of one \<open>process\<close> call, and the call run to its end: \<open>fuel\<close> steps
  at most (eight are always enough, see below).
\<close>

record process_env =
  pe_start :: int
  pe_finish :: int
  pe_lease :: "bool option"
  pe_outcome :: "string + executor_result"
  pe_publish :: "nat \<Rightarrow> bool"
  pe_ack :: bool

fun env_event :: "process_env \<Rightarrow> job \<Rightarrow> job_event" where
  "env_event env (Decoding p s) = EvDecoded (pe_finish env)"
| "env_event env (Leasing t s) = EvLease (pe_lease env)"
| "env_event env (Executing t s) = EvExecuted (pe_finish env) (pe_outcome env)"
| "env_event env (Publishing t b n) = EvPublish (pe_publish env n)"
| "env_event env (CancelPublishing t b n) = EvPublish (pe_publish env n)"
| "env_event env Acking = EvAck (pe_ack env)"
| "env_event env Ended = EvAck (pe_ack env)"

fun run_job :: "worker_config \<Rightarrow> process_env \<Rightarrow> string \<Rightarrow> nat \<Rightarrow> worker \<Rightarrow> worker" where
  "run_job cfg env i 0 ws = ws"
| "run_job cfg env i (Suc fuel) ws =
     (case map_of (ws_jobs ws) i of
        None \<Rightarrow> ws
      | Some j \<Rightarrow>
          (case job_step cfg i j (env_event env j) ws of
             None \<Rightarrow> ws
           | Some ws' \<Rightarrow> run_job cfg env i fuel ws'))"

definition process :: "worker_config \<Rightarrow> process_env \<Rightarrow> string \<Rightarrow> bytes \<Rightarrow> worker \<Rightarrow> worker" where
  "process cfg env i payload ws = run_job cfg env i 8 (claim i payload (pe_start env) ws)"

section \<open>Basic facts\<close>

lemma set_job_fields [simp]:
  "ws_canceled (set_job i j ws) = ws_canceled ws" "ws_controllers (set_job i j ws) = ws_controllers ws"
  "ws_abort (set_job i j ws) = ws_abort ws" "ws_stopping (set_job i j ws) = ws_stopping ws"
  "ws_published (set_job i j ws) = ws_published ws" "ws_acked (set_job i j ws) = ws_acked ws"
  "ws_executed (set_job i j ws) = ws_executed ws" "ws_closedRuns (set_job i j ws) = ws_closedRuns ws"
  "map_of (ws_jobs (set_job i j ws)) = (map_of (ws_jobs ws))(i \<mapsto> j)"
  by (simp_all add: set_job_def update_conv')

lemma controller_fields [simp]:
  "ws_canceled (runAbortControllerFor r ws) = ws_canceled ws"
  "ws_abort (runAbortControllerFor r ws) = ws_abort ws"
  "ws_published (runAbortControllerFor r ws) = ws_published ws"
  "ws_acked (runAbortControllerFor r ws) = ws_acked ws"
  "ws_executed (runAbortControllerFor r ws) = ws_executed ws"
  "ws_jobs (runAbortControllerFor r ws) = ws_jobs ws"
  "ws_closedRuns (runAbortControllerFor r ws) = ws_closedRuns ws"
  by (simp_all add: runAbortControllerFor_def split: option.splits)

lemma controller_set [simp]:
  "ws_controllers (runAbortControllerFor r ws) =
     (ws_controllers ws)(r \<mapsto> nullish (ws_controllers ws r) False)"
  by (auto simp: runAbortControllerFor_def split: option.splits)

lemmas step_unfold = after_decode_def after_lease_def after_executor_def after_publish_def
  after_cancel_publish_def after_ack_def start_execution_def publish_result_def Let_def

section \<open>Every job ends\<close>

fun steps_left :: "job \<Rightarrow> nat" where
  "steps_left (Decoding p s) = 7"
| "steps_left (Leasing t s) = 6"
| "steps_left (Executing t s) = 5"
| "steps_left (Publishing t b n) = 2 + (2 - n)"
| "steps_left (CancelPublishing t b n) = 2 + (2 - n)"
| "steps_left Acking = 1"
| "steps_left Ended = 0"

lemma job_step_job:
  assumes "job_step cfg i j ev ws = Some ws'"
  shows "\<exists>j'. map_of (ws_jobs ws') i = Some j' \<and> steps_left j' < steps_left j"
    and "k \<noteq> i \<Longrightarrow> map_of (ws_jobs ws') k = map_of (ws_jobs ws) k"
  using assms
  by (cases "(cfg, i, j, ev, ws)" rule: job_step.cases;
      auto simp: step_unfold MAX_PUBLISH_def split: option.splits sum.splits if_splits)+

lemma job_enabled:
  assumes "j \<noteq> Ended"
  shows "\<exists>ws'. job_step cfg i j (env_event env j) ws = Some ws'"
  using assms by (cases j) auto

lemma run_job_ends:
  "map_of (ws_jobs ws) i = Some j \<Longrightarrow> steps_left j < fuel \<Longrightarrow>
     map_of (ws_jobs (run_job cfg env i fuel ws)) i = Some Ended"
proof (induction fuel arbitrary: ws j)
  case (Suc fuel)
  show ?case
  proof (cases "j = Ended")
    case True
    then show ?thesis using Suc.prems by simp
  next
    case False
    then obtain ws' where s: "job_step cfg i j (env_event env j) ws = Some ws'" using job_enabled by blast
    from job_step_job [OF s] obtain j' where j': "map_of (ws_jobs ws') i = Some j'" "steps_left j' < steps_left j"
      by auto
    have "steps_left j' < fuel" using j'(2) Suc.prems(2) by simp
    then have "map_of (ws_jobs (run_job cfg env i fuel ws')) i = Some Ended"
      using Suc.IH [OF j'(1)] by blast
    then show ?thesis using Suc.prems(1) s by simp
  qed
qed simp

section \<open>The handoff invariant\<close>

text \<open>What the point a job waits at says about the effects of its message.\<close>

fun job_ok :: "worker \<Rightarrow> string \<Rightarrow> job option \<Rightarrow> bool" where
  "job_ok ws i None = (i \<notin> set (ws_acked ws) \<and> i \<notin> fst ` set (ws_executed ws) \<and> i \<notin> fst ` set (ws_published ws))"
| "job_ok ws i (Some (Decoding p s)) =
     (i \<notin> set (ws_acked ws) \<and> i \<notin> fst ` set (ws_executed ws) \<and> i \<notin> fst ` set (ws_published ws))"
| "job_ok ws i (Some (Leasing t s)) =
     (i \<notin> set (ws_acked ws) \<and> i \<notin> fst ` set (ws_executed ws) \<and> i \<notin> fst ` set (ws_published ws))"
| "job_ok ws i (Some (CancelPublishing t b n)) =
     (i \<notin> set (ws_acked ws) \<and> i \<notin> fst ` set (ws_executed ws) \<and> i \<notin> fst ` set (ws_published ws))"
| "job_ok ws i (Some (Executing t s)) =
     (i \<notin> set (ws_acked ws) \<and> i \<in> fst ` set (ws_executed ws) \<and> i \<notin> fst ` set (ws_published ws))"
| "job_ok ws i (Some (Publishing t b n)) =
     (i \<notin> set (ws_acked ws) \<and> i \<in> fst ` set (ws_executed ws) \<and> i \<notin> fst ` set (ws_published ws))"
| "job_ok ws i (Some Acking) =
     (i \<notin> set (ws_acked ws) \<and> (i \<in> fst ` set (ws_executed ws) \<longrightarrow> i \<in> fst ` set (ws_published ws)))"
| "job_ok ws i (Some Ended) =
     (i \<in> set (ws_acked ws) \<and> i \<in> fst ` set (ws_executed ws) \<longrightarrow> i \<in> fst ` set (ws_published ws))"

definition handoff_inv :: "worker \<Rightarrow> bool" where
  "handoff_inv ws \<longleftrightarrow>
     (\<forall>i. job_ok ws i (map_of (ws_jobs ws) i)) \<and> distinct (ws_acked ws) \<and>
     distinct (map fst (ws_executed ws)) \<and> distinct (map fst (ws_published ws))"

text \<open>A step of one job changes nothing that the others' points speak about.\<close>

lemma job_step_logs:
  assumes "job_step cfg i j ev ws = Some ws'" and "k \<noteq> i"
  shows "k \<in> set (ws_acked ws') \<longleftrightarrow> k \<in> set (ws_acked ws)"
    and "k \<in> fst ` set (ws_executed ws') \<longleftrightarrow> k \<in> fst ` set (ws_executed ws)"
    and "k \<in> fst ` set (ws_published ws') \<longleftrightarrow> k \<in> fst ` set (ws_published ws)"
  using assms
  by (cases "(cfg, i, j, ev, ws)" rule: job_step.cases;
      auto simp: step_unfold split: option.splits sum.splits if_splits)+

lemma job_ok_cong:
  assumes "k \<in> set (ws_acked ws') \<longleftrightarrow> k \<in> set (ws_acked ws)"
    and "k \<in> fst ` set (ws_executed ws') \<longleftrightarrow> k \<in> fst ` set (ws_executed ws)"
    and "k \<in> fst ` set (ws_published ws') \<longleftrightarrow> k \<in> fst ` set (ws_published ws)"
  shows "job_ok ws' k j \<longleftrightarrow> job_ok ws k j"
  using assms by (cases "(ws, k, j)" rule: job_ok.cases) simp_all

lemma job_step_ok:
  assumes "job_step cfg i j ev ws = Some ws'" and "job_ok ws i (Some j)"
    and "distinct (ws_acked ws)" "distinct (map fst (ws_executed ws))" "distinct (map fst (ws_published ws))"
  shows "job_ok ws' i (map_of (ws_jobs ws') i) \<and> distinct (ws_acked ws') \<and>
    distinct (map fst (ws_executed ws')) \<and> distinct (map fst (ws_published ws'))"
  using assms
  by (cases "(cfg, i, j, ev, ws)" rule: job_step.cases;
      auto simp: step_unfold split: option.splits sum.splits if_splits; force)

lemma job_step_inv:
  assumes "handoff_inv ws" and "map_of (ws_jobs ws) i = Some j" and "job_step cfg i j ev ws = Some ws'"
  shows "handoff_inv ws'"
proof -
  have own: "job_ok ws i (Some j)" using assms(1,2) by (metis handoff_inv_def)
  note d = job_step_ok [OF assms(3) own]
  have "job_ok ws' k (map_of (ws_jobs ws') k)" if "k \<noteq> i" for k
    using job_ok_cong [OF job_step_logs [OF assms(3) that]] job_step_job(2) [OF assms(3) that] assms(1)
    by (simp add: handoff_inv_def)
  then show ?thesis using d assms(1) unfolding handoff_inv_def by metis
qed

lemma control_fields [simp]:
  "ws_jobs (applyControlMessage cfg p ws) = ws_jobs ws" "ws_acked (applyControlMessage cfg p ws) = ws_acked ws"
  "ws_executed (applyControlMessage cfg p ws) = ws_executed ws"
  "ws_published (applyControlMessage cfg p ws) = ws_published ws"
  "ws_abort (applyControlMessage cfg p ws) = ws_abort ws"
  by (simp_all add: applyControlMessage_def split: option.splits)

lemma handoff_invariant: "reachable cfg ws \<Longrightarrow> handoff_inv ws"
proof (induction rule: reachable.induct)
  case init
  then show ?case by (simp add: handoff_inv_def init_worker_def)
next
  case (step ws ws')
  from step.hyps(2) show ?case
  proof cases
    case (claimed i payload now)
    then have "map_of (ws_jobs ws) i = None" by (simp add: map_of_eq_None_iff)
    moreover have "job_ok ws i (map_of (ws_jobs ws) i)" using step.IH by (simp add: handoff_inv_def)
    ultimately have new: "job_ok ws i None" by simp
    have "job_ok ws' k (map_of (ws_jobs ws') k)" for k
      using step.IH new job_ok_cong [of k ws' ws] claimed by (auto simp: handoff_inv_def claim_def)
    then show ?thesis using step.IH claimed by (simp add: handoff_inv_def claim_def)
  next
    case (job i j ev)
    then show ?thesis using job_step_inv step.IH by blast
  next
    case (control payload)
    then have "job_ok ws' k l \<longleftrightarrow> job_ok ws k l" for k l by (intro job_ok_cong) simp_all
    then show ?thesis using step.IH control by (simp add: handoff_inv_def)
  next
    case stopped
    then have "job_ok ws' k l \<longleftrightarrow> job_ok ws k l" for k l by (intro job_ok_cong) (simp_all add: stop_worker_def)
    then show ?thesis using step.IH stopped by (simp add: handoff_inv_def stop_worker_def)
  qed
qed


section \<open>Cancellation\<close>

definition cancel_inv :: "worker \<Rightarrow> bool" where
  "cancel_inv ws \<longleftrightarrow>
     (\<forall>r. ws_controllers ws r = Some True \<longleftrightarrow> r \<in> ws_canceled ws) \<and>
     (\<forall>i t s. map_of (ws_jobs ws) i \<in> {Some (Leasing t s), Some (Executing t s)} \<longrightarrow>
        ws_controllers ws (tk_runId t) \<noteq> None) \<and>
     distinct (ws_closedRuns ws) \<and> set (ws_closedRuns ws) = ws_canceled ws"

lemma cancel_invI:
  assumes "cancel_inv ws"
    and "ws_canceled ws' = ws_canceled ws" "ws_closedRuns ws' = ws_closedRuns ws"
    and "\<And>r. ws_controllers ws' r = Some True \<longleftrightarrow> ws_controllers ws r = Some True"
    and "\<And>r. ws_controllers ws r \<noteq> None \<Longrightarrow> ws_controllers ws' r \<noteq> None"
    and "\<And>k t s. map_of (ws_jobs ws') k \<in> {Some (Leasing t s), Some (Executing t s)} \<Longrightarrow>
      map_of (ws_jobs ws) k \<in> {Some (Leasing t s), Some (Executing t s)} \<or> ws_controllers ws' (tk_runId t) \<noteq> None"
  shows "cancel_inv ws'"
  using assms unfolding cancel_inv_def by (metis (no_types, lifting))

lemma job_step_controllers:
  assumes "job_step cfg i j ev ws = Some ws'"
  shows "ws_canceled ws' = ws_canceled ws" "ws_closedRuns ws' = ws_closedRuns ws"
    "ws_controllers ws' r = Some True \<longleftrightarrow> ws_controllers ws r = Some True"
    "ws_controllers ws r \<noteq> None \<Longrightarrow> ws_controllers ws' r \<noteq> None"
  using assms
  by (cases "(cfg, i, j, ev, ws)" rule: job_step.cases;
      auto simp: step_unfold isRunCanceled_def split: option.splits sum.splits if_splits;
      cases "ws_controllers ws r"; auto)+

lemma job_step_waits:
  assumes "job_step cfg i j ev ws = Some ws'"
    and "map_of (ws_jobs ws') i \<in> {Some (Leasing t s), Some (Executing t s)}"
  shows "j \<in> {Leasing t s, Executing t s} \<or> ws_controllers ws' (tk_runId t) \<noteq> None"
  using assms
  by (cases "(cfg, i, j, ev, ws)" rule: job_step.cases)
    (auto simp: step_unfold split: option.splits sum.splits if_splits)

lemma cancel_invariant: "reachable cfg ws \<Longrightarrow> cancel_inv ws"
proof (induction rule: reachable.induct)
  case init
  then show ?case by (simp add: cancel_inv_def init_worker_def)
next
  case (step ws ws')
  from step.hyps(2) show ?case
  proof cases
    case (claimed i payload now)
    show ?thesis by (rule cancel_invI [OF step.IH]) (auto simp: claimed claim_def split: if_splits)
  next
    case (job i j ev)
    show ?thesis
    proof (rule cancel_invI [OF step.IH])
      fix k t s
      assume w: "map_of (ws_jobs ws') k \<in> {Some (Leasing t s), Some (Executing t s)}"
      show "map_of (ws_jobs ws) k \<in> {Some (Leasing t s), Some (Executing t s)} \<or> ws_controllers ws' (tk_runId t) \<noteq> None"
      proof (cases "k = i")
        case True
        then show ?thesis using job_step_waits [OF job(2)] job(1) w by auto
      next
        case False
        then show ?thesis using job_step_job(2) [OF job(2) False] w by simp
      qed
    qed (use job_step_controllers [OF job(2)] in auto)
  next
    case (control payload)
    then show ?thesis using step.IH
      by (auto simp: applyControlMessage_def cancel_inv_def isRunCanceled_def split: option.splits)
  next
    case stopped
    show ?thesis by (rule cancel_invI [OF step.IH]) (auto simp: stopped stop_worker_def)
  qed
qed


section \<open>What one call of process does\<close>

lemma run_ended: "map_of (ws_jobs ws) i = Some Ended \<Longrightarrow> run_job cfg env i n ws = ws"
  by (cases n) auto

lemma run_acking:
  assumes "map_of (ws_jobs ws) i = Some Acking"
  shows "ws_acked (run_job cfg env i (Suc n) ws) = ws_acked ws @ (if pe_ack env then [i] else [])"
    and "ws_published (run_job cfg env i (Suc n) ws) = ws_published ws"
  using assms by (simp_all add: after_ack_def run_ended)

definition handed_off :: "process_env \<Rightarrow> bool" where
  "handed_off env \<longleftrightarrow> pe_publish env 0 \<or> pe_publish env 1 \<or> pe_publish env 2"

lemma run_publishing:
  assumes "map_of (ws_jobs ws) i = Some (Publishing t b 0)"
  shows "ws_published (run_job cfg env i (Suc (Suc (Suc (Suc n)))) ws) =
      ws_published ws @ (if handed_off env then [(i, b)] else [])"
    and "ws_acked (run_job cfg env i (Suc (Suc (Suc (Suc n)))) ws) =
      ws_acked ws @ (if handed_off env \<and> pe_ack env then [i] else [])"
  using assms
  by (simp_all add: after_publish_def publish_result_def MAX_PUBLISH_def handed_off_def after_ack_def
      run_ended numeral_2_eq_2)

lemma run_cancel_publishing:
  assumes "map_of (ws_jobs ws) i = Some (CancelPublishing t b 0)"
  shows "ws_published (run_job cfg env i (Suc (Suc (Suc (Suc n)))) ws) =
      ws_published ws @ (if handed_off env then [(i, b)] else [])"
    and "ws_acked (run_job cfg env i (Suc (Suc (Suc (Suc n)))) ws) =
      ws_acked ws @ (if pe_ack env then [i] else [])"
  using assms
  by (simp_all add: after_cancel_publish_def publish_result_def MAX_PUBLISH_def handed_off_def after_ack_def
      run_ended numeral_2_eq_2)

definition executes :: "worker_config \<Rightarrow> process_env \<Rightarrow> bool" where
  "executes cfg env \<longleftrightarrow> \<not> wc_hasLeaseStore cfg \<or> pe_lease env = Some True"

definition final_result :: "worker_config \<Rightarrow> process_env \<Rightarrow> worker \<Rightarrow> task_view \<Rightarrow> string + bytes" where
  "final_result cfg env ws t = encodeResultEnvelope (wc_resultCodec cfg)
     (result_input_of cfg ws t (pe_start env) (pe_finish env) (caught ws t (pe_outcome env)))"

text \<open>The published results and the acknowledgements of one call, in every case.\<close>

definition process_effects ::
    "worker_config \<Rightarrow> process_env \<Rightarrow> bytes \<Rightarrow> worker \<Rightarrow> bytes option \<times> bool" where
  "process_effects cfg env payload ws =
     (case decodeTaskEnvelope (wc_taskCodec cfg) payload of
        None \<Rightarrow> (None, pe_ack env)
      | Some t \<Rightarrow>
          if isRunCanceled (tk_runId t) ws then
            (case encodeResultEnvelope (wc_resultCodec cfg)
                    (canceled_input cfg t (pe_start env) (pe_finish env)) of
               Inl _ \<Rightarrow> (None, False)
             | Inr b \<Rightarrow> (if handed_off env then Some b else None, pe_ack env))
          else if \<not> executes cfg env then (None, pe_ack env)
          else (case final_result cfg env ws t of
                  Inl _ \<Rightarrow> (None, False)
                | Inr b \<Rightarrow> if handed_off env then (Some b, pe_ack env) else (None, False)))"

lemma result_same_canceled:
  "ws_canceled ws' = ws_canceled ws \<Longrightarrow> final_result cfg env ws' t = final_result cfg env ws t"
proof -
  assume "ws_canceled ws' = ws_canceled ws"
  then have c: "isRunCanceled r ws' = isRunCanceled r ws" for r by (simp add: isRunCanceled_def)
  show ?thesis unfolding final_result_def result_input_of_def caught_def c ..
qed

lemma run_executing:
  assumes "map_of (ws_jobs ws) i = Some (Executing t (pe_start env))"
  shows "ws_published (run_job cfg env i (Suc (Suc (Suc (Suc (Suc n))))) ws) = ws_published ws @
      (case final_result cfg env ws t of Inl _ \<Rightarrow> [] | Inr b \<Rightarrow> if handed_off env then [(i, b)] else [])"
    and "ws_acked (run_job cfg env i (Suc (Suc (Suc (Suc (Suc n))))) ws) = ws_acked ws @
      (case final_result cfg env ws t of Inl _ \<Rightarrow> [] | Inr b \<Rightarrow> if handed_off env \<and> pe_ack env then [i] else [])"
proof -
  let ?ws = "after_executor cfg i t (pe_start env) (pe_finish env) (pe_outcome env) ws"
  have step: "run_job cfg env i (Suc m) ws = run_job cfg env i m ?ws" for m using assms by simp
  show "ws_published (run_job cfg env i (Suc (Suc (Suc (Suc (Suc n))))) ws) = ws_published ws @
      (case final_result cfg env ws t of Inl _ \<Rightarrow> [] | Inr b \<Rightarrow> if handed_off env then [(i, b)] else [])"
    and "ws_acked (run_job cfg env i (Suc (Suc (Suc (Suc (Suc n))))) ws) = ws_acked ws @
      (case final_result cfg env ws t of Inl _ \<Rightarrow> [] | Inr b \<Rightarrow> if handed_off env \<and> pe_ack env then [i] else [])"
    unfolding step using run_publishing [of "set_job i (Publishing t b 0) ws" i t b cfg env n for b]
    by (cases "final_result cfg env ws t"; simp add: after_executor_def final_result_def run_ended)+
qed

text \<open>The state \<open>ws'\<close> extends the logs of \<open>ws\<close> as \<open>process_effects\<close> says.\<close>

definition as_told :: "worker_config \<Rightarrow> process_env \<Rightarrow> string \<Rightarrow> bytes \<Rightarrow> worker \<Rightarrow> worker \<Rightarrow> bool" where
  "as_told cfg env i payload ws ws' \<longleftrightarrow>
     ws_published ws' = ws_published ws @ (case fst (process_effects cfg env payload ws) of None \<Rightarrow> [] | Some b \<Rightarrow> [(i, b)]) \<and>
     ws_acked ws' = ws_acked ws @ (if snd (process_effects cfg env payload ws) then [i] else [])"

definition same_logs :: "worker \<Rightarrow> worker \<Rightarrow> bool" where
  "same_logs ws ws' \<longleftrightarrow> ws_canceled ws' = ws_canceled ws \<and> ws_published ws' = ws_published ws \<and> ws_acked ws' = ws_acked ws"

lemma executed_as_told:
  assumes "decodeTaskEnvelope (wc_taskCodec cfg) payload = Some t" and "\<not> isRunCanceled (tk_runId t) ws"
    and "executes cfg env" and "same_logs ws r"
  shows "as_told cfg env i payload ws (run_job cfg env i (5 + n) (start_execution i t (pe_start env) r))"
proof -
  have "map_of (ws_jobs (start_execution i t (pe_start env) r)) i = Some (Executing t (pe_start env))"
    by (simp add: start_execution_def)
  moreover have "final_result cfg env (start_execution i t (pe_start env) r) t = final_result cfg env ws t"
    by (rule result_same_canceled) (use assms(4) in \<open>simp add: start_execution_def same_logs_def\<close>)
  ultimately show ?thesis
    using run_executing [of "start_execution i t (pe_start env) r" i t env cfg n] assms
    by (cases "final_result cfg env ws t")
      (simp_all add: start_execution_def process_effects_def as_told_def same_logs_def eval_nat_numeral)
qed

lemma canceled_as_told:
  assumes "decodeTaskEnvelope (wc_taskCodec cfg) payload = Some t" and "isRunCanceled (tk_runId t) ws"
  shows "as_told cfg env i payload ws
    (run_job cfg env i 7 (after_decode cfg i payload (pe_start env) (pe_finish env) (claim i payload (pe_start env) ws)))"
proof -
  let ?c = "claim i payload (pe_start env) ws"
  have c: "isRunCanceled (tk_runId t) ?c" using assms(2) by (simp add: isRunCanceled_def claim_def)
  show ?thesis
  proof (cases "encodeResultEnvelope (wc_resultCodec cfg) (canceled_input cfg t (pe_start env) (pe_finish env))")
    case (Inl e)
    then show ?thesis using assms c
      by (simp add: after_decode_def process_effects_def as_told_def run_ended) (simp add: claim_def)
  next
    case (Inr b)
    then show ?thesis using assms c run_cancel_publishing [of "set_job i (CancelPublishing t b 0) ?c" i t b cfg env 3]
      by (simp add: after_decode_def process_effects_def as_told_def eval_nat_numeral) (simp add: claim_def)
  qed
qed

lemma leased_as_told:
  assumes "decodeTaskEnvelope (wc_taskCodec cfg) payload = Some t" and "\<not> isRunCanceled (tk_runId t) ws"
    and "wc_hasLeaseStore cfg" and "same_logs ws r"
  shows "as_told cfg env i payload ws (run_job cfg env i 6 (after_lease i t (pe_start env) (pe_lease env) r))"
proof (cases "pe_lease env = Some True")
  case True
  then show ?thesis using executed_as_told [OF assms(1,2) _ assms(4), of env i 1]
    by (simp add: after_lease_def executes_def del: run_job.simps)
next
  case False
  then have "\<not> nullish (pe_lease env) False" by (cases "pe_lease env") auto
  moreover have "process_effects cfg env payload ws = (None, pe_ack env)"
    using assms(1-3) False by (simp add: process_effects_def executes_def)
  ultimately show ?thesis using run_acking [of "set_job i Acking r" i cfg env 5] assms(4)
    by (simp add: after_lease_def as_told_def same_logs_def eval_nat_numeral del: run_job.simps)
qed

lemma process_as_told: "as_told cfg env i payload ws (process cfg env i payload ws)"
proof -
  let ?c = "claim i payload (pe_start env) ws"
  have first: "process cfg env i payload ws =
      run_job cfg env i 7 (after_decode cfg i payload (pe_start env) (pe_finish env) ?c)"
    by (simp add: process_def claim_def eval_nat_numeral)
  show ?thesis
  proof (cases "decodeTaskEnvelope (wc_taskCodec cfg) payload")
    case None
    then show ?thesis using run_acking [of "set_job i Acking ?c" i cfg env 6] first
      by (simp add: after_decode_def process_effects_def as_told_def claim_def eval_nat_numeral)
  next
    case (Some t)
    show ?thesis
    proof (cases "isRunCanceled (tk_runId t) ws")
      case True
      then show ?thesis unfolding first by (rule canceled_as_told [OF Some])
    next
      case False
      then have c: "\<not> isRunCanceled (tk_runId t) ?c" by (simp add: isRunCanceled_def claim_def)
      let ?r = "runAbortControllerFor (tk_runId t) ?c"
      have logs: "same_logs ws ?r" "same_logs ws (set_job i (Leasing t (pe_start env)) ?r)"
        by (simp_all add: same_logs_def claim_def)
      show ?thesis
      proof (cases "wc_hasLeaseStore cfg")
        case True
        have "process cfg env i payload ws =
            run_job cfg env i 6 (after_lease i t (pe_start env) (pe_lease env) (set_job i (Leasing t (pe_start env)) ?r))"
          using Some c True first by (simp add: after_decode_def Let_def eval_nat_numeral)
        then show ?thesis using leased_as_told [OF Some False True logs(2), of env i] by (simp only:)
      next
        case lease: False
        have "process cfg env i payload ws = run_job cfg env i (5 + 2) (start_execution i t (pe_start env) ?r)"
          using Some c lease first by (simp add: after_decode_def Let_def)
        then show ?thesis using executed_as_told [OF Some False _ logs(1), of env i 2] lease
          by (simp only: executes_def) simp
      qed
    qed
  qed
qed

lemmas process_published = process_as_told [unfolded as_told_def]

text \<open>
  C11. Every \<open>process\<close> call comes to its end, whatever the awaited calls answer; and when the message
  decodes, its run is not canceled, the lease (if leases are in use) is granted and the result can
  be encoded, one successful publish out of three and a working acknowledgement suffice to hand the
  result off: it is on the result stream and the message is acknowledged.
\<close>

theorem process_hands_off:
  "map_of (ws_jobs (process cfg env i payload ws)) i = Some Ended \<and>
    (decodeTaskEnvelope (wc_taskCodec cfg) payload = Some t \<and> \<not> isRunCanceled (tk_runId t) ws \<and>
     (wc_hasLeaseStore cfg \<longrightarrow> pe_lease env = Some True) \<and> final_result cfg env ws t = Inr b \<and>
     (\<exists>n < 3. pe_publish env n) \<and> pe_ack env \<longrightarrow>
       ws_published (process cfg env i payload ws) = ws_published ws @ [(i, b)] \<and>
       ws_acked (process cfg env i payload ws) = ws_acked ws @ [i])"
proof -
  have "map_of (ws_jobs (process cfg env i payload ws)) i = Some Ended"
    unfolding process_def by (rule run_job_ends [of _ _ "Decoding payload (pe_start env)"]) (simp_all add: claim_def)
  moreover have "handed_off env" if "\<exists>n < 3. pe_publish env n"
    using that by (auto simp: handed_off_def less_Suc_eq numeral_3_eq_3 numeral_2_eq_2)
  ultimately show ?thesis using process_published [of cfg env i payload ws]
    by (auto simp: process_effects_def executes_def)
qed

text \<open>
  C26. The exact cases in which a message is acknowledged although no result of it was published: it is
  malformed; or its run was already canceled and all three attempts to publish the canceled result
  failed; or the lease was refused, or could not be asked for because the store failed.
\<close>

theorem acked_without_result_exact:
  assumes "i \<notin> set (ws_acked ws)" and "i \<notin> fst ` set (ws_published ws)"
  shows "i \<in> set (ws_acked (process cfg env i payload ws)) \<and>
      i \<notin> fst ` set (ws_published (process cfg env i payload ws)) \<longleftrightarrow>
    pe_ack env \<and>
    (case decodeTaskEnvelope (wc_taskCodec cfg) payload of
       None \<Rightarrow> True
     | Some t \<Rightarrow>
         if isRunCanceled (tk_runId t) ws
         then (\<exists>b. encodeResultEnvelope (wc_resultCodec cfg)
                     (canceled_input cfg t (pe_start env) (pe_finish env)) = Inr b) \<and>
              (\<forall>n < 3. \<not> pe_publish env n)
         else wc_hasLeaseStore cfg \<and> pe_lease env \<noteq> Some True)"
proof -
  have "handed_off env \<longleftrightarrow> \<not> (\<forall>n < 3. \<not> pe_publish env n)"
    by (auto simp: handed_off_def less_Suc_eq numeral_3_eq_3 numeral_2_eq_2)
  then show ?thesis using assms process_published [of cfg env i payload ws]
    by (auto simp: process_effects_def executes_def split: option.splits sum.splits if_splits)
qed

text \<open>
  What the scheduler reads of an executed task: the run, node, attempt and worker; status OK for
  a completed task, CANCELED for one that did not complete in a run canceled by then, NODE_FAILED
  otherwise; an executor that threw is reported as canceled and not retryable in a canceled run, and
  as a transient, retryable failure with its message otherwise.
\<close>

theorem result_classified:
  assumes "\<And>p b. pc_encode (wc_resultCodec cfg) p = Inr b \<Longrightarrow>
      \<exists>m. pc_decode (wc_resultCodec cfg) b = Some m \<and> same_result p m"
    and "final_result cfg env ws t = Inr b"
  shows "\<exists>v. decodeResultEnvelope (wc_resultCodec cfg) b = Some v \<and>
    (rv_runId v, rv_nodeId v, rv_attemptNumber v, rv_workerId v) =
      (tk_runId t, tk_nodeId t, tk_attemptNumber t, wc_workerId cfg) \<and>
    (case pe_outcome env of
       Inr r \<Rightarrow> rv_completed v = er_completed r \<and> rv_output v = nullish (er_output r) [] \<and>
         rv_status v = (if er_completed r then STATUS_OK
                        else if isRunCanceled (tk_runId t) ws then STATUS_CANCELED else NODE_FAILED)
     | Inl e \<Rightarrow> \<not> rv_completed v \<and>
         (if isRunCanceled (tk_runId t) ws
          then rv_status v = STATUS_CANCELED \<and> rv_errorClass v = ERROR_CANCELED \<and> rv_retryable v = Some False
          else rv_status v = NODE_FAILED \<and> rv_errorClass v = ERROR_TRANSIENT \<and> rv_retryable v = Some True \<and>
            rv_error v = e))"
  using result_roundtrip [OF assms(1) assms(2) [unfolded final_result_def]]
  by (cases "pe_outcome env")
    (auto simp: result_of_msg_def result_payload_def result_input_of_def caught_def)

section \<open>A concrete worker\<close>

definition demo_task :: task_view where
  "demo_task = \<lparr>tk_runId = ''r'', tk_workflowVersionId = ''v'', tk_orgId = ''org'', tk_nodeId = ''a'',
     tk_attemptNumber = 1, tk_resourceClass = 0, tk_affinityKey = [], tk_traceId = [], tk_spanId = [],
     tk_nodeType = ''act'', tk_nodePayloadJson = []\<rparr>"

definition demo_task_msg :: task_msg where
  "demo_task_msg = \<lparr>tm_runId = Some ''r'', tm_workflowVersionId = Some ''v'', tm_orgId = Some ''org'',
     tm_nodeId = Some ''a'', tm_attemptNumber = Some 1, tm_resourceClass = None, tm_affinityKey = None,
     tm_traceId = None, tm_spanId = None, tm_nodeType = Some ''act'', tm_nodePayloadJson = None,
     tm_becameReadyAt = None\<rparr>"

text \<open>
  A result codec for the tests: it sends whether the task completed, was canceled or failed, for
  results it can rebuild.
\<close>

definition demo_result :: "bytes \<Rightarrow> result_msg" where
  "demo_result b = result_payload
     \<lparr>ri_runId = ''r'', ri_nodeId = ''a'', ri_attemptNumber = 1, ri_traceId = None, ri_completed = (b = ''ok''),
      ri_output = None, ri_error = (if b = ''ok'' then None else Some ''boom''),
      ri_status = Some (if b = ''ok'' then 1 else 2), ri_abandoned = None,
      ri_errorClass = (if b = ''ok'' then None else Some 1),
      ri_retryable = (if b = ''ok'' then None else Some True), ri_workerId = Some ''w1'',
      ri_startedAtWallMs = Some 1000, ri_finishedAtWallMs = Some 2000\<rparr>"

definition demo_result_codec :: "result_msg codec" where
  "demo_result_codec = \<lparr>pc_encode = (\<lambda>p. if p = demo_result ''ok'' then Inr ''ok''
       else if p = demo_result ''no'' then Inr ''no'' else Inl ''unsupported''),
     pc_decode = (\<lambda>b. Some (demo_result b))\<rparr>"

definition demo_worker :: worker_config where
  "demo_worker = \<lparr>wc_taskCodec = \<lparr>pc_encode = (\<lambda>m. Inr ''task''), pc_decode = (\<lambda>b. if b = ''task'' then Some demo_task_msg else None)\<rparr>,
     wc_controlCodec = demo_codec, wc_resultCodec = demo_result_codec, wc_workerId = ''w1'',
     wc_hasLeaseStore = True\<rparr>"

definition demo_process :: "bool option \<Rightarrow> string + executor_result \<Rightarrow> process_env" where
  "demo_process lease outcome = \<lparr>pe_start = 1000, pe_finish = 2000, pe_lease = lease, pe_outcome = outcome,
     pe_publish = (\<lambda>n. n = 2), pe_ack = True\<rparr>"

lemma demo_final:
  "final_result demo_worker (demo_process l (Inl ''boom'')) init_worker demo_task = Inr ''no''"
  by (simp add: final_result_def demo_worker_def demo_process_def demo_result_codec_def demo_result_def
      encodeResultEnvelope_def encode_or_throw_def result_payload_def result_input_of_def caught_def
      isRunCanceled_def init_worker_def demo_task_def if_truthy_def code_defs)

lemma demo_decodes: "decodeTaskEnvelope (wc_taskCodec demo_worker) ''task'' = Some demo_task"
  by (simp add: decodeTaskEnvelope_def demo_worker_def demo_task_msg_def task_of_msg_def demo_task_def)

theorem process_hands_off_witness:
  "ws_published (process demo_worker (demo_process (Some True) (Inl ''boom'')) ''1-0'' ''task'' init_worker) = [(''1-0'', ''no'')]"
  using process_hands_off [of demo_worker "demo_process (Some True) (Inl ''boom'')" "''1-0''" "''task''" init_worker demo_task "''no''"]
    demo_final demo_decodes
  by (auto simp: demo_process_def isRunCanceled_def init_worker_def)

theorem acked_without_result_exact_witness:
  "''1-0'' \<in> set (ws_acked (process demo_worker (demo_process None (Inl ''boom'')) ''1-0'' ''task'' init_worker))"
  using acked_without_result_exact [of "''1-0''" init_worker demo_worker "demo_process None (Inl ''boom'')" "''task''"]
  by (simp add: demo_decodes) (simp add: init_worker_def isRunCanceled_def demo_process_def demo_worker_def)

theorem result_classified_witness:
  "\<exists>v. decodeResultEnvelope demo_result_codec ''no'' = Some v \<and> rv_status v = NODE_FAILED"
proof -
  have "\<exists>m. pc_decode (wc_resultCodec demo_worker) b = Some m \<and> same_result p m"
    if "pc_encode (wc_resultCodec demo_worker) p = Inr b" for p b
    using that by (auto simp: demo_worker_def demo_result_codec_def same_result_def split: if_splits)
  from result_classified [OF this demo_final [of "Some True"]] show ?thesis
    by (auto simp: demo_worker_def demo_process_def isRunCanceled_def init_worker_def)
qed

text \<open>Running one call to its end is a path of the state machine.\<close>

lemma run_job_reachable: "reachable cfg ws \<Longrightarrow> reachable cfg (run_job cfg env i n ws)"
proof (induction n arbitrary: ws)
  case (Suc n)
  show ?case
  proof (cases "map_of (ws_jobs ws) i")
    case (Some j)
    show ?thesis
    proof (cases "job_step cfg i j (env_event env j) ws")
      case None
      then show ?thesis using Suc.prems Some by simp
    next
      case step: (Some ws')
      have "reachable cfg ws'" by (rule reachable.step [OF Suc.prems worker_step.job [OF Some step]])
      then show ?thesis using Suc.IH Some step by simp
    qed
  qed (use Suc.prems in simp)
qed simp

lemma process_reachable:
  assumes "reachable cfg ws" and "\<not> ws_stopping ws" and "i \<notin> fst ` set (ws_jobs ws)"
  shows "reachable cfg (process cfg env i payload ws)"
  unfolding process_def
  by (rule run_job_reachable, rule reachable.step [OF assms(1)], rule worker_step.claimed [OF assms(2,3)])

abbreviation demo_run :: worker where
  "demo_run \<equiv> process demo_worker (demo_process (Some True) (Inl ''boom'')) ''1-0'' ''task'' init_worker"

lemma demo_reachable: "reachable demo_worker demo_run"
  by (rule process_reachable [OF reachable.init]) (simp_all add: init_worker_def)


abbreviation demo_canceled :: worker where
  "demo_canceled \<equiv> applyControlMessage demo_worker ''r'' (start_execution ''1-0'' demo_task 1000
     (set_job ''1-0'' (Leasing demo_task 1000) (runAbortControllerFor ''r'' (claim ''1-0'' ''task'' 1000 init_worker))))"

lemma demo_canceled_reachable: "reachable demo_worker demo_canceled"
proof -
  let ?c = "claim ''1-0'' ''task'' 1000 init_worker"
  let ?l = "set_job ''1-0'' (Leasing demo_task 1000) (runAbortControllerFor ''r'' ?c)"
  have c: "reachable demo_worker ?c"
    by (rule reachable.step [OF reachable.init], rule worker_step.claimed) (simp_all add: init_worker_def)
  have "job_step demo_worker ''1-0'' (Decoding ''task'' 1000) (EvDecoded 1000) ?c = Some ?l"
    by (simp add: after_decode_def demo_decodes isRunCanceled_def Let_def)
      (simp add: claim_def init_worker_def demo_worker_def demo_task_def)
  moreover have "map_of (ws_jobs ?c) ''1-0'' = Some (Decoding ''task'' 1000)" by (simp add: claim_def)
  ultimately have l: "reachable demo_worker ?l" by (intro reachable.step [OF c] worker_step.job)
  have "job_step demo_worker ''1-0'' (Leasing demo_task 1000) (EvLease (Some True)) ?l =
      Some (start_execution ''1-0'' demo_task 1000 ?l)"
    by (simp add: after_lease_def)
  moreover have "map_of (ws_jobs ?l) ''1-0'' = Some (Leasing demo_task 1000)" by simp
  ultimately have "reachable demo_worker (start_execution ''1-0'' demo_task 1000 ?l)"
    by (intro reachable.step [OF l] worker_step.job)
  then show ?thesis by (rule reachable.step [OF _ worker_step.control])
qed


end
