(* ===== verification/Sessions.thy ===== *)
theory Sessions
  imports Envelope
begin

text \<open>
  The browser sessions a worker keeps, \<open>worker/src/browser-session-manager.ts\<close>.  The manager's two maps
  refer to session objects that several calls in progress share, so the model has a store of session
  objects (numbered in the order of their creation) and keeps, besides the maps, which browsers are
  open and which closings are under way.  Every operation is cut at its \<open>await\<close>s; the steps of
  concurrent calls interleave.
\<close>

section \<open>State\<close>

record managed_session =
  ms_affinityKey :: string
  ms_runId :: string
  ms_browserbaseSessionId :: "string option"
  ms_liveViewWaited :: bool
  ms_closed :: bool

text \<open>
  \<open>mg_sessions\<close> and \<open>mg_opening\<close> are the two maps (in insertion order); an opening belongs to a run
  and, once its browser exists, to a session object.  \<open>mg_open\<close> are the objects whose browser is open,
  \<open>mg_closing\<close> the closings that have begun.
\<close>

record manager =
  mg_objects :: "nat \<Rightarrow> managed_session option"
  mg_next :: nat
  mg_sessions :: "(string \<times> nat) list"
  mg_opening :: "(string \<times> string \<times> nat option) list"
  mg_open :: "nat set"
  mg_closing :: "(string \<times> nat) list"

definition new_manager :: manager where
  "new_manager = \<lparr>mg_objects = (\<lambda>n. None), mg_next = 0, mg_sessions = [], mg_opening = [], mg_open = {},
     mg_closing = []\<rparr>"

definition affinityKeyFor :: "task_view \<Rightarrow> string" where
  "affinityKeyFor t = or_default (Some (tk_affinityKey t)) (''run:'' @ tk_runId t)"

text \<open>The session of a key that is there and not closed.\<close>

definition live_session :: "manager \<Rightarrow> string \<Rightarrow> nat option" where
  "live_session mg key =
     (case map_of (mg_sessions mg) key of
        None \<Rightarrow> None
      | Some n \<Rightarrow> (case mg_objects mg n of
                    None \<Rightarrow> None
                  | Some s \<Rightarrow> if ms_closed s then None else Some n))"

definition peek :: "string \<Rightarrow> manager \<Rightarrow> nat option" where
  "peek key mg = live_session mg key"

definition liveCount :: "manager \<Rightarrow> nat" where
  "liveCount mg =
     count_if (\<lambda>(key, n). \<exists>s \<in> set_option (mg_objects mg n). \<not> ms_closed s) (mg_sessions mg)"

section \<open>Opening\<close>

text \<open>The synchronous part of \<open>getOrOpen\<close>: it starts an opening unless there is a session or an opening.\<close>

definition getOrOpen :: "string \<Rightarrow> string \<Rightarrow> manager \<Rightarrow> manager" where
  "getOrOpen key runId mg =
     (if live_session mg key \<noteq> None then mg
      else if key \<in> fst ` set (mg_opening mg) then mg
      else mg\<lparr>mg_opening := mg_opening mg @ [(key, runId, None)]\<rparr>)"

text \<open>The factory has returned: the session exists and is published.\<close>

definition factory_returned :: "string \<Rightarrow> string option \<Rightarrow> manager \<Rightarrow> manager" where
  "factory_returned key sessionId mg =
     (case map_of (mg_opening mg) key of
        Some (runId, None) \<Rightarrow>
          let n = mg_next mg;
              s = \<lparr>ms_affinityKey = key, ms_runId = runId, ms_browserbaseSessionId = sessionId,
                   ms_liveViewWaited = False, ms_closed = False\<rparr>
          in mg\<lparr>mg_objects := (mg_objects mg)(n \<mapsto> s), mg_next := Suc n,
                mg_sessions := AList.update key n (mg_sessions mg),
                mg_opening := AList.update key (runId, Some n) (mg_opening mg),
                mg_open := insert n (mg_open mg)\<rparr>
      | _ \<Rightarrow> mg)"

text \<open>The opening settles, with the session or with the factory's or the callback's error.\<close>

definition opening_settled :: "string \<Rightarrow> manager \<Rightarrow> manager" where
  "opening_settled key mg = mg\<lparr>mg_opening := AList.delete key (mg_opening mg)\<rparr>"

text \<open>The once-per-session wait of \<open>getForTask\<close>: whether this call is the one that waits.\<close>

definition getForTask_wait :: "nat \<Rightarrow> manager \<Rightarrow> bool \<times> manager" where
  "getForTask_wait n mg =
     (case mg_objects mg n of
        None \<Rightarrow> (False, mg)
      | Some s \<Rightarrow>
          if ms_liveViewWaited s then (False, mg)
          else (True, mg\<lparr>mg_objects := (mg_objects mg)(n \<mapsto> s\<lparr>ms_liveViewWaited := True\<rparr>)\<rparr>))"

text \<open>
  \<open>waitForLiveView\<close> over the polls the clock allows: the time at the head of the loop and the answer of
  the check (\<open>None\<close> when it throws).  The result tells whether the view connected, and how often it
  was checked.
\<close>

fun poll_live_view :: "int \<Rightarrow> (int \<times> bool option) list \<Rightarrow> bool \<times> nat" where
  "poll_live_view deadline [] = (False, 0)"
| "poll_live_view deadline ((now, answer) # polls) =
     (if \<not> now < deadline then (False, 0)
      else if answer = Some True then (True, 1)
      else (case poll_live_view deadline polls of (b, n) \<Rightarrow> (b, Suc n)))"

definition waitForLiveView ::
    "int option \<Rightarrow> int \<Rightarrow> bool \<Rightarrow> managed_session \<Rightarrow> (int \<times> bool option) list \<Rightarrow> bool \<times> nat" where
  "waitForLiveView liveViewWaitMs now hasCheck s polls =
     (if \<not> truthy (ms_browserbaseSessionId s) \<or> \<not> hasCheck then (False, 0)
      else poll_live_view (now + nullish liveViewWaitMs 60000) polls)"

section \<open>Closing\<close>

text \<open>
  \<open>closeKey\<close> up to its first \<open>await\<close> marks the session closed; at its end the browser is closed and
  whatever session the key then has is deleted.
\<close>

definition closeKey_begin :: "string \<Rightarrow> manager \<Rightarrow> manager" where
  "closeKey_begin key mg =
     (case live_session mg key of
        None \<Rightarrow> mg
      | Some n \<Rightarrow>
          mg\<lparr>mg_objects := (mg_objects mg)(n := map_option (\<lambda>s. s\<lparr>ms_closed := True\<rparr>) (mg_objects mg n)),
             mg_closing := mg_closing mg @ [(key, n)]\<rparr>)"

definition closeKey_end :: "string \<Rightarrow> nat \<Rightarrow> manager \<Rightarrow> manager" where
  "closeKey_end key n mg =
     mg\<lparr>mg_open := mg_open mg - {n}, mg_sessions := AList.delete key (mg_sessions mg),
        mg_closing := removeAll (key, n) (mg_closing mg)\<rparr>"

text \<open>A closing nothing interferes with.\<close>

definition closeKey :: "string \<Rightarrow> manager \<Rightarrow> manager" where
  "closeKey key mg =
     (case live_session mg key of
        None \<Rightarrow> mg
      | Some n \<Rightarrow> closeKey_end key n (closeKey_begin key mg))"

definition closeForRun :: "string \<Rightarrow> manager \<Rightarrow> manager" where
  "closeForRun runId mg = closeKey (''run:'' @ runId) mg"

definition keys_of_run :: "string \<Rightarrow> manager \<Rightarrow> string list" where
  "keys_of_run runId mg =
     map fst (filter (\<lambda>(key, n). \<exists>s \<in> set_option (mg_objects mg n). ms_runId s = runId \<and> \<not> ms_closed s)
       (mg_sessions mg))"

text \<open>
  Waiting for one pending opening: \<open>outcome key\<close> is the session id the factory returns, or \<open>None\<close>
  when it fails; an opening whose browser exists already just settles.
\<close>

definition await_opening ::
    "(string \<Rightarrow> string option option) \<Rightarrow> string \<Rightarrow> string \<times> nat option \<Rightarrow> manager \<Rightarrow> nat option \<times> manager" where
  "await_opening outcome key = (\<lambda>(runId, existing) mg.
     (case existing of
        Some n \<Rightarrow> (Some n, opening_settled key mg)
      | None \<Rightarrow>
          (case outcome key of
             None \<Rightarrow> (None, opening_settled key mg)
           | Some sid \<Rightarrow> (Some (mg_next mg), opening_settled key (factory_returned key sid mg)))))"

definition close_opened ::
    "(string \<Rightarrow> string option option) \<Rightarrow> string \<Rightarrow> string \<times> string \<times> nat option \<Rightarrow> manager \<Rightarrow> manager" where
  "close_opened outcome runId = (\<lambda>(key, opening) mg.
     (case await_opening outcome key opening mg of
        (None, mg') \<Rightarrow> mg'
      | (Some n, mg') \<Rightarrow>
          (case mg_objects mg' n of
             None \<Rightarrow> mg'
           | Some s \<Rightarrow> if ms_runId s = runId \<and> \<not> ms_closed s then closeKey (ms_affinityKey s) mg' else mg')))"

definition closeAllForRun :: "(string \<Rightarrow> string option option) \<Rightarrow> string \<Rightarrow> manager \<Rightarrow> manager" where
  "closeAllForRun outcome runId mg =
     (let mg1 = fold closeKey (keys_of_run runId mg) mg
      in fold (close_opened outcome runId) (mg_opening mg1) mg1)"

definition closeAll :: "manager \<Rightarrow> manager" where
  "closeAll mg = fold closeKey (map fst (mg_sessions mg)) mg"

section \<open>Interleavings\<close>

text \<open>
  The steps of concurrent calls.  \<open>overlap\<close> tells whether a call may open a session for a key while a
  closing of that key is still under way.
\<close>

inductive manager_step :: "bool \<Rightarrow> manager \<Rightarrow> manager \<Rightarrow> bool" for overlap where
  requested: "overlap \<or> key \<notin> fst ` set (mg_closing mg) \<Longrightarrow> manager_step overlap mg (getOrOpen key runId mg)"
| returned: "manager_step overlap mg (factory_returned key sessionId mg)"
| settled: "manager_step overlap mg (opening_settled key mg)"
| waited: "manager_step overlap mg (snd (getForTask_wait n mg))"
| close_begun: "manager_step overlap mg (closeKey_begin key mg)"
| close_ended: "(key, n) \<in> set (mg_closing mg) \<Longrightarrow> manager_step overlap mg (closeKey_end key n mg)"

inductive manager_reachable :: "bool \<Rightarrow> manager \<Rightarrow> bool" for overlap where
  fresh: "manager_reachable overlap new_manager"
| step: "manager_reachable overlap mg \<Longrightarrow> manager_step overlap mg mg' \<Longrightarrow> manager_reachable overlap mg'"

text \<open>
  Sanity, over the two maps read as functions: every session of the map is an open browser of that key,
  which is marked closed exactly while its closing is under way, every open browser is in the map, a key
  whose browser is being created has no session yet, the object numbers are fresh, and an object that is
  not closed is the session of its key.
\<close>

definition sane_maps ::
    "(string \<Rightarrow> nat option) \<Rightarrow> (string \<Rightarrow> (string \<times> nat option) option) \<Rightarrow> (string \<times> nat) set \<Rightarrow> nat set
     \<Rightarrow> (nat \<Rightarrow> managed_session option) \<Rightarrow> nat \<Rightarrow> bool" where
  "sane_maps sess opening closing browsers objs nxt \<longleftrightarrow>
     (\<forall>key n. sess key = Some n \<longrightarrow> n \<in> browsers \<and>
        (\<exists>s. objs n = Some s \<and> ms_affinityKey s = key \<and> (ms_closed s \<longleftrightarrow> (key, n) \<in> closing))) \<and>
     (\<forall>key n. (key, n) \<in> closing \<longrightarrow> sess key = Some n) \<and>
     (\<forall>n \<in> browsers. \<exists>key. sess key = Some n) \<and>
     (\<forall>key r. opening key = Some (r, None) \<longrightarrow> sess key = None) \<and>
     (\<forall>n. objs n \<noteq> None \<longrightarrow> n < nxt) \<and>
     (\<forall>n s. objs n = Some s \<longrightarrow> \<not> ms_closed s \<longrightarrow> sess (ms_affinityKey s) = Some n)"

definition sane :: "manager \<Rightarrow> bool" where
  "sane mg \<longleftrightarrow>
     distinct (map fst (mg_sessions mg)) \<and> distinct (map fst (mg_opening mg)) \<and>
     sane_maps (map_of (mg_sessions mg)) (map_of (mg_opening mg)) (set (mg_closing mg)) (mg_open mg)
       (mg_objects mg) (mg_next mg)"

lemma sane_mapsD:
  assumes "sane_maps sess opening closing browsers objs nxt"
  shows "\<And>key n. sess key = Some n \<Longrightarrow> n \<in> browsers \<and>
        (\<exists>s. objs n = Some s \<and> ms_affinityKey s = key \<and> (ms_closed s \<longleftrightarrow> (key, n) \<in> closing))"
    "\<And>key n. (key, n) \<in> closing \<Longrightarrow> sess key = Some n"
    "\<And>n. n \<in> browsers \<Longrightarrow> \<exists>key. sess key = Some n"
    "\<And>key r. opening key = Some (r, None) \<Longrightarrow> sess key = None"
    "\<And>n. objs n \<noteq> None \<Longrightarrow> n < nxt"
    "\<And>n s. objs n = Some s \<Longrightarrow> \<not> ms_closed s \<Longrightarrow> sess (ms_affinityKey s) = Some n"
  using assms unfolding sane_maps_def by blast+

lemma sane_maps_unique:
  assumes "sane_maps sess opening closing browsers objs nxt" and "sess key = Some n" and "sess k = Some n"
  shows "k = key"
  using sane_mapsD(1) [OF assms(1,2)] sane_mapsD(1) [OF assms(1,3)] by auto

lemma sane_maps_settle:
  "sane_maps sess opening closing browsers objs nxt \<Longrightarrow>
   sane_maps sess (opening(key := None)) closing browsers objs nxt"
  unfolding sane_maps_def by auto

lemma sane_maps_start:
  "sane_maps sess opening closing browsers objs nxt \<Longrightarrow> sess key = None \<Longrightarrow>
   sane_maps sess (opening(key \<mapsto> (r, None))) closing browsers objs nxt"
  unfolding sane_maps_def by auto

lemma sane_maps_publish:
  assumes s: "sane_maps sess opening closing browsers objs nxt" and none: "sess key = None"
    and obj: "ms_affinityKey s = key" "\<not> ms_closed s"
  shows "sane_maps (sess(key \<mapsto> nxt)) (opening(key \<mapsto> (r, Some nxt))) closing (insert nxt browsers)
     (objs(nxt \<mapsto> s)) (Suc nxt)"
proof -
  have fresh: "objs nxt = None" using sane_mapsD(5) [OF s, of nxt] by (cases "objs nxt") auto
  have unused: "sess k \<noteq> Some nxt" for k using sane_mapsD(1) [OF s, of k nxt] fresh by auto
  have away: "(key, n) \<notin> closing" for n using sane_mapsD(2) [OF s, of key n] none by auto
  have old: "sess k = Some n \<Longrightarrow> n \<noteq> nxt \<and> k \<noteq> key" for k n using unused none by auto
  show ?thesis
    unfolding sane_maps_def
  proof (intro conjI allI ballI impI)
    fix k n assume "(sess(key \<mapsto> nxt)) k = Some n"
    then show "n \<in> insert nxt browsers"
      using sane_mapsD(1) [OF s, of k n] by (auto split: if_splits)
  next
    fix k n assume k: "(sess(key \<mapsto> nxt)) k = Some n"
    show "\<exists>s'. (objs(nxt \<mapsto> s)) n = Some s' \<and> ms_affinityKey s' = k \<and> (ms_closed s' \<longleftrightarrow> (k, n) \<in> closing)"
    proof (cases "k = key")
      case True
      then show ?thesis using k obj away by auto
    next
      case False
      then have "sess k = Some n" using k by simp
      then show ?thesis using sane_mapsD(1) [OF s, of k n] unused by auto
    qed
  next
    fix k n assume "(k, n) \<in> closing"
    then show "(sess(key \<mapsto> nxt)) k = Some n" using sane_mapsD(2) [OF s, of k n] away by auto
  next
    fix n assume "n \<in> insert nxt browsers"
    then show "\<exists>k. (sess(key \<mapsto> nxt)) k = Some n"
      using sane_mapsD(3) [OF s, of n] old by (cases "n = nxt") (fastforce, fastforce)
  next
    fix k r' assume "(opening(key \<mapsto> (r, Some nxt))) k = Some (r', None)"
    then show "(sess(key \<mapsto> nxt)) k = None" using sane_mapsD(4) [OF s, of k r'] by (auto split: if_splits)
  next
    fix n assume "(objs(nxt \<mapsto> s)) n \<noteq> None"
    then show "n < Suc nxt" using sane_mapsD(5) [OF s, of n] by (auto split: if_splits)
  next
    fix n t assume t: "(objs(nxt \<mapsto> s)) n = Some t" "\<not> ms_closed t"
    show "(sess(key \<mapsto> nxt)) (ms_affinityKey t) = Some n"
    proof (cases "n = nxt")
      case True
      then show ?thesis using t obj by simp
    next
      case False
      then have "sess (ms_affinityKey t) = Some n" using t sane_mapsD(6) [OF s, of n t] by simp
      then show ?thesis using none by auto
    qed
  qed
qed

lemma sane_maps_update:
  assumes s: "sane_maps sess opening closing browsers objs nxt" and obj: "objs n = Some s"
    and same: "ms_affinityKey s' = ms_affinityKey s" "ms_closed s' = ms_closed s"
  shows "sane_maps sess opening closing browsers (objs(n \<mapsto> s')) nxt"
proof -
  have lt: "n < nxt" using sane_mapsD(5) [OF s, of n] obj by simp
  show ?thesis
    unfolding sane_maps_def
  proof (intro conjI allI ballI impI)
    fix k m assume k: "sess k = Some m"
    show "m \<in> browsers" using sane_mapsD(1) [OF s k] by simp
    show "\<exists>t. (objs(n \<mapsto> s')) m = Some t \<and> ms_affinityKey t = k \<and> (ms_closed t \<longleftrightarrow> (k, m) \<in> closing)"
      using sane_mapsD(1) [OF s k] obj same by (cases "m = n") auto
  next
    fix m assume "(objs(n \<mapsto> s')) m \<noteq> None"
    then show "m < nxt" using sane_mapsD(5) [OF s, of m] lt by (auto split: if_splits)
  next
    fix m t assume t: "(objs(n \<mapsto> s')) m = Some t" "\<not> ms_closed t"
    show "sess (ms_affinityKey t) = Some m"
      using t sane_mapsD(6) [OF s, of m t] sane_mapsD(6) [OF s obj] same by (cases "m = n") auto
  qed (use sane_mapsD(2,3,4) [OF s] in blast)+
qed

lemma sane_maps_mark:
  assumes s: "sane_maps sess opening closing browsers objs nxt" and key: "sess key = Some n"
    and obj: "objs n = Some s"
  shows "sane_maps sess opening (insert (key, n) closing) browsers (objs(n \<mapsto> s\<lparr>ms_closed := True\<rparr>)) nxt"
proof -
  have lt: "n < nxt" using sane_mapsD(5) [OF s, of n] obj by simp
  have aff: "ms_affinityKey s = key" using sane_mapsD(1) [OF s key] obj by auto
  have other: "sess k = Some m \<Longrightarrow> m = n \<longleftrightarrow> k = key" for k m
    using sane_maps_unique [OF s key, of k] key by auto
  show ?thesis
    unfolding sane_maps_def
  proof (intro conjI allI ballI impI)
    fix k m assume k: "sess k = Some m"
    show "m \<in> browsers" using sane_mapsD(1) [OF s k] by simp
    show "\<exists>s'. (objs(n \<mapsto> s\<lparr>ms_closed := True\<rparr>)) m = Some s' \<and> ms_affinityKey s' = k \<and>
        (ms_closed s' \<longleftrightarrow> (k, m) \<in> insert (key, n) closing)"
      using sane_mapsD(1) [OF s k] other [OF k] aff by (cases "m = n") auto
  next
    fix k m assume "(k, m) \<in> insert (key, n) closing"
    then show "sess k = Some m" using sane_mapsD(2) [OF s, of k m] key by auto
  next
    fix m assume "m \<in> browsers"
    then show "\<exists>k. sess k = Some m" by (rule sane_mapsD(3) [OF s])
  next
    fix k r assume "opening k = Some (r, None)"
    then show "sess k = None" by (rule sane_mapsD(4) [OF s])
  next
    fix m assume "(objs(n \<mapsto> s\<lparr>ms_closed := True\<rparr>)) m \<noteq> None"
    then show "m < nxt" using sane_mapsD(5) [OF s, of m] lt by (auto split: if_splits)
  next
    fix m t assume "(objs(n \<mapsto> s\<lparr>ms_closed := True\<rparr>)) m = Some t" "\<not> ms_closed t"
    then show "sess (ms_affinityKey t) = Some m"
      using sane_mapsD(6) [OF s, of m t] by (cases "m = n") auto
  qed
qed

lemma sane_maps_end:
  assumes s: "sane_maps sess opening closing browsers objs nxt" and c: "(key, n) \<in> closing"
  shows "sane_maps (sess(key := None)) opening (closing - {(key, n)}) (browsers - {n}) objs nxt"
proof -
  note key = sane_mapsD(2) [OF s c]
  have other: "sess k = Some m \<Longrightarrow> m = n \<longleftrightarrow> k = key" for k m
    using sane_maps_unique [OF s key, of k] key by auto
  show ?thesis
    unfolding sane_maps_def
  proof (intro conjI allI ballI impI)
    fix k m assume "(sess(key := None)) k = Some m"
    then have k: "sess k = Some m" "k \<noteq> key" by (auto split: if_splits)
    then show "m \<in> browsers - {n}"
      "\<exists>s'. objs m = Some s' \<and> ms_affinityKey s' = k \<and> (ms_closed s' \<longleftrightarrow> (k, m) \<in> closing - {(key, n)})"
      using sane_mapsD(1) [OF s k(1)] other [OF k(1)] by auto
  next
    fix k m assume "(k, m) \<in> closing - {(key, n)}"
    then show "(sess(key := None)) k = Some m" using sane_mapsD(2) [OF s, of k m] key by auto
  next
    fix m assume m: "m \<in> browsers - {n}"
    then obtain k where "sess k = Some m" using sane_mapsD(3) [OF s, of m] by blast
    then show "\<exists>k. (sess(key := None)) k = Some m" using m other by (intro exI [of _ k]) auto
  next
    fix k r assume "opening k = Some (r, None)"
    then show "(sess(key := None)) k = None" using sane_mapsD(4) [OF s, of k r] by auto
  next
    fix m assume "objs m \<noteq> None"
    then show "m < nxt" by (rule sane_mapsD(5) [OF s])
  next
    fix m t assume t: "objs m = Some t" "\<not> ms_closed t"
    have "m \<noteq> n" using sane_mapsD(1) [OF s key] c t by auto
    then show "(sess(key := None)) (ms_affinityKey t) = Some m" using sane_mapsD(6) [OF s t] key by auto
  qed
qed

lemma saneD:
  assumes "sane mg"
  shows "distinct (map fst (mg_sessions mg))" "distinct (map fst (mg_opening mg))"
    "sane_maps (map_of (mg_sessions mg)) (map_of (mg_opening mg)) (set (mg_closing mg)) (mg_open mg)
       (mg_objects mg) (mg_next mg)"
  using assms unfolding sane_def by blast+

lemma live_iff:
  assumes "sane mg"
  shows "live_session mg key = Some n \<longleftrightarrow>
    map_of (mg_sessions mg) key = Some n \<and> (key, n) \<notin> set (mg_closing mg)"
proof (cases "map_of (mg_sessions mg) key")
  case None
  then show ?thesis by (simp add: live_session_def)
next
  case (Some m)
  show ?thesis using sane_mapsD(1) [OF saneD(3) [OF assms] Some] by (auto simp: live_session_def Some)
qed

lemma map_of_snoc: "k \<notin> fst ` set xs \<Longrightarrow> map_of (xs @ [(k, v)]) = (map_of xs)(k \<mapsto> v)"
  by (induction xs) (auto simp: fun_eq_iff)

lemma sane_new: "sane new_manager"
  by (simp add: sane_def sane_maps_def new_manager_def)

lemma sane_getOrOpen:
  assumes "sane mg" and "key \<notin> fst ` set (mg_closing mg)"
  shows "sane (getOrOpen key runId mg)"
proof (cases "live_session mg key \<noteq> None \<or> key \<in> fst ` set (mg_opening mg)")
  case True
  then show ?thesis using assms(1) by (auto simp: getOrOpen_def)
next
  case False
  have "map_of (mg_sessions mg) key = None"
  proof (rule ccontr)
    assume "map_of (mg_sessions mg) key \<noteq> None"
    then obtain n where "map_of (mg_sessions mg) key = Some n" by blast
    then have "live_session mg key = Some n"
      using live_iff [OF assms(1), of key n] assms(2) by (force simp: image_iff)
    then show False using False by simp
  qed
  note start = sane_maps_start [OF saneD(3) [OF assms(1)] this, of runId]
  have "map_of (mg_opening mg @ [(key, runId, None)]) = (map_of (mg_opening mg))(key \<mapsto> (runId, None))"
    by (rule map_of_snoc) (use False in simp)
  then show ?thesis using start False saneD(1,2) [OF assms(1)]
    by (simp add: getOrOpen_def sane_def)
qed

lemma sane_factory_returned:
  assumes "sane mg"
  shows "sane (factory_returned key sid mg)"
proof (cases "\<exists>r. map_of (mg_opening mg) key = Some (r, None)")
  case True
  then obtain r where r: "map_of (mg_opening mg) key = Some (r, None)" by blast
  note sane = saneD [OF assms]
  show ?thesis unfolding factory_returned_def r
    using sane_maps_publish [OF sane(3) sane_mapsD(4) [OF sane(3) r]] sane(1,2)
    by (simp add: sane_def Let_def update_conv' distinct_update)
next
  case False
  then show ?thesis using assms by (auto simp: factory_returned_def split: option.splits)
qed

lemma sane_settled:
  assumes "sane mg"
  shows "sane (opening_settled key mg)"
proof -
  note sane = saneD [OF assms]
  show ?thesis using sane_maps_settle [OF sane(3), of key] sane(1,2)
    by (simp add: opening_settled_def sane_def delete_conv' distinct_delete)
qed

lemma sane_waited:
  assumes "sane mg"
  shows "sane (snd (getForTask_wait n mg))"
proof (cases "mg_objects mg n")
  case None
  then show ?thesis using assms by (simp add: getForTask_wait_def)
next
  case (Some s)
  note sane = saneD [OF assms]
  have "sane (mg\<lparr>mg_objects := (mg_objects mg)(n \<mapsto> s\<lparr>ms_liveViewWaited := True\<rparr>)\<rparr>)"
    using sane_maps_update [OF sane(3) Some, of "s\<lparr>ms_liveViewWaited := True\<rparr>"] sane(1,2) by (simp add: sane_def)
  then show ?thesis using assms by (simp add: getForTask_wait_def Some)
qed

lemma sane_close_begin:
  assumes "sane mg"
  shows "sane (closeKey_begin key mg)"
proof (cases "live_session mg key")
  case None
  then show ?thesis using assms by (simp add: closeKey_begin_def)
next
  case (Some n)
  note sane = saneD [OF assms]
  have n: "map_of (mg_sessions mg) key = Some n" using Some live_iff [OF assms] by blast
  then obtain s where s: "mg_objects mg n = Some s" using sane_mapsD(1) [OF sane(3) n] by blast
  show ?thesis using sane_maps_mark [OF sane(3) n s] sane(1,2)
    by (simp add: closeKey_begin_def Some s sane_def)
qed

lemma sane_close_end:
  assumes "sane mg" and "(key, n) \<in> set (mg_closing mg)"
  shows "sane (closeKey_end key n mg)"
proof -
  note sane = saneD [OF assms(1)]
  show ?thesis using sane_maps_end [OF sane(3) assms(2)] sane(1,2)
    by (simp add: closeKey_end_def sane_def delete_conv' distinct_delete)
qed

lemma sane_reachable: "manager_reachable False mg \<Longrightarrow> sane mg"
proof (induction rule: manager_reachable.induct)
  case (step mg mg')
  from step(2,3) show ?case
    by (cases rule: manager_step.cases) (auto intro: sane_getOrOpen sane_factory_returned sane_settled
      sane_waited sane_close_begin sane_close_end)
qed (rule sane_new)

section \<open>Open browsers\<close>

text \<open>
  C28. As long as no call reopens a key whose closing is under way, the open browsers are exactly the sessions
  of the map, one for each affinity key: no browser is lost, and no key has two.
\<close>

theorem one_browser_per_key:
  assumes "manager_reachable False mg"
  shows "mg_open mg = snd ` set (mg_sessions mg) \<and> distinct (map fst (mg_sessions mg)) \<and>
    inj_on (\<lambda>n. map_option ms_affinityKey (mg_objects mg n)) (mg_open mg) \<and>
    (\<forall>n \<in> mg_open mg. \<exists>s. mg_objects mg n = Some s \<and>
      (ms_closed s \<longleftrightarrow> (ms_affinityKey s, n) \<in> set (mg_closing mg)))"
proof (intro conjI)
  note sane = saneD [OF sane_reachable [OF assms]]
  show "distinct (map fst (mg_sessions mg))" by (rule sane(1))
  have mem: "map_of (mg_sessions mg) k = Some n \<longleftrightarrow> (k, n) \<in> set (mg_sessions mg)" for k n
    using sane(1) by (rule map_of_eq_Some_iff)
  show "mg_open mg = snd ` set (mg_sessions mg)"
  proof (intro equalityI subsetI)
    fix n assume "n \<in> mg_open mg"
    then obtain k where "map_of (mg_sessions mg) k = Some n" using sane_mapsD(3) [OF sane(3)] by blast
    then show "n \<in> snd ` set (mg_sessions mg)" unfolding mem by force
  next
    fix n assume "n \<in> snd ` set (mg_sessions mg)"
    then obtain k where "map_of (mg_sessions mg) k = Some n" unfolding mem by force
    then show "n \<in> mg_open mg" using sane_mapsD(1) [OF sane(3)] by blast
  qed
  have of_open: "\<exists>k s. map_of (mg_sessions mg) k = Some n \<and> mg_objects mg n = Some s \<and> ms_affinityKey s = k \<and>
      (ms_closed s \<longleftrightarrow> (k, n) \<in> set (mg_closing mg))" if "n \<in> mg_open mg" for n
    using sane_mapsD(3) [OF sane(3) that] sane_mapsD(1) [OF sane(3)] by blast
  then show "\<forall>n \<in> mg_open mg. \<exists>s. mg_objects mg n = Some s \<and>
      (ms_closed s \<longleftrightarrow> (ms_affinityKey s, n) \<in> set (mg_closing mg))" by blast
  show "inj_on (\<lambda>n. map_option ms_affinityKey (mg_objects mg n)) (mg_open mg)"
  proof (rule inj_onI)
    fix n m assume nm: "n \<in> mg_open mg" "m \<in> mg_open mg"
      "map_option ms_affinityKey (mg_objects mg n) = map_option ms_affinityKey (mg_objects mg m)"
    obtain k s where k: "map_of (mg_sessions mg) k = Some n" "mg_objects mg n = Some s" "ms_affinityKey s = k"
      using of_open [OF nm(1)] by blast
    obtain k' s' where k': "map_of (mg_sessions mg) k' = Some m" "mg_objects mg m = Some s'" "ms_affinityKey s' = k'"
      using of_open [OF nm(2)] by blast
    have "k = k'" using nm(3) k k' by simp
    then show "n = m" using k(1) k'(1) by simp
  qed
qed

text \<open>An opened session, as the steps build it.\<close>

definition opened :: "string \<Rightarrow> string \<Rightarrow> manager \<Rightarrow> manager" where
  "opened key runId mg = opening_settled key (factory_returned key (Some ''bb'') (getOrOpen key runId mg))"

lemma opened_closing: "mg_closing (opened key runId mg) = mg_closing mg"
  by (simp add: opened_def getOrOpen_def opening_settled_def factory_returned_def Let_def split: option.split)

lemma opened_reachable:
  assumes "manager_reachable overlap mg" and "overlap \<or> key \<notin> fst ` set (mg_closing mg)"
  shows "manager_reachable overlap (opened key runId mg)"
  unfolding opened_def
  by (rule manager_reachable.step [OF _ settled], rule manager_reachable.step [OF _ returned],
      rule manager_reachable.step [OF assms(1) requested [OF assms(2)]])

theorem one_browser_per_key_witness:
  "mg_open (opened ''b'' ''r'' (opened ''a'' ''r'' new_manager)) =
     snd ` set (mg_sessions (opened ''b'' ''r'' (opened ''a'' ''r'' new_manager))) \<and>
   mg_open (opened ''b'' ''r'' (opened ''a'' ''r'' new_manager)) = {0, 1}"
proof -
  have "manager_reachable False (opened ''b'' ''r'' (opened ''a'' ''r'' new_manager))"
    by (intro opened_reachable manager_reachable.fresh) (simp_all add: new_manager_def opened_def
      getOrOpen_def live_session_def factory_returned_def opening_settled_def)
  note p = one_browser_per_key [OF this]
  show ?thesis using conjunct1 [OF p] by (auto simp: new_manager_def opened_def getOrOpen_def live_session_def
    factory_returned_def opening_settled_def Let_def)
qed

text \<open>
  When a key is reopened while its old session is still being closed, the end of that closing deletes the
  new session from the map: its browser stays open, and no later closing finds it.
\<close>

definition reopened_while_closing :: manager where
  "reopened_while_closing =
     closeKey_end ''k'' 0 (opened ''k'' ''r'' (closeKey_begin ''k'' (opened ''k'' ''r'' new_manager)))"

lemma reopened_reachable: "manager_reachable True reopened_while_closing"
proof -
  have o: "manager_reachable True (opened ''k'' ''r'' (closeKey_begin ''k'' (opened ''k'' ''r'' new_manager)))"
    by (rule opened_reachable, rule manager_reachable.step [OF _ close_begun],
        rule opened_reachable, rule manager_reachable.fresh) simp_all
  have "(''k'', 0) \<in> set (mg_closing (opened ''k'' ''r'' (closeKey_begin ''k'' (opened ''k'' ''r'' new_manager))))"
    by (simp add: new_manager_def opened_def getOrOpen_def live_session_def factory_returned_def
      opening_settled_def closeKey_begin_def Let_def)
  then show ?thesis unfolding reopened_while_closing_def
    by (rule manager_reachable.step [OF o close_ended])
qed

theorem reopened_session_leaks:
  "manager_reachable True reopened_while_closing \<and> mg_open reopened_while_closing = {1} \<and>
   mg_sessions reopened_while_closing = [] \<and> mg_opening reopened_while_closing = [] \<and>
   mg_closing reopened_while_closing = [] \<and>
   mg_open (closeAllForRun outcome runId reopened_while_closing) = {1} \<and>
   mg_open (closeAll reopened_while_closing) = {1}"
proof -
  have v: "mg_open reopened_while_closing = {1}" "mg_sessions reopened_while_closing = []"
    "mg_opening reopened_while_closing = []" "mg_closing reopened_while_closing = []"
    by (auto simp: reopened_while_closing_def new_manager_def opened_def getOrOpen_def live_session_def
      factory_returned_def opening_settled_def closeKey_begin_def closeKey_end_def Let_def)
  then show ?thesis
    using reopened_reachable by (simp add: closeAllForRun_def closeAll_def keys_of_run_def Let_def)
qed

section \<open>Cancellation\<close>

text \<open>The open browsers of a run.\<close>

definition open_for :: "string \<Rightarrow> manager \<Rightarrow> nat set" where
  "open_for runId mg = {n \<in> mg_open mg. map_option ms_runId (mg_objects mg n) = Some runId}"

definition quiet :: "manager \<Rightarrow> bool" where
  "quiet mg \<longleftrightarrow> sane mg \<and> mg_closing mg = []"

lemma quietD: "quiet mg \<Longrightarrow> sane mg" "quiet mg \<Longrightarrow> mg_closing mg = []"
  by (simp_all add: quiet_def)

lemma quiet_live:
  assumes "quiet mg"
  shows "live_session mg key = map_of (mg_sessions mg) key"
proof (cases "map_of (mg_sessions mg) key")
  case None
  then show ?thesis by (simp add: live_session_def)
next
  case (Some n)
  then show ?thesis using live_iff [OF quietD(1) [OF assms], of key n] quietD(2) [OF assms] by simp
qed

text \<open>An undisturbed closing closes the browser of its key and nothing else.\<close>

lemma quiet_closeKey:
  assumes "quiet mg"
  shows "quiet (closeKey key mg)"
    and "mg_open (closeKey key mg) = mg_open mg - set_option (map_of (mg_sessions mg) key)"
    and "map_of (mg_sessions (closeKey key mg)) = (map_of (mg_sessions mg))(key := None)"
    and "mg_opening (closeKey key mg) = mg_opening mg"
    and "map_option ms_runId (mg_objects (closeKey key mg) n) = map_option ms_runId (mg_objects mg n)"
proof -
  note live = quiet_live [OF assms, of key]
  have "sane (closeKey key mg) \<and> mg_closing (closeKey key mg) = []"
  proof (cases "map_of (mg_sessions mg) key")
    case None
    then show ?thesis using assms live by (simp add: closeKey_def quiet_def)
  next
    case (Some m)
    note begin' = sane_close_begin [OF quietD(1) [OF assms], of key]
    have c: "mg_closing (closeKey_begin key mg) = [(key, m)]"
      using live quietD(2) [OF assms] by (simp add: closeKey_begin_def Some)
    then have "sane (closeKey_end key m (closeKey_begin key mg))" using sane_close_end [OF begin'] by simp
    then show ?thesis using c live by (simp add: closeKey_def Some) (simp add: closeKey_end_def)
  qed
  then show "quiet (closeKey key mg)" by (simp add: quiet_def)
  have "map_of (mg_sessions mg) key = None \<Longrightarrow> (map_of (mg_sessions mg))(key := None) = map_of (mg_sessions mg)"
    by auto
  then show "mg_open (closeKey key mg) = mg_open mg - set_option (map_of (mg_sessions mg) key)"
    "map_of (mg_sessions (closeKey key mg)) = (map_of (mg_sessions mg))(key := None)"
    "mg_opening (closeKey key mg) = mg_opening mg"
    "map_option ms_runId (mg_objects (closeKey key mg) n) = map_option ms_runId (mg_objects mg n)"
    unfolding closeKey_def live
    by (cases "map_of (mg_sessions mg) key";
        simp add: closeKey_begin_def closeKey_end_def live delete_conv' option.map_comp comp_def)+
qed

lemma quiet_fold_closeKey:
  "quiet mg \<Longrightarrow> quiet (fold closeKey keys mg) \<and>
   mg_open (fold closeKey keys mg) = mg_open mg - {n. \<exists>k \<in> set keys. map_of (mg_sessions mg) k = Some n} \<and>
   mg_opening (fold closeKey keys mg) = mg_opening mg \<and>
   map_option ms_runId (mg_objects (fold closeKey keys mg) n) = map_option ms_runId (mg_objects mg n)"
proof (induction keys arbitrary: mg)
  case (Cons key keys)
  note c = quiet_closeKey [OF Cons.prems, of key]
  have "mg_open (closeKey key mg) - {n. \<exists>k \<in> set keys. map_of (mg_sessions (closeKey key mg)) k = Some n} =
      mg_open mg - {n. \<exists>k \<in> set (key # keys). map_of (mg_sessions mg) k = Some n}"
    unfolding c(2,3) by (auto split: if_splits)
  then show ?case using Cons.IH [OF c(1)] c(4,5) by simp
qed simp

text \<open>The first half of the cancellation closes every open browser of the run and no other.\<close>

lemma quiet_open_key:
  assumes "quiet mg" and "n \<in> mg_open mg"
  shows "\<exists>key s. map_of (mg_sessions mg) key = Some n \<and> mg_objects mg n = Some s \<and> \<not> ms_closed s"
proof -
  note sane = saneD [OF quietD(1) [OF assms(1)]]
  obtain key where key: "map_of (mg_sessions mg) key = Some n" using sane_mapsD(3) [OF sane(3) assms(2)] by blast
  then show ?thesis using sane_mapsD(1) [OF sane(3) key] quietD(2) [OF assms(1)] by auto
qed

lemma close_live_sessions:
  assumes "quiet mg"
  shows "mg_open (fold closeKey (keys_of_run runId mg) mg) = mg_open mg - open_for runId mg"
proof -
  have "n \<in> open_for runId mg \<longleftrightarrow> (\<exists>k \<in> set (keys_of_run runId mg). map_of (mg_sessions mg) k = Some n)"
    if n: "n \<in> mg_open mg" for n
  proof -
    obtain key s where k: "map_of (mg_sessions mg) key = Some n" "mg_objects mg n = Some s" "\<not> ms_closed s"
      using quiet_open_key [OF assms n] by blast
    have mem: "(k, n) \<in> set (mg_sessions mg) \<longleftrightarrow> map_of (mg_sessions mg) k = Some n" for k
      using map_of_eq_Some_iff [OF saneD(1) [OF quietD(1) [OF assms]]] by simp
    have "k' \<in> set (keys_of_run runId mg) \<and> map_of (mg_sessions mg) k' = Some n \<Longrightarrow> ms_runId s = runId" for k'
    proof -
      assume k': "k' \<in> set (keys_of_run runId mg) \<and> map_of (mg_sessions mg) k' = Some n"
      then obtain m where m: "(k', m) \<in> set (mg_sessions mg)"
          "\<exists>t \<in> set_option (mg_objects mg m). ms_runId t = runId \<and> \<not> ms_closed t"
        by (auto simp: keys_of_run_def)
      have "m = n" using m(1) k' map_of_eq_Some_iff [OF saneD(1) [OF quietD(1) [OF assms]], of k' m] by simp
      then show "ms_runId s = runId" using m(2) k(2) by simp
    qed
    moreover have "key \<in> set (keys_of_run runId mg)" if "ms_runId s = runId"
      using k that mem [of key] by (force simp: keys_of_run_def)
    ultimately show ?thesis using k n by (auto simp: open_for_def)
  qed
  then show ?thesis using quiet_fold_closeKey [OF assms, of "keys_of_run runId mg"] by blast
qed

text \<open>Waiting for an opening adds at most its own browser, which the cancellation closes if it is the run's.\<close>

lemma quiet_settled: "quiet mg \<Longrightarrow> quiet (opening_settled key mg)"
  using sane_settled [of mg key] by (simp add: quiet_def) (simp add: opening_settled_def)

lemma fresh_object: "sane mg \<Longrightarrow> mg_objects mg (mg_next mg) = None"
  using sane_mapsD(5) [OF saneD(3), of mg "mg_next mg"] by (cases "mg_objects mg (mg_next mg)") auto

lemma quiet_returned:
  assumes "quiet mg" and "map_of (mg_opening mg) key = Some (r, None)"
  shows "quiet (factory_returned key sid mg)"
    and "mg_open (factory_returned key sid mg) = insert (mg_next mg) (mg_open mg)"
    and "mg_opening (factory_returned key sid mg) = AList.update key (r, Some (mg_next mg)) (mg_opening mg)"
    and "mg_objects (factory_returned key sid mg) = (mg_objects mg)(mg_next mg \<mapsto> \<lparr>ms_affinityKey = key,
      ms_runId = r, ms_browserbaseSessionId = sid, ms_liveViewWaited = False, ms_closed = False\<rparr>)"
  using sane_factory_returned [OF quietD(1) [OF assms(1)], of key sid] quietD(2) [OF assms(1)]
  by (simp_all add: quiet_def factory_returned_def assms(2) Let_def)

lemma close_opened_session:
  assumes q: "quiet mg" and only: "open_for runId mg \<subseteq> {n}"
    and mg': "mg' = (case mg_objects mg n of None \<Rightarrow> mg
      | Some s \<Rightarrow> if ms_runId s = runId \<and> \<not> ms_closed s then closeKey (ms_affinityKey s) mg else mg)"
  shows "quiet mg' \<and> open_for runId mg' = {} \<and> mg_opening mg' = mg_opening mg \<and>
    (\<forall>other. other \<noteq> runId \<longrightarrow> open_for other mg \<subseteq> open_for other mg')"
proof (cases "\<exists>s. mg_objects mg n = Some s \<and> ms_runId s = runId \<and> \<not> ms_closed s")
  case True
  then obtain s where s: "mg_objects mg n = Some s" "ms_runId s = runId" "\<not> ms_closed s" by blast
  have key: "map_of (mg_sessions mg) (ms_affinityKey s) = Some n"
    using sane_mapsD(6) [OF saneD(3) [OF quietD(1) [OF q]] s(1,3)] .
  have eq: "mg' = closeKey (ms_affinityKey s) mg" using s mg' by simp
  note c = quiet_closeKey [OF q, of "ms_affinityKey s", folded eq, unfolded key]
  have "open_for other mg' = open_for other mg - {n}" for other
    unfolding open_for_def c(2,5) by auto
  moreover have "n \<notin> open_for other mg" if "other \<noteq> runId" for other using s that by (simp add: open_for_def)
  ultimately show ?thesis using only c(1,4) by auto
next
  case False
  have "n \<notin> open_for runId mg"
  proof
    assume n: "n \<in> open_for runId mg"
    then obtain s where "mg_objects mg n = Some s" "\<not> ms_closed s"
      using quiet_open_key [OF q] by (auto simp: open_for_def)
    then show False using n False by (auto simp: open_for_def)
  qed
  then have "open_for runId mg = {}" using only by auto
  moreover have "mg' = mg" using False mg' by (auto split: option.splits)
  ultimately show ?thesis using q by simp
qed

lemma open_for_settled [simp]: "open_for r (opening_settled key mg) = open_for r mg"
  by (simp add: open_for_def opening_settled_def)

lemma opening_settled_opening [simp]: "mg_opening (opening_settled key mg) = AList.delete key (mg_opening mg)"
  by (simp add: opening_settled_def)

lemma close_opened_spec:
  assumes q: "quiet mg" and o: "map_of (mg_opening mg) key = Some (r, existing)" and none: "open_for runId mg = {}"
    and mg': "mg' = close_opened outcome runId (key, r, existing) mg"
  shows "quiet mg' \<and> open_for runId mg' = {} \<and> mg_opening mg' = AList.delete key (mg_opening mg) \<and>
    (\<forall>other. other \<noteq> runId \<longrightarrow> open_for other mg \<subseteq> open_for other mg')"
proof (cases existing)
  case (Some n)
  note eq = mg' [unfolded close_opened_def await_opening_def Some, simplified]
  show ?thesis using close_opened_session [OF quiet_settled [OF q] _ eq] none by simp
next
  case None
  show ?thesis
  proof (cases "outcome key")
    case fails: None
    then have "mg' = opening_settled key mg" by (simp add: mg' close_opened_def await_opening_def None)
    then show ?thesis using quiet_settled [OF q] none by simp
  next
    case (Some sid)
    note ret = quiet_returned [OF q o [unfolded None], of sid]
    note eq = mg' [unfolded close_opened_def await_opening_def None prod.case option.case Some]
    have only: "open_for runId (opening_settled key (factory_returned key sid mg)) \<subseteq> {mg_next mg}"
      unfolding open_for_settled using none by (auto simp: open_for_def ret(2,4))
    have others: "open_for other mg \<subseteq> open_for other (factory_returned key sid mg)" for other
      using fresh_object [OF quietD(1) [OF q]] by (auto simp: open_for_def ret(2,4))
    have "AList.delete key (AList.update key x xs) = AList.delete key xs" for x :: "string \<times> nat option" and xs
      by (induction xs) auto
    then show ?thesis
      using close_opened_session [OF quiet_settled [OF ret(1)] only eq] others ret(3)
      by (simp; meson order_trans)
  qed
qed

lemma close_openings_spec:
  "quiet mg \<Longrightarrow> open_for runId mg = {} \<Longrightarrow> mg_opening mg = os \<Longrightarrow>
   open_for runId (fold (close_opened outcome runId) os mg) = {} \<and>
   mg_opening (fold (close_opened outcome runId) os mg) = [] \<and>
   (\<forall>other. other \<noteq> runId \<longrightarrow> open_for other mg \<subseteq> open_for other (fold (close_opened outcome runId) os mg))"
proof (induction os arbitrary: mg)
  case (Cons o1 os)
  obtain key r existing where o1: "o1 = (key, r, existing)" by (cases o1)
  have o: "map_of (mg_opening mg) key = Some (r, existing)" using Cons.prems(3) o1 by simp
  have "key \<notin> fst ` set os" using saneD(2) [OF quietD(1) [OF Cons.prems(1)]] Cons.prems(3) o1 by simp
  then have rest: "AList.delete key (mg_opening mg) = os" using Cons.prems(3) o1 by (simp add: delete_id)
  define mg' where "mg' = close_opened outcome runId o1 mg"
  note c = close_opened_spec [OF Cons.prems(1) o Cons.prems(2) mg'_def [unfolded o1]]
  have "mg_opening mg' = os" using c rest by simp
  note ih = Cons.IH [OF conjunct1 [OF c] conjunct1 [OF conjunct2 [OF c]] this]
  have "fold (close_opened outcome runId) (o1 # os) mg = fold (close_opened outcome runId) os mg'"
    by (simp add: mg'_def)
  then show ?case using ih c by (metis (no_types, lifting) order_trans)
qed simp


text \<open>A run with an open browser and a pending opening under a key of its own.\<close>

definition busy_manager :: manager where
  "busy_manager = getOrOpen ''k2'' ''r'' (opened ''k1'' ''r'' (opened ''k0'' ''q'' new_manager))"


end
