(* ===== verification/Storage.thy ===== *)
theory Storage
  imports Actions Leases
begin

text \<open>
  What the two stores look like under everything that writes to them: the actions of the web
  application, the live-view handshakes and artifacts of both engines, and the worker's leases and
  heartbeats.  A store is well formed when its keys are unique, every foreign key of \<open>lib/db/schema.ts\<close>
  refers to a row, and versions are numbered from 1.
\<close>

section \<open>Well-formed stores\<close>

definition db_refs :: "db \<Rightarrow> bool" where
  "db_refs d \<longleftrightarrow>
     wv_workflowId ` set (db_versions d) \<subseteq> wf_id ` set (db_workflows d) \<and>
     wr_workflowId ` set (db_runs d) \<subseteq> wf_id ` set (db_workflows d) \<and>
     (\<forall>r \<in> set (db_runs d). set_option (wr_workflowVersionId r) \<subseteq> wv_id ` set (db_versions d)) \<and>
     nr_runId ` set (db_nodeRuns d) \<subseteq> wr_id ` set (db_runs d) \<and>
     ta_nodeRunId ` set (db_attempts d) \<subseteq> nr_id ` set (db_nodeRuns d)"

definition well_formed :: "db \<Rightarrow> bool" where
  "well_formed d \<longleftrightarrow> db_keys d \<and> db_refs d \<and> (\<forall>v \<in> set (db_versions d). 1 \<le> wv_versionNumber v)"

lemma well_formedD:
  "well_formed d \<Longrightarrow> db_keys d" "well_formed d \<Longrightarrow> db_refs d"
  "well_formed d \<Longrightarrow> v \<in> set (db_versions d) \<Longrightarrow> 1 \<le> wv_versionNumber v"
  by (simp_all add: well_formed_def)

lemma well_formed_empty: "well_formed empty_db"
  by (simp add: well_formed_def db_refs_def) (simp add: empty_db_def)

section \<open>Single writes\<close>

lemma image_if_same:
  "(\<And>x. f (g x) = f x) \<Longrightarrow> f ` set (map (\<lambda>x. if p x then g x else x) xs) = f ` set xs"
  by (induction xs) auto

lemma wf_saveWorkflowGraph:
  assumes "well_formed d" and "saveWorkflowGraph toposort now orgId i g d = Inr d'"
  shows "well_formed d'"
proof -
  have d': "d' = d\<lparr>db_workflows := map (\<lambda>w. if owns_workflow orgId i w
      then w\<lparr>wf_graph := Some g, wf_updatedAt := now\<rparr> else w) (db_workflows d)\<rparr>"
    using assms(2) by (simp add: saveWorkflowGraph_def Let_def split: if_splits)
  have "wf_id ` set (db_workflows d') = wf_id ` set (db_workflows d)"
    using image_if_same [of wf_id "\<lambda>w. w\<lparr>wf_graph := Some g, wf_updatedAt := now\<rparr>" "owns_workflow orgId i"
      "db_workflows d"] by (simp add: d')
  then show ?thesis using assms keys_save [OF well_formedD(1) [OF assms(1)] assms(2)]
    by (simp add: well_formed_def db_refs_def) (simp add: d')
qed

lemma wf_createWorkflow:
  assumes "well_formed d" and "new_id \<notin> wf_id ` set (db_workflows d)"
  shows "well_formed (snd (createWorkflow new_id now orgId name d))"
  using assms keys_create [OF well_formedD(1) [OF assms(1)] assms(2), of now orgId name]
  by (auto simp: well_formed_def db_refs_def createWorkflow_def Let_def)

lemma wf_deleteWorkflow:
  assumes "well_formed d" and "deleteWorkflow orgId i d = Inr (w, d')"
  shows "well_formed d'"
proof -
  note keys = keys_delete [OF well_formedD(1) [OF assms(1)] assms(2)]
  show ?thesis
  proof (cases "d' = d")
    case False
    then have d': "d' = d\<lparr>db_workflows := filter (\<lambda>w. \<not> owns_workflow orgId i w) (db_workflows d)\<rparr>"
      and unused: "\<not> workflow_referenced i d"
      using assms(2) by (auto simp: deleteWorkflow_def split: option.splits if_splits)
    have "x \<in> wf_id ` set (db_workflows d')" if "x \<in> wf_id ` set (db_workflows d)" "x \<noteq> i" for x
      using that unfolding d' owns_workflow_def by auto
    moreover have "wv_workflowId v \<noteq> i" if "v \<in> set (db_versions d)" for v
      using unused that by (auto simp: workflow_referenced_def)
    moreover have "wr_workflowId r \<noteq> i" if "r \<in> set (db_runs d)" for r
      using unused that by (auto simp: workflow_referenced_def)
    ultimately show ?thesis using assms(1) keys unfolding well_formed_def db_refs_def
      by (simp add: d' image_subset_iff)
  qed (use assms in simp)
qed

lemma wf_insert_version:
  assumes "well_formed d" and "insert_version v d = Inr d'" and "1 \<le> wv_versionNumber v"
  shows "well_formed d'"
proof -
  have "d' = d\<lparr>db_versions := db_versions d @ [v]\<rparr>" "wv_workflowId v \<in> wf_id ` set (db_workflows d)"
    using assms(2) by (auto simp: insert_version_def split: if_splits)
  moreover have "db_keys d'" using insert_version_Inr(2) [OF assms(2)] well_formedD(1) [OF assms(1)] by simp
  ultimately show ?thesis using assms(1,3) by (auto simp: well_formed_def db_refs_def)
qed

lemma wf_insert_run:
  assumes "well_formed d" and "insert_run r d = Inr d'"
  shows "well_formed d'"
proof -
  have "wr_workflowId r \<in> wf_id ` set (db_workflows d)" "set_option (wr_workflowVersionId r) \<subseteq> wv_id ` set (db_versions d)"
    using assms(2) by (auto simp: insert_run_def split: if_splits)
  then show ?thesis
    using assms(1) insert_run_Inr [OF assms(2)] by (auto simp: well_formed_def db_refs_def)
qed

lemma wf_ensurePhase2Workflow:
  assumes "\<And>d. store = Inr d \<Longrightarrow> well_formed d" and "ensurePhase2Workflow now i orgId name store = Inr d'"
  shows "well_formed d'"
proof -
  obtain d where d: "store = Inr d" using assms(2) by (cases store) (auto simp: ensurePhase2Workflow_def)
  show ?thesis
  proof (cases "i \<in> wf_id ` set (db_workflows d)")
    case False
    then have "d' = snd (createWorkflow i now orgId name d)"
      using assms(2) d by (simp add: ensurePhase2Workflow_def createWorkflow_def Let_def)
    then show ?thesis using wf_createWorkflow [OF assms(1) [OF d] False] by simp
  qed (use assms d in \<open>simp add: ensurePhase2Workflow_def\<close>)
qed

text \<open>Writes to tables no foreign key mentions.\<close>

lemma wf_other_tables:
  assumes "well_formed d"
  shows "well_formed (markLiveViewConnected now s r d)" "well_formed (clearLiveViewConnection s d)"
    "well_formed (saveRunArtifact now i orgId shot d)" "well_formed (snd (workerHeartbeat db_now w p now d))"
    "markEvoLiveViewConnected now s r (Inr d) = Inr d' \<Longrightarrow> well_formed d'"
proof -
  note keys = well_formedD(1) [OF assms]
  have mark: "well_formed (markLiveViewConnected now s r d)"
    using keys_mark [OF keys, of now s r] assms
    by (simp add: well_formed_def db_refs_def) (simp add: markLiveViewConnected_def insert_handshake_def)
  then show "well_formed (markLiveViewConnected now s r d)" .
  show "well_formed (clearLiveViewConnection s d)"
    using keys_clear [OF keys, of s] assms
    by (simp add: well_formed_def db_refs_def) (simp add: clearLiveViewConnection_def)
  show "well_formed (saveRunArtifact now i orgId shot d)"
    using keys_artifact [OF keys, of now i orgId shot] assms
    by (simp add: well_formed_def db_refs_def) (simp add: saveRunArtifact_def)
  show "well_formed (snd (workerHeartbeat db_now w p now d))"
    using keys_heartbeat [OF keys, of db_now w p now] assms
    by (simp add: well_formed_def db_refs_def) (simp add: workerHeartbeat_def)
  show "well_formed d'" if "markEvoLiveViewConnected now s r (Inr d) = Inr d'"
    using mark that
    by (simp add: markEvoLiveViewConnected_def insert_live_view_def markLiveViewConnected_def insert_handshake_def)
qed

lemma wf_update_attempts:
  assumes "well_formed d" and u: "update_attempts p f d = (n, d')" and "db_keys d'"
    and "\<And>a. ta_nodeRunId (f a) = ta_nodeRunId a"
  shows "well_formed d'"
proof -
  have d': "d' = d\<lparr>db_attempts := map (\<lambda>a. if p a then f a else a) (db_attempts d)\<rparr>"
    using u by (simp add: update_attempts_def)
  have "ta_nodeRunId ` set (db_attempts d') = ta_nodeRunId ` set (db_attempts d)"
    using image_if_same [of ta_nodeRunId f p "db_attempts d", OF assms(4)] by (simp add: d')
  then show ?thesis using assms(1,3) unfolding well_formed_def db_refs_def by (simp add: d' del: set_map)
qed

lemma wf_pg_op:
  assumes "well_formed d"
  shows "well_formed (snd (pg_op x d))"
proof -
  have keys: "db_keys (snd (pg_op x d))" using pg.op_inv [OF well_formedD(1) [OF assms]] .
  show ?thesis
    using keys
    by (cases x) (auto simp: acquireAttemptLease_def renewAttemptLease_def split: prod.splits
      elim: wf_update_attempts [OF assms])
qed

section \<open>Operations of several queries\<close>

text \<open>The other writers between the queries of one operation leave the store well formed.\<close>

definition lawful :: "world \<Rightarrow> bool" where
  "lawful world \<longleftrightarrow> (\<forall>k d d'. well_formed d \<longrightarrow> world k d = Inr d' \<longrightarrow> well_formed d')"

lemma lawfulD: "lawful world \<Longrightarrow> world k d = Inr d' \<Longrightarrow> well_formed d \<Longrightarrow> well_formed d'"
  unfolding lawful_def by blast

lemma wf_allocate:
  "lawful world \<Longrightarrow> well_formed d \<Longrightarrow> 1 \<le> c \<Longrightarrow> well_formed (snd (allocate world ids now a left k c d))"
proof (induction world ids now a left k c d rule: allocate.induct)
  case (2 world ids now a left k c d)
  show ?case
  proof (cases "world k d")
    case (Inl e)
    then show ?thesis using 2 by simp
  next
    case (Inr d1)
    note k1 = lawfulD [OF 2(2) Inr 2(3)]
    show ?thesis
    proof (cases "insert_version (new_version a now (ids k) c) d1")
      case ins: (Inr d2)
      have "1 \<le> wv_versionNumber (new_version a now (ids k) c)" using 2(4) by (simp add: new_version_def)
      then show ?thesis using wf_insert_version [OF k1 ins] ins Inr by simp
    next
      case ins: (Inl e)
      show ?thesis
      proof (cases "isUniqueViolation e \<and> (\<exists>d2. world (Suc k) d1 = Inr d2)")
        case True
        then obtain d2 where w2: "world (Suc k) d1 = Inr d2" and u: "isUniqueViolation e" by blast
        note k2 = lawfulD [OF 2(2) w2 k1]
        have "1 \<le> max c (maxVersionNumber (va_workflowId a) d2) + 1" using 2(4) by simp
        with 2(1) [OF Inr ins _ w2 2(2) k2] u show ?thesis by (simp add: Inr ins w2)
      next
        case False
        then show ?thesis using k1 Inr ins by (cases "world (Suc k) d1") auto
      qed
    qed
  qed
qed simp

lemma wf_createWorkflowVersion:
  assumes "lawful world" and "well_formed d"
  shows "well_formed (snd (createWorkflowVersion world ids now a d))"
proof (cases "world 0 d")
  case (Inl e)
  then show ?thesis using assms by (simp add: createWorkflowVersion_def)
next
  case (Inr d0)
  note k0 = lawfulD [OF assms(1) Inr assms(2)]
  have "1 \<le> wv_versionNumber v + 1" if "latest_version (va_orgId a) (va_workflowId a) d0 = Some v" for v
  proof -
    have "v \<in> set (db_versions d0)"
      using that set_sort [of "\<lambda>v. - wv_versionNumber v"]
      by (cases "listWorkflowVersions (va_orgId a) (va_workflowId a) d0")
        (auto simp: latest_version_def listWorkflowVersions_def dest!: arg_cong [of _ _ set])
    then show ?thesis using well_formedD(3) [OF k0] by fastforce
  qed
  then show ?thesis using wf_allocate [OF assms(1) k0] k0
    by (auto simp: createWorkflowVersion_def Inr Let_def split: option.split)
qed

lemma wf_createWorkflowRunRecord:
  assumes "lawful world" and "well_formed d"
  shows "well_formed (snd (createWorkflowRunRecord world now a d))"
proof (cases "world 0 d")
  case (Inl e)
  then show ?thesis using assms by (simp add: createWorkflowRunRecord_def)
next
  case (Inr d0)
  note k0 = lawfulD [OF assms(1) Inr assms(2)]
  then show ?thesis using wf_insert_run [OF k0] lawfulD [OF assms(1) _ k0]
    by (auto simp: createWorkflowRunRecord_def Inr split: sum.split option.split)
qed

lemma wf_default_save:
  assumes "lawful world" and "well_formed d"
  shows "well_formed (snd (default_save toposort world now orgId i g d))"
proof (cases "world 1 d")
  case (Inl e)
  then show ?thesis using assms by (simp add: default_save_def)
next
  case (Inr d1)
  note k1 = lawfulD [OF assms(1) Inr assms(2)]
  then show ?thesis using wf_saveWorkflowGraph [OF k1]
    by (auto simp: default_save_def Inr [unfolded One_nat_def] split: sum.split)
qed

lemma wf_saveWorkflowGraphOptimistic:
  assumes "lawful world" and "well_formed d" and "\<And>d. well_formed d \<Longrightarrow> well_formed (snd (saveFn d))"
  shows "well_formed (snd (saveWorkflowGraphOptimistic world saveFn orgId i expected d))"
  using assms lawfulD [OF assms(1) _ assms(2)]
  by (auto simp: saveWorkflowGraphOptimistic_def Let_def split: option.split sum.split)

section \<open>The actions\<close>

definition lawful_env :: "'s action_env \<Rightarrow> bool" where
  "lawful_env ax \<longleftrightarrow> lawful (ax_w_save ax) \<and> lawful (ax_w_workflow ax) \<and> lawful (ax_w_ensure ax) \<and>
     lawful (ax_w_version ax) \<and> lawful (ax_w_record ax)"

definition stores_ok :: "'s sys \<Rightarrow> bool" where
  "stores_ok st \<longleftrightarrow> well_formed (sy_neon st) \<and> well_formed (sy_phase2 st)"

lemma stores_okD: "stores_ok st \<Longrightarrow> well_formed (sy_neon st)" "stores_ok st \<Longrightarrow> well_formed (sy_phase2 st)"
  by (simp_all add: stores_ok_def)

lemma ok_createWorkflowAction:
  assumes "lawful_env ax" and "stores_ok st"
    and fresh: "\<And>d. ax_w_save ax 0 (sy_neon st) = Inr d \<Longrightarrow> ax_uuid ax \<notin> wf_id ` set (db_workflows d)"
  shows "stores_ok (snd (createWorkflowAction ax name st))"
proof (cases "ax_w_save ax 0 (sy_neon st)")
  case (Inr d)
  have "well_formed d" using assms(1,2) Inr by (auto simp: lawful_env_def stores_ok_def intro: lawfulD)
  then show ?thesis using assms(2) wf_createWorkflow [OF _ fresh [OF Inr]]
    by (auto simp: createWorkflowAction_def Inr stores_ok_def split: sum.split prod.split)
      (metis snd_conv)+
qed (use assms(2) in \<open>auto simp: createWorkflowAction_def split: sum.split\<close>)

lemma ok_deleteWorkflowAction:
  assumes "lawful_env ax" and "stores_ok st"
  shows "stores_ok (snd (deleteWorkflowAction ax deleteRoom i st))"
proof (cases "ax_w_save ax 0 (sy_neon st)")
  case (Inr d)
  have "well_formed d" using assms(1,2) Inr by (auto simp: lawful_env_def stores_ok_def intro: lawfulD)
  then show ?thesis using assms(2) wf_deleteWorkflow
    by (auto simp: deleteWorkflowAction_def Inr stores_ok_def split: sum.split prod.split option.split)
qed (use assms(2) in \<open>auto simp: deleteWorkflowAction_def split: sum.split\<close>)

lemma ok_snapshot_evo:
  assumes "lawful_env ax" and "stores_ok st"
  shows "stores_ok (snd (snapshot_evo ax orgId i g st))"
proof (cases "ax_phase2Client ax \<and> (\<exists>d. ax_w_workflow ax 0 (sy_neon st) = Inr d)")
  case True
  then obtain d where d: "ax_w_workflow ax 0 (sy_neon st) = Inr d" by blast
  have wd: "well_formed d" using assms d by (auto simp: lawful_env_def stores_ok_def intro: lawfulD)
  let ?name = "nullish (map_option wf_name (getWorkflow orgId i d)) ''workflow''"
  show ?thesis
  proof (cases "ensurePhase2Workflow (ax_now ax) i orgId ?name (ax_w_ensure ax 0 (sy_phase2 st))")
    case (Inl e)
    then show ?thesis using True wd d assms(2) by (auto simp: snapshot_evo_def stores_ok_def Let_def)
  next
    case (Inr d2)
    have "well_formed d2"
      by (rule wf_ensurePhase2Workflow [OF _ Inr]) (use assms in \<open>auto simp: lawful_env_def stores_ok_def intro: lawfulD\<close>)
    then have "well_formed (snd (createWorkflowVersion (ax_w_version ax) (ax_ids ax) (ax_now ax)
        (version_args_of ax orgId i g) d2))"
      using assms(1) by (simp add: lawful_env_def wf_createWorkflowVersion)
    then show ?thesis using True wd d Inr
      by (auto simp: snapshot_evo_def stores_ok_def Let_def split: prod.splits sum.splits)
  qed
next
  case False
  then show ?thesis using assms(2)
    by (cases "ax_w_workflow ax 0 (sy_neon st)") (auto simp: snapshot_evo_def)
qed

lemma ok_snapshot_legacy:
  assumes "lawful_env ax" and "stores_ok st"
  shows "stores_ok (snd (snapshot_legacy ax orgId i g st))"
  using assms wf_createWorkflowVersion [of "ax_w_version ax" "sy_neon st" "ax_ids ax" "ax_now ax"
      "version_args_of ax orgId i g"]
  by (auto simp: snapshot_legacy_def lawful_env_def stores_ok_def split: prod.splits sum.splits)

lemma stores_ok_adapter: "stores_ok (snd (adapter_for ax e st)) = stores_ok st"
  by (simp add: stores_ok_def)

lemma ok_submit_evo:
  assumes "lawful_env ax" and "stores_ok st"
  shows "stores_ok (snd (submit_evo ax orgId i g v st))"
proof -
  obtain ad st1 where ad: "adapter_for ax Evo st = (ad, st1)" by (cases "adapter_for ax Evo st")
  have ok: "stores_ok st1" using assms(2) stores_ok_adapter [of ax Evo st] ad by simp
  have "well_formed (snd (createWorkflowRunRecord (ax_w_record ax) (ax_now ax) a (sy_phase2 st1)))" for a
    using assms(1) stores_okD(2) [OF ok] by (simp add: lawful_env_def wf_createWorkflowRunRecord)

  show ?thesis using ok \<open>\<And>a. well_formed (snd (createWorkflowRunRecord (ax_w_record ax) (ax_now ax) a (sy_phase2 st1)))\<close>
    by (auto simp: submit_evo_def ad Let_def stores_ok_def split: prod.splits sum.splits) (metis snd_conv)+
qed

lemma ok_submit_legacy:
  assumes "lawful_env ax" and "stores_ok st"
  shows "stores_ok (snd (submit_legacy ax orgId i g v st))"
proof -
  obtain ad st1 where ad: "adapter_for ax Legacy st = (ad, st1)" by (cases "adapter_for ax Legacy st")
  have ok: "stores_ok st1" using assms(2) stores_ok_adapter [of ax Legacy st] ad by simp
  have "well_formed (snd (createWorkflowRunRecord (ax_w_record ax) (ax_now ax) a (sy_neon st1)))" for a
    using assms(1) stores_okD(1) [OF ok] by (simp add: lawful_env_def wf_createWorkflowRunRecord)
  then show ?thesis using ok
    by (auto simp: submit_legacy_def ad Let_def stores_ok_def split: prod.splits sum.splits) (metis snd_conv)+
qed

lemma ok_runWorkflowAction:
  assumes "lawful_env ax" and "stores_ok st"
  shows "stores_ok (snd (runWorkflowAction ax i g st))"
proof (cases "run_gate ax i g")
  case (Inl e)
  then show ?thesis using assms by (simp add: runWorkflowAction_def)
next
  case (Inr orgId)
  obtain q d where save: "default_save (ax_toposort ax) (ax_w_save ax) (ax_now ax) orgId i g (sy_neon st) = (q, d)"
    by (cases "default_save (ax_toposort ax) (ax_w_save ax) (ax_now ax) orgId i g (sy_neon st)")
  have "well_formed d"
    using wf_default_save [of "ax_w_save ax" "sy_neon st" "ax_toposort ax" "ax_now ax" orgId i g] save assms
    by (simp add: lawful_env_def stores_ok_def)
  then have ok: "stores_ok (st\<lparr>sy_neon := d\<rparr>)" using assms(2) by (simp add: stores_ok_def)
  note evo = ok_snapshot_evo [OF assms(1) ok, of orgId i g] and legacy = ok_snapshot_legacy [OF assms(1) ok, of orgId i g]
  show ?thesis using ok evo legacy ok_submit_evo [OF assms(1)] ok_submit_legacy [OF assms(1)]
    by (auto simp: runWorkflowAction_def Inr save Let_def split: sum.splits prod.splits)
qed

lemma stores_ok_outside: "stores_ok (st\<lparr>sy_outside := s'\<rparr>) = stores_ok st"
  by (simp add: stores_ok_def)

lemma ok_cancelWorkflowRunAction:
  assumes "stores_ok st"
  shows "stores_ok (snd (cancelWorkflowRunAction ax runId st))"
proof -
  have ad: "stores_ok st1" if "adapter_for ax e st = (ad, st1)" for e ad st1
    using assms stores_ok_adapter [of ax e st] that by simp
  have final: "stores_ok (snd (let (ad, st) = adapter_for ax e st in
      (case ad_cancelRun ad r (sy_outside st) of
         (Inl e, s') \<Rightarrow> (Inl (EngineFailed e), st\<lparr>sy_outside := s'\<rparr>)
       | (Inr u, s') \<Rightarrow> (Inr (), st\<lparr>sy_outside := s'\<rparr>))))" for e r
  proof -
    obtain ad0 st1 where a: "adapter_for ax e st = (ad0, st1)" by (cases "adapter_for ax e st")
    obtain q s' where c: "ad_cancelRun ad0 r (sy_outside st1) = (q, s')" by (cases "ad_cancelRun ad0 r (sy_outside st1)")
    show ?thesis using ad [OF a] by (cases q) (simp_all add: a c stores_ok_outside)
  qed
  show ?thesis
    unfolding cancelWorkflowRunAction_def
    by (simp only: final assms snd_conv split: sum.split) simp
qed

section \<open>Every write keeps both stores well formed\<close>

text \<open>
  The writes of the system, each against stores other lawful writers may have changed since.  A created
  workflow gets an id that was not used before (\<open>defaultRandom\<close>); \<open>elsewhere\<close> stands for the writes of
  the engines, which the constraints guard.
\<close>

inductive app_step :: "'s sys \<Rightarrow> 's sys \<Rightarrow> bool" where
  creates: "lawful_env ax \<Longrightarrow> (\<And>d. ax_w_save ax 0 (sy_neon st) = Inr d \<Longrightarrow> ax_uuid ax \<notin> wf_id ` set (db_workflows d)) \<Longrightarrow>
     app_step st (snd (createWorkflowAction ax name st))"
| deletes: "lawful_env ax \<Longrightarrow> app_step st (snd (deleteWorkflowAction ax deleteRoom i st))"
| runs: "lawful_env ax \<Longrightarrow> app_step st (snd (runWorkflowAction ax i g st))"
| cancels: "app_step st (snd (cancelWorkflowRunAction ax runId st))"
| saves: "lawful world \<Longrightarrow> app_step st (st\<lparr>sy_neon := snd (saveWorkflowGraphOptimistic world
     (default_save toposort world now orgId i g) orgId i expected (sy_neon st))\<rparr>)"
| views: "app_step st (st\<lparr>sy_neon := markLiveViewConnected now sessionId rid (sy_neon st)\<rparr>)"
| ends_view: "app_step st (st\<lparr>sy_neon := clearLiveViewConnection sessionId (sy_neon st)\<rparr>)"
| shoots: "app_step st (st\<lparr>sy_neon := saveRunArtifact now runId orgId shot (sy_neon st)\<rparr>)"
| views_evo: "markEvoLiveViewConnected now sessionId rid (Inr (sy_phase2 st)) = Inr d \<Longrightarrow> app_step st (st\<lparr>sy_phase2 := d\<rparr>)"
| leases: "app_step st (st\<lparr>sy_phase2 := snd (pg_op x (sy_phase2 st))\<rparr>)"
| beats: "app_step st (st\<lparr>sy_phase2 := snd (workerHeartbeat db_now w envPrefix now (sy_phase2 st))\<rparr>)"
| elsewhere: "lawful world \<Longrightarrow> world 0 (sy_neon st) = Inr d \<Longrightarrow> world 1 (sy_phase2 st) = Inr d' \<Longrightarrow>
     app_step st (st\<lparr>sy_neon := d, sy_phase2 := d'\<rparr>)"

lemma app_step_ok: "app_step st st' \<Longrightarrow> stores_ok st \<Longrightarrow> stores_ok st'"
proof (induction rule: app_step.induct)
  case (saves world st toposort now orgId i g expected)
  have "well_formed (snd (default_save toposort world now orgId i g d))" if "well_formed d" for d
    using saves(1) that by (rule wf_default_save)
  with saves show ?case
    using wf_saveWorkflowGraphOptimistic [of world "sy_neon st" "default_save toposort world now orgId i g" orgId i expected]
    by (simp add: stores_ok_def)
next
  case (views_evo now sessionId rid st d)
  then show ?case using wf_other_tables(5) [OF stores_okD(2) [OF views_evo(2)] views_evo(1)] by (simp add: stores_ok_def)
next
  case (elsewhere world st d d')
  then show ?case using lawfulD [OF elsewhere(1,2)] lawfulD [OF elsewhere(1,3)] by (simp add: stores_ok_def)
qed (simp_all add: ok_createWorkflowAction ok_deleteWorkflowAction ok_runWorkflowAction ok_cancelWorkflowRunAction,
  simp_all add: stores_ok_def wf_other_tables wf_pg_op)



end
