(* ===== verification/Executors.thy ===== *)
theory Executors
  imports Worker Sessions RunEvents WorkflowData
begin

text \<open>
  Running one node: the executors of \<open>features/workflows/nodes/\<close>, the worker's adapter around them
  (\<open>worker/src/node-executor-adapter.ts\<close>) with its durable loaders (\<open>worker/src/durable-loaders.ts\<close>),
  the email test sink (\<open>worker/src/email-test-sink.ts\<close>), the synthetic executor
  (\<open>worker/src/synthetic-executor.ts\<close>) and the composite of \<open>worker/src/main.ts\<close>.

  Stagehand, Resend and the browser are outside: their calls are actions on an abstract state, given as
  parameters.  The overlays drawn into the live view are added in \<open>Overlays\<close>.
\<close>

section \<open>Actions on the outside\<close>

text \<open>An awaited call: it may throw (\<open>Inl\<close> the message), and it may change the outside either way.\<close>

type_synonym ('s, 'a) act = "'s \<Rightarrow> (string + 'a) \<times> 's"

definition return :: "'a \<Rightarrow> ('s, 'a) act" where
  "return x s = (Inr x, s)"

definition throw :: "string \<Rightarrow> ('s, 'a) act" where
  "throw m s = (Inl m, s)"

definition then_do :: "('s, 'a) act \<Rightarrow> ('a \<Rightarrow> ('s, 'b) act) \<Rightarrow> ('s, 'b) act" where
  "then_do f g s = (case f s of (Inl m, s') \<Rightarrow> (Inl m, s') | (Inr x, s') \<Rightarrow> g x s')"

lemmas act_defs = return_def throw_def then_do_def

text \<open>The Stagehand calls the executors make.\<close>

record 's stagehand =
  sh_act :: "string option \<Rightarrow> ('s, bool \<times> string) act"
  sh_extract :: "string option \<Rightarrow> ('s, jsval) act"
  sh_observe :: "string option \<Rightarrow> ('s, (string \<times> string) list) act"
  sh_agent :: "string option \<Rightarrow> ('s, bool \<times> string \<times> bool) act"
  sh_goto :: "string option \<Rightarrow> ('s, unit) act"
  sh_url :: "('s, string) act"
  sh_title :: "('s, string) act"

text \<open>A message to Resend; the reply carries an email id, an error message, or both or neither.\<close>

record email_msg =
  em_from :: string
  em_to :: "string option"
  em_subject :: "string option"
  em_html :: "string option"

type_synonym 's resend = "email_msg \<Rightarrow> string option \<Rightarrow> ('s, string option \<times> string option) act"

section \<open>The executors\<close>

record 's node_context =
  nc_values :: "(string \<times> string) list"
  nc_getStagehand :: "('s, 's stagehand) act"
  nc_idempotencyKey :: "string option"

type_synonym 's executor = "'s node_context \<Rightarrow> ('s, jsval) act"

definition act_node :: "'s stagehand \<Rightarrow> string option \<Rightarrow> ('s, jsval) act" where
  "act_node sh instruction =
     then_do (sh_act sh instruction) (\<lambda>(success, message).
     then_do (sh_url sh) (\<lambda>url.
       return (JObj [(''success'', JBool success), (''message'', JStr message), (''url'', JStr url)])))"

definition agent_node :: "'s stagehand \<Rightarrow> string option \<Rightarrow> ('s, jsval) act" where
  "agent_node sh instruction =
     then_do (sh_agent sh instruction) (\<lambda>(success, message, completed).
       return (JObj [(''success'', JBool success), (''message'', JStr message), (''completed'', JBool completed)]))"

definition extract_node :: "'s stagehand \<Rightarrow> string option \<Rightarrow> ('s, jsval) act" where
  "extract_node sh instruction =
     then_do (sh_extract sh instruction) (\<lambda>extraction. return (JObj [(''extraction'', extraction)]))"

definition observe_node :: "'s stagehand \<Rightarrow> string option \<Rightarrow> ('s, jsval) act" where
  "observe_node sh instruction =
     then_do (sh_observe sh instruction) (\<lambda>results.
       return (JObj [(''matches'', JArr (map (\<lambda>(selector, description).
         JObj [(''selector'', JStr selector), (''description'', JStr description)]) results))]))"

definition openUrl :: "'s stagehand \<Rightarrow> string option \<Rightarrow> ('s, jsval) act" where
  "openUrl sh url =
     then_do (sh_goto sh url) (\<lambda>_.
     then_do (sh_url sh) (\<lambda>u.
     then_do (sh_title sh) (\<lambda>t. return (JObj [(''url'', JStr u), (''title'', JStr t)]))))"

definition sendEmail ::
    "'s resend \<Rightarrow> string option \<Rightarrow> string option \<Rightarrow> string option \<Rightarrow> string option \<Rightarrow> ('s, jsval) act" where
  "sendEmail resend to subject body key =
     then_do (resend \<lparr>em_from = ''onboarding@resend.dev'', em_to = to, em_subject = subject, em_html = body\<rparr>
                (if truthy key then key else None)) (\<lambda>(data, error).
       (case (error, data) of
          (None, Some i) \<Rightarrow> return (JObj [(''id'', JStr i)])
        | _ \<Rightarrow> throw (nullish error ''Resend returned no email id'')))"

text \<open>The table of executors, in the order of the object literal.\<close>

definition with_stagehand ::
    "('s stagehand \<Rightarrow> string option \<Rightarrow> ('s, jsval) act) \<Rightarrow> string \<Rightarrow> 's executor" where
  "with_stagehand f key ctx = then_do (nc_getStagehand ctx) (\<lambda>sh. f sh (map_of (nc_values ctx) key))"

definition nodeExecutors :: "'s resend \<Rightarrow> (string \<times> 's executor) list" where
  "nodeExecutors resend =
     [(''open-url'', with_stagehand openUrl ''url''),
      (''act'', with_stagehand act_node ''instruction''),
      (''extract'', with_stagehand extract_node ''instruction''),
      (''observe'', with_stagehand observe_node ''instruction''),
      (''agent'', with_stagehand agent_node ''instruction''),
      (''send-email'', \<lambda>ctx. sendEmail resend (map_of (nc_values ctx) ''to'') (map_of (nc_values ctx) ''subject'')
         (map_of (nc_values ctx) ''body'') (nc_idempotencyKey ctx))]"

section \<open>The loaders\<close>

text \<open>\<open>Inl\<close> is the error of a store that cannot be reached, which leaves the loader as an exception.\<close>

definition loadVersion :: "string \<Rightarrow> store \<Rightarrow> db_error + (string \<times> workflow_graph) option" where
  "loadVersion workflowVersionId store =
     (if workflowVersionId = [] then Inr None
      else (case store of
        Inl e \<Rightarrow> Inl e
      | Inr d \<Rightarrow> Inr (map_option (\<lambda>v. (wv_id v, wv_graph v))
                   (select_one (\<lambda>v. wv_id v = workflowVersionId) (db_versions d)))))"

definition predecessors_of :: "workflow_graph \<Rightarrow> string \<Rightarrow> string list" where
  "predecessors_of g nodeId = map eg_source (filter (\<lambda>e. eg_target e = nodeId) (wg_edges g))"

text \<open>The rows of the predecessors, in the order the query returns them; each sets one key.\<close>

definition collect_outputs :: "node_run_row list \<Rightarrow> (string \<times> jsval) list" where
  "collect_outputs rows =
     fold (\<lambda>r outputs. case nr_output r of
             Some v \<Rightarrow> if is_nullish v then outputs else AList.update (nr_nodeId r) v outputs
           | None \<Rightarrow> outputs) rows []"

text \<open>Three queries, each of which finds its own state of the store.\<close>

definition loadPredecessorOutputs ::
    "string \<Rightarrow> string \<Rightarrow> store \<Rightarrow> store \<Rightarrow> store \<Rightarrow> db_error + (string \<times> jsval) list" where
  "loadPredecessorOutputs runId nodeId s1 s2 s3 =
     (case s1 of
        Inl e \<Rightarrow> Inl e
      | Inr d1 \<Rightarrow>
          let versionId = (case select_one (\<lambda>r. wr_id r = runId) (db_runs d1) of
                             None \<Rightarrow> None | Some run \<Rightarrow> wr_workflowVersionId run) in
          if \<not> truthy versionId then Inr []
          else (case s2 of
             Inl e \<Rightarrow> Inl e
           | Inr d2 \<Rightarrow>
               (case select_one (\<lambda>v. Some (wv_id v) = versionId) (db_versions d2) of
                  None \<Rightarrow> Inr []
                | Some version \<Rightarrow>
                    let predecessors = predecessors_of (wv_graph version) nodeId in
                    if predecessors = [] then Inr []
                    else (case s3 of
                       Inl e \<Rightarrow> Inl e
                     | Inr d3 \<Rightarrow> Inr (collect_outputs (filter (\<lambda>n. nr_runId n = runId \<and>
                                   nr_nodeId n \<in> set predecessors) (db_nodeRuns d3)))))))"

section \<open>The adapter\<close>

text \<open>
  \<open>ao_proto\<close> is what a call of a function inherited from \<open>Object.prototype\<close> does, which a lookup by a
  type that names one of its properties finds.
\<close>

record 's adapter_options =
  ao_loadVersion :: "string \<Rightarrow> string \<Rightarrow> ('s, (string \<times> workflow_graph) option) act"
  ao_loadPredecessorOutputs :: "string \<Rightarrow> string \<Rightarrow> ('s, (string \<times> jsval) list) act"
  ao_getStagehand :: "(task_view \<Rightarrow> ('s, 's stagehand) act) option"
  ao_executorOverrides :: "(string \<times> 's executor) list option"
  ao_nodeExecutors :: "(string \<times> 's executor) list"
  ao_proto :: "string \<Rightarrow> 's executor"

fun found :: "(string \<Rightarrow> 'x) \<Rightarrow> string \<Rightarrow> 'x lookup \<Rightarrow> 'x option" where
  "found proto k Missing = None"
| "found proto k Inherited = Some (proto k)"
| "found proto k (Own x) = Some x"

definition executor_for :: "'s adapter_options \<Rightarrow> string \<Rightarrow> 's executor option" where
  "executor_for ao nodeType =
     nullish_opt
       (case ao_executorOverrides ao of None \<Rightarrow> None | Some m \<Rightarrow> found (ao_proto ao) nodeType (js_lookup m nodeType))
       (found (ao_proto ao) nodeType (js_lookup (ao_nodeExecutors ao) nodeType))"

definition permanentFailure :: "string \<Rightarrow> executor_result" where
  "permanentFailure error =
     \<lparr>er_completed = False, er_output = None, er_error = Some error,
      er_errorClass = Some ERROR_PERMANENT, er_retryable = Some False\<rparr>"

definition skipped_result :: executor_result where
  "skipped_result =
     \<lparr>er_completed = True, er_output = stringify (JObj [(''skipped'', JBool True)]), er_error = None,
      er_errorClass = None, er_retryable = None\<rparr>"

definition node_values ::
    "(jsval \<Rightarrow> string \<Rightarrow> jsval) \<Rightarrow> (string \<times> jsval) list \<Rightarrow> step_node \<Rightarrow> (string \<times> string) list" where
  "node_values inherited outputs node =
     map (\<lambda>(k, t). (k, interpolate inherited outputs t)) (sd_values (sn_data node))"

definition idempotency_key :: "task_view \<Rightarrow> string" where
  "idempotency_key task = ''side-effect:'' @ tk_runId task @ '':'' @ tk_nodeId task"

text \<open>The outcome of the executor call, with its \<open>catch\<close>.\<close>

definition executed :: "(string + jsval) \<times> 's \<Rightarrow> (string + executor_result) \<times> 's" where
  "executed = (\<lambda>(r, s).
     (Inr (case r of
        Inr output \<Rightarrow>
          \<lparr>er_completed = True, er_output = stringify (if is_nullish output then JNull else output),
           er_error = None, er_errorClass = None, er_retryable = None\<rparr>
      | Inl err \<Rightarrow>
          \<lparr>er_completed = False, er_output = None, er_error = Some err,
           er_errorClass = Some ERROR_TRANSIENT, er_retryable = Some True\<rparr>), s))"

definition createNodeExecutorAdapter ::
    "(jsval \<Rightarrow> string \<Rightarrow> jsval) \<Rightarrow> 's adapter_options \<Rightarrow> task_view \<Rightarrow> bool \<Rightarrow> ('s, executor_result) act" where
  "createNodeExecutorAdapter inherited ao task aborted =
     then_do (ao_loadVersion ao (tk_orgId task) (tk_workflowVersionId task)) (\<lambda>version.
     (case version of
        None \<Rightarrow> return (permanentFailure (''workflow version not found: '' @ tk_workflowVersionId task))
      | Some (_, graph) \<Rightarrow>
     (case List.find (\<lambda>n. sn_id n = tk_nodeId task) (wg_nodes graph) of
        None \<Rightarrow> return (permanentFailure (''node not found in version: '' @ tk_nodeId task))
      | Some node \<Rightarrow>
     (case executor_for ao (sd_type (sn_data node)) of
        None \<Rightarrow> return skipped_result
      | Some executor \<Rightarrow>
          if aborted then
            return \<lparr>er_completed = False, er_output = None, er_error = Some ''canceled before execution'',
                    er_errorClass = Some ERROR_CANCELED, er_retryable = Some False\<rparr>
          else
            then_do (ao_loadPredecessorOutputs ao (tk_runId task) (tk_nodeId task)) (\<lambda>outputs s.
              executed (executor
                \<lparr>nc_values = node_values inherited outputs node,
                 nc_getStagehand = (case ao_getStagehand ao of
                    Some f \<Rightarrow> f task
                  | None \<Rightarrow> throw (''node '' @ tk_nodeId task @ '' ('' @ sd_type (sn_data node) @
                      '') requires a browser session, but none is available on this worker'')),
                 nc_idempotencyKey = Some (idempotency_key task)\<rparr> s))))))"

section \<open>The email test sink\<close>

record recorded_email =
  re_to :: "string option"
  re_subject :: "string option"
  re_body :: "string option"
  re_idempotencyKey :: "string option"

record email_sink =
  es_sent :: "recorded_email list"
  es_cache :: "(string \<times> string) list"

definition createEmailTestSink :: email_sink where
  "createEmailTestSink = \<lparr>es_sent = [], es_cache = []\<rparr>"

text \<open>The cached results are the email ids.\<close>

definition sink_executor :: "email_sink executor" where
  "sink_executor ctx sink =
     (case (if truthy (nc_idempotencyKey ctx) then map_of (es_cache sink) (nullish (nc_idempotencyKey ctx) []) else None) of
        Some i \<Rightarrow> (Inr (JObj [(''id'', JStr i)]), sink)
      | None \<Rightarrow>
          let sent = es_sent sink @ [\<lparr>re_to = map_of (nc_values ctx) ''to'', re_subject = map_of (nc_values ctx) ''subject'',
                re_body = map_of (nc_values ctx) ''body'', re_idempotencyKey = nc_idempotencyKey ctx\<rparr>];
              i = ''test-email-'' @ nat_text (length sent)
          in (Inr (JObj [(''id'', JStr i)]),
              \<lparr>es_sent = sent,
               es_cache = (if truthy (nc_idempotencyKey ctx)
                           then AList.update (nullish (nc_idempotencyKey ctx) []) i (es_cache sink) else es_cache sink)\<rparr>))"

definition sink_reset :: "email_sink \<Rightarrow> email_sink" where
  "sink_reset sink = \<lparr>es_sent = [], es_cache = []\<rparr>"

section \<open>The synthetic executor\<close>

text \<open>
  The payload as \<open>JSON.parse\<close> and the cast give it, and what a call meets: whether the signal is aborted
  before the sleep or during it, the clock at its start, and for each round of the burn loop the clock,
  the signal, and whether it is aborted during the pause.
\<close>

record synthetic_payload =
  sp_ms :: "int option"
  sp_errorClass :: "int option"
  sp_retryable :: "bool option"

record bench_env =
  be_aborted :: bool
  be_interrupted :: bool
  be_now :: int
  be_rounds :: "(int \<times> bool \<times> bool) list"

definition parsePayload :: "(string \<Rightarrow> synthetic_payload option) \<Rightarrow> task_view \<Rightarrow> synthetic_payload" where
  "parsePayload parse task =
     (let none = \<lparr>sp_ms = None, sp_errorClass = None, sp_retryable = None\<rparr> in
      if tk_nodePayloadJson task = [] then none else nullish (parse (tk_nodePayloadJson task)) none)"

definition sleep :: "bool \<Rightarrow> bool \<Rightarrow> string + unit" where
  "sleep aborted interrupted = (if aborted \<or> interrupted then Inl ''aborted'' else Inr ())"

text \<open>\<open>None\<close> when the rounds given do not reach the end of the loop.\<close>

fun burn :: "int \<Rightarrow> (int \<times> bool \<times> bool) list \<Rightarrow> (string + unit) option" where
  "burn end [] = None"
| "burn end ((now, aborted, interrupted) # rounds) =
     (if \<not> now < end then Some (Inr ())
      else if aborted then Some (Inl ''aborted'')
      else case sleep aborted interrupted of Inl m \<Rightarrow> Some (Inl m) | Inr _ \<Rightarrow> burn end rounds)"

definition completed_with :: "jsval \<Rightarrow> executor_result" where
  "completed_with v =
     \<lparr>er_completed = True, er_output = stringify v, er_error = None, er_errorClass = None, er_retryable = None\<rparr>"

definition syntheticExecutor ::
    "(string \<Rightarrow> synthetic_payload option) \<Rightarrow> bench_env \<Rightarrow> task_view \<Rightarrow> (string + executor_result) option" where
  "syntheticExecutor parse be task =
     (let payload = parsePayload parse task; ms = max 0 (nullish (sp_ms payload) 5) in
      if tk_nodeType task = ''start'' then Some (Inr (completed_with (JObj [(''skipped'', JBool True)])))
      else if tk_nodeType task = ''bench:sleep'' then
        Some (map_sum (\<lambda>m. m) (\<lambda>_. completed_with (JObj [(''sleptMs'', JNum (int_text ms))]))
                (sleep (be_aborted be) (be_interrupted be)))
      else if tk_nodeType task = ''bench:burn'' then
        map_option (map_sum (\<lambda>m. m) (\<lambda>_. completed_with (JObj [(''burnedMs'', JNum (int_text ms))])))
          (burn (be_now be + ms) (be_rounds be))
      else if tk_nodeType task = ''bench:fail'' then
        let errorClass = nullish (sp_errorClass payload) ERROR_TRANSIENT in
        Some (Inr \<lparr>er_completed = False, er_output = None,
          er_error = Some (''synthetic failure (class='' @ int_text errorClass @ '')''),
          er_errorClass = Some errorClass,
          er_retryable = Some (nullish (sp_retryable payload) (errorClass = ERROR_TRANSIENT))\<rparr>)
      else if tk_nodeType task = ''bench:echo'' then
        Some (Inr (completed_with (JObj [(''echo'', JBool True), (''runId'', JStr (tk_runId task)),
          (''nodeId'', JStr (tk_nodeId task)), (''attempt'', JNum (int_text (tk_attemptNumber task)))])))
      else Some (Inr (permanentFailure (''unknown synthetic node type: '' @ tk_nodeType task))))"

section \<open>The composite executor\<close>

text \<open>The writes of \<open>main.ts\<close>; a store that cannot be reached stays as it is.\<close>

definition saveRunBrowserbaseSession :: "string \<Rightarrow> string \<Rightarrow> store \<Rightarrow> store" where
  "saveRunBrowserbaseSession runId sessionId store =
     map_sum (\<lambda>e. e) (\<lambda>d. d\<lparr>db_runs := map (\<lambda>r. if wr_id r = runId \<and> wr_browserbaseSessionId r = None
        then r\<lparr>wr_browserbaseSessionId := Some sessionId\<rparr> else r) (db_runs d)\<rparr>) store"

definition saveRunScreenshot :: "int \<Rightarrow> string \<Rightarrow> string \<Rightarrow> store \<Rightarrow> store \<Rightarrow> store" where
  "saveRunScreenshot now runId shot s1 s2 =
     (case s1 of
        Inl _ \<Rightarrow> s2
      | Inr d1 \<Rightarrow>
          (case select_one (\<lambda>r. wr_id r = runId) (db_runs d1) of
             None \<Rightarrow> s2
           | Some run \<Rightarrow> map_sum (\<lambda>e. e) (saveRunArtifact now runId (wr_orgId run) (Some shot)) s2))"

text \<open>
  \<open>synthetic\<close> and \<open>product\<close> are the two executors, \<open>peekStagehand\<close> the session of an affinity key,
  \<open>capture\<close> the screenshot of a session (which never throws) and \<open>save\<close> the write above.
\<close>

definition compositeExecutor ::
    "(task_view \<Rightarrow> ('s, executor_result) act) \<Rightarrow> (task_view \<Rightarrow> ('s, executor_result) act) \<Rightarrow>
     (string \<Rightarrow> 's \<Rightarrow> nat option) \<Rightarrow> (nat \<Rightarrow> 's \<Rightarrow> string option \<times> 's) \<Rightarrow> (string \<Rightarrow> string \<Rightarrow> 's \<Rightarrow> 's) \<Rightarrow>
     task_view \<Rightarrow> ('s, executor_result) act" where
  "compositeExecutor synthetic product peekStagehand capture save task =
     (if tk_nodeType task = ''start'' \<or> starts_with (tk_nodeType task) ''bench:'' then synthetic task
      else then_do (product task) (\<lambda>result s.
        if er_completed result \<or> truthy (er_error result) then
          (case peekStagehand (affinityKeyFor task) s of
             None \<Rightarrow> (Inr result, s)
           | Some sh \<Rightarrow>
               (case capture sh s of
                  (shot, s') \<Rightarrow> (Inr result, if truthy shot then save (tk_runId task) (nullish shot []) s' else s')))
        else (Inr result, s)))"

section \<open>What a placeholder looks at\<close>

text \<open>The first key of each placeholder of a text: \<open>None\<close> for a blank one, which is all outputs.\<close>

function placeholder_heads :: "string \<Rightarrow> string option list" where
  "placeholder_heads s =
     (case match_at s of
        Some (expr, rest) \<Rightarrow>
          (case path_keys (trim expr) of [] \<Rightarrow> None | k # _ \<Rightarrow> Some k) # placeholder_heads rest
      | None \<Rightarrow> (case s of [] \<Rightarrow> [] | c # cs \<Rightarrow> placeholder_heads cs))"
  by pat_completeness auto

termination
  by (relation "measure length") (auto dest: match_at_shorter)

declare placeholder_heads.simps [simp del]

lemma getByPath_cong:
  assumes "path_keys p = k # ks" and "map_of o1 k = map_of o2 k"
    and "\<And>ps qs. inherited (JObj ps) k = inherited (JObj qs) k"
  shows "getByPath inherited o1 p = getByPath inherited o2 p"
  using assms(3) [of o1 o2] assms(2)
  by (cases "map_of o2 k") (simp_all add: getByPath_def assms(1) object_prop_def)

lemma interpolate_cong:
  assumes "\<And>k ps qs. inherited (JObj ps) k = inherited (JObj qs) k"
    and "\<forall>h \<in> set (placeholder_heads s). \<exists>k. h = Some k \<and> map_of o1 k = map_of o2 k"
  shows "interpolate inherited o1 s = interpolate inherited o2 s"
  using assms(2)
proof (induction s rule: placeholder_heads.induct)
  case (1 s)
  show ?case
  proof (cases "match_at s")
    case None
    show ?thesis
    proof (cases s)
      case (Cons c cs)
      have "placeholder_heads s = placeholder_heads cs" using None Cons by (simp add: placeholder_heads.simps [of "c # cs"])
      then have "interpolate inherited o1 cs = interpolate inherited o2 cs" using 1(1) [OF None Cons] 1(3) by simp
      then show ?thesis using None Cons by (simp add: interpolate.simps [of _ _ "c # cs"])
    qed (simp add: interpolate.simps [of _ _ s] None)
  next
    case (Some m)
    obtain expr rest where m: "match_at s = Some (expr, rest)" using Some by (cases m) auto
    have heads: "placeholder_heads s =
        (case path_keys (trim expr) of [] \<Rightarrow> None | k # _ \<Rightarrow> Some k) # placeholder_heads rest"
      by (simp add: placeholder_heads.simps [of s] m)
    obtain k ks where k: "path_keys (trim expr) = k # ks" "map_of o1 k = map_of o2 k"
      using 1(3) heads by (cases "path_keys (trim expr)") auto
    have "interpolate inherited o1 rest = interpolate inherited o2 rest"
      using 1(2) [OF m refl] 1(3) heads by simp
    then show ?thesis
      using getByPath_cong [OF k(1,2), of inherited, OF assms(1)]
      by (simp add: interpolate.simps [of _ _ s] m replacement_def)
  qed
qed

end
