(* ===== verification/NodeRuns.thy ===== *)
theory NodeRuns
  imports Executors
begin

text \<open>
  What a worker's node run computes and does: which outputs a node sees, how that compares with a run of
  the legacy engine, and how often a side effect happens.
\<close>

section \<open>Outputs a node sees\<close>

text \<open>The output a node of a run has in the store, if it has one.\<close>

definition output_of_row :: "node_run_row \<Rightarrow> jsval option" where
  "output_of_row r = (case nr_output r of Some v \<Rightarrow> if is_nullish v then None else Some v | None \<Rightarrow> None)"

definition durable_output :: "db \<Rightarrow> string \<Rightarrow> string \<Rightarrow> jsval option" where
  "durable_output d runId k =
     (case select_one (\<lambda>n. nr_runId n = runId \<and> nr_nodeId n = k) (db_nodeRuns d) of
        None \<Rightarrow> None | Some r \<Rightarrow> output_of_row r)"

lemma collect_step:
  "(case nr_output r of Some v \<Rightarrow> if is_nullish v then outs else AList.update (nr_nodeId r) v outs | None \<Rightarrow> outs) =
     (case output_of_row r of Some v \<Rightarrow> AList.update (nr_nodeId r) v outs | None \<Rightarrow> outs)"
  by (simp add: output_of_row_def split: option.split)

lemma collect_fold:
  assumes "distinct (map nr_nodeId rows)"
  shows "map_of (fold (\<lambda>r outs. case output_of_row r of Some v \<Rightarrow> AList.update (nr_nodeId r) v outs | None \<Rightarrow> outs)
      rows outs) k =
    (case List.find (\<lambda>r. nr_nodeId r = k \<and> output_of_row r \<noteq> None) rows of
       Some r \<Rightarrow> output_of_row r | None \<Rightarrow> map_of outs k)"
  using assms
proof (induction rows arbitrary: outs)
  case (Cons r rows)
  show ?case
  proof (cases "nr_nodeId r = k")
    case True
    then have "List.find (\<lambda>r. nr_nodeId r = k \<and> output_of_row r \<noteq> None) rows = None"
      using Cons.prems by (fastforce simp: find_None_iff image_iff)
    then show ?thesis using Cons True by (cases "output_of_row r") (simp_all add: update_conv')
  next
    case False
    then show ?thesis using Cons by (cases "output_of_row r") (simp_all add: update_conv' split: option.split)
  qed
qed simp

lemma find_filter: "List.find p (filter q xs) = List.find (\<lambda>x. q x \<and> p x) xs"
  by (induction xs) auto

text \<open>With unique rows the loader's outputs are the durable outputs of the wanted nodes.\<close>

lemma collect_outputs_lookup:
  assumes "db_keys d"
  shows "map_of (collect_outputs (filter (\<lambda>n. nr_runId n = runId \<and> nr_nodeId n \<in> K) (db_nodeRuns d))) k =
    (if k \<in> K then durable_output d runId k else None)"
proof -
  let ?rows = "filter (\<lambda>n. nr_runId n = runId \<and> nr_nodeId n \<in> K) (db_nodeRuns d)"
  have inj: "x = y" if "x \<in> set (db_nodeRuns d)" "y \<in> set (db_nodeRuns d)" "nr_runId x = nr_runId y" "nr_nodeId x = nr_nodeId y" for x y
    using keys_of(8) [OF assms] that by (auto simp: distinct_map dest: inj_onD)
  have "distinct (db_nodeRuns d)" using keys_of(7) [OF assms] by (simp add: distinct_map)
  then have dist: "distinct (map nr_nodeId ?rows)" unfolding distinct_map by (auto intro!: inj_onI intro: inj)
  have eq: "map_of (collect_outputs ?rows) k =
      (case List.find (\<lambda>r. nr_nodeId r = k \<and> output_of_row r \<noteq> None) ?rows of Some r \<Rightarrow> output_of_row r | None \<Rightarrow> None)"
    unfolding collect_outputs_def collect_step using collect_fold [OF dist, of "[]" k] by (simp only: map_of.simps)
  show ?thesis
  proof (cases "List.find (\<lambda>r. nr_nodeId r = k \<and> output_of_row r \<noteq> None) ?rows")
    case (Some r)
    then have r: "r \<in> set (db_nodeRuns d)" "nr_runId r = runId" "nr_nodeId r = k" "k \<in> K"
      using find_SomeD [OF Some] by auto
    have "select_one (\<lambda>n. nr_runId n = runId \<and> nr_nodeId n = k) (db_nodeRuns d) = Some r"
      using select_one_key [OF keys_of(8) [OF assms] r(1)] r by simp
    then show ?thesis using eq Some r(4) by (simp add: durable_output_def)
  next
    case None
    have "durable_output d runId k = None" if "k \<in> K"
    proof (cases "select_one (\<lambda>n. nr_runId n = runId \<and> nr_nodeId n = k) (db_nodeRuns d)")
      case (Some r)
      then have r: "r \<in> set (db_nodeRuns d)" "nr_runId r = runId" "nr_nodeId r = k" using select_one_Some [OF Some] by auto
      then have "output_of_row r = None" using find_NoneD [OF None, of r] that by auto
      then show ?thesis using Some by (simp add: durable_output_def)
    qed (simp add: durable_output_def del: select_one_None)
    then show ?thesis using eq None by simp
  qed
qed

lemma loaded_outputs:
  assumes "db_keys d" and "run \<in> set (db_runs d)" and "v \<in> set (db_versions d)"
    and "wr_workflowVersionId run = Some (wv_id v)" and "wv_id v \<noteq> []"
  shows "\<exists>outs. loadPredecessorOutputs (wr_id run) nodeId (Inr d) (Inr d) (Inr d) = Inr outs \<and>
    (\<forall>k. map_of outs k = (if k \<in> set (predecessors_of (wv_graph v) nodeId) then durable_output d (wr_id run) k else None))"
proof -
  have run: "select_one (\<lambda>r. wr_id r = wr_id run) (db_runs d) = Some run"
    by (rule select_one_key [OF keys_of(6) [OF assms(1)] assms(2)])
  have ver: "select_one (\<lambda>x. Some (wv_id x) = Some (wv_id v)) (db_versions d) = Some v"
    using select_one_key [OF keys_of(4) [OF assms(1)] assms(3)] by simp
  show ?thesis
    using collect_outputs_lookup [OF assms(1), of "wr_id run" "set (predecessors_of (wv_graph v) nodeId)"] assms(4,5) run ver
    by (auto simp: loadPredecessorOutputs_def Let_def)
qed


section \<open>A token of a farther ancestor\<close>

text \<open>
  A chain: Start, then a page, then an action, then an email whose body is the token the editor offers
  for the page's title.
\<close>

definition chain_node :: "string \<Rightarrow> string \<Rightarrow> (string \<times> string) list \<Rightarrow> step_node" where
  "chain_node i ty vs = \<lparr>sn_id = i, sn_position = (0, 0),
     sn_data = \<lparr>sd_type = ty, sd_kind = (if ty = ''start'' then Trigger else Action), sd_title = ty, sd_values = vs\<rparr>\<rparr>"

definition chain_mail :: step_node where
  "chain_mail = chain_node ''m'' ''send-email'' [(''body'', output_token ''p'' ''title'')]"

definition chain_act :: step_node where
  "chain_act = chain_node ''a'' ''act'' [(''instruction'', output_token ''p'' ''title'')]"

definition chain_graph :: workflow_graph where
  "chain_graph = \<lparr>wg_nodes = [chain_node ''s'' ''start'' [], chain_node ''p'' ''open-url'' [(''url'', ''x'')], chain_act, chain_mail],
     wg_edges = [\<lparr>eg_id = ''1'', eg_source = ''s'', eg_target = ''p''\<rparr>, \<lparr>eg_id = ''2'', eg_source = ''p'', eg_target = ''a''\<rparr>,
                 \<lparr>eg_id = ''3'', eg_source = ''a'', eg_target = ''m''\<rparr>]\<rparr>"

definition page_output :: jsval where
  "page_output = JObj [(''url'', JStr ''u''), (''title'', JStr ''Home'')]"

definition act_output :: jsval where
  "act_output = JObj [(''success'', JBool True)]"

definition chain_row :: "string \<Rightarrow> string \<Rightarrow> jsval option \<Rightarrow> node_run_row" where
  "chain_row i n v = \<lparr>nr_id = i, nr_runId = ''r'', nr_nodeId = n, nr_nodeType = [], nr_status = ''succeeded'',
     nr_attemptCount = 1, nr_output = v, nr_failureReason = None, nr_retryWaitUntil = None, nr_retryReason = None,
     nr_startedAt = None, nr_finishedAt = None\<rparr>"

definition chain_version :: workflow_version_row where
  "chain_version = \<lparr>wv_id = ''v'', wv_workflowId = ''w'', wv_orgId = ''o'', wv_versionNumber = 1,
     wv_graph = chain_graph, wv_graphHash = None, wv_createdAt = 0\<rparr>"

definition chain_run :: workflow_run_row where
  "chain_run = new_run \<lparr>rr_runId = ''r'', rr_orgId = ''o'', rr_workflowId = ''w'', rr_workflowVersionId = Some ''v'',
     rr_engine = Evo\<rparr> 0"

definition chain_db :: db where
  "chain_db = empty_db\<lparr>db_versions := [chain_version], db_runs := [chain_run],
     db_nodeRuns := [chain_row ''1'' ''s'' None, chain_row ''2'' ''p'' (Some page_output), chain_row ''3'' ''a'' (Some act_output)]\<rparr>"

definition legacy_outputs :: "(string \<times> jsval) list" where
  "legacy_outputs = [(''p'', page_output), (''a'', act_output)]"

lemma chain_keys: "db_keys chain_db"
  by (simp add: chain_db_def db_keys_def empty_db_def chain_row_def)

lemma chain_facts:
  "chain_run \<in> set (db_runs chain_db)" "chain_version \<in> set (db_versions chain_db)"
  "wr_workflowVersionId chain_run = Some (wv_id chain_version)" "wv_id chain_version \<noteq> []" "wr_id chain_run = ''r''"
  by (simp_all add: chain_db_def empty_db_def chain_run_def new_run_def chain_version_def)

lemma chain_predecessors:
  "predecessors_of (wv_graph chain_version) ''m'' = [''a'']" "predecessors_of (wv_graph chain_version) ''a'' = [''p'']"
  by (simp_all add: predecessors_of_def chain_version_def chain_graph_def)

lemma chain_durable:
  "durable_output chain_db ''r'' ''p'' = Some page_output" "durable_output chain_db ''r'' ''a'' = Some act_output"
  by (simp_all add: durable_output_def chain_db_def empty_db_def chain_row_def output_of_row_def page_output_def act_output_def)

lemma token_match: "match_at (output_token ''p'' ''title'') = Some (''p.title'', [])"
  by code_simp

lemma token_heads: "placeholder_heads (output_token ''p'' ''title'') = [Some ''p'']"
proof -
  have "path_keys (trim ''p.title'') = [''p'', ''title'']" by code_simp
  moreover have "placeholder_heads [] = []" by code_simp
  ultimately show ?thesis
    by (simp add: placeholder_heads.simps [of "output_token ''p'' ''title''"] token_match)
qed


text \<open>
  The editor offers outputs of every ancestor, and the legacy run resolves them; a worker only loads the
  outputs of direct predecessors, so the same email goes out with an empty body.
\<close>

theorem far_token_lost:
  "(\<exists>conns. upstream_connections (\<lambda>n nodes es. filter (\<lambda>m. edge_into es m n) nodes) (wg_nodes chain_graph)
      (wg_edges chain_graph) (Some chain_mail) = Some (Some conns) \<and> output_token ''p'' ''title'' \<in> uc_token ` set conns) \<and>
   node_values (\<lambda>v k. JUndef) legacy_outputs chain_mail = [(''body'', ''Home'')] \<and>
   (\<exists>outs. loadPredecessorOutputs ''r'' ''m'' (Inr chain_db) (Inr chain_db) (Inr chain_db) = Inr outs \<and>
     node_values (\<lambda>v k. JUndef) outs chain_mail = [(''body'', [])])"
proof (intro conjI)
  show "\<exists>conns. upstream_connections (\<lambda>n nodes es. filter (\<lambda>m. edge_into es m n) nodes) (wg_nodes chain_graph)
      (wg_edges chain_graph) (Some chain_mail) = Some (Some conns) \<and> output_token ''p'' ''title'' \<in> uc_token ` set conns"
    by (simp add: upstream_connections_def upstream_nodes_def walk_up.simps chain_graph_def edge_into_def chain_mail_def
      chain_act_def chain_node_def js_lookup_def nodeRegistry_def node_connections_def)
  have "trim ''p.title'' = ''p.title''" by code_simp
  moreover have "interpolate inh outs [] = []" for inh outs by (simp add: interpolate.simps match_at_def starts_with_def)
  ultimately have resolved: "interpolate inh outs (output_token ''p'' ''title'') = value_text (getByPath inh outs ''p.title'')" for inh outs
    by (simp add: interpolate.simps [of _ _ "output_token ''p'' ''title''"] token_match replacement_def)
  show "node_values (\<lambda>v k. JUndef) legacy_outputs chain_mail = [(''body'', ''Home'')]"
    by (simp add: node_values_def chain_mail_def chain_node_def resolved getByPath_def path_keys_def legacy_outputs_def
      page_output_def object_prop_def value_text_def)
  obtain outs where outs: "loadPredecessorOutputs ''r'' ''m'' (Inr chain_db) (Inr chain_db) (Inr chain_db) = Inr outs"
    "map_of outs ''p'' = None"
    using loaded_outputs [OF chain_keys chain_facts(1-4), of "''m''"] chain_facts(5) chain_predecessors by auto
  then show "\<exists>outs. loadPredecessorOutputs ''r'' ''m'' (Inr chain_db) (Inr chain_db) (Inr chain_db) = Inr outs \<and>
     node_values (\<lambda>v k. JUndef) outs chain_mail = [(''body'', [])]"
    by (auto simp: node_values_def chain_mail_def chain_node_def resolved getByPath_def path_keys_def object_prop_def value_text_def)
qed

section \<open>Side effects happen once\<close>

text \<open>Worker tasks delivered one after the other, each with the options of the worker that runs it.\<close>

definition deliver ::
    "(jsval \<Rightarrow> string \<Rightarrow> jsval) \<Rightarrow> 's adapter_options \<times> task_view \<times> bool \<Rightarrow> 's \<Rightarrow> 's" where
  "deliver inherited = (\<lambda>(ao, task, aborted) s. snd (createNodeExecutorAdapter inherited ao task aborted s))"

text \<open>
  Options under which only the email executor touches the provider: it is \<open>exec\<close>, and loaders and other
  executors leave the state alone.
\<close>

definition mail_options :: "'s executor \<Rightarrow> 's adapter_options \<Rightarrow> bool" where
  "mail_options exec ao \<longleftrightarrow>
     executor_for ao ''send-email'' = Some exec \<and>
     (\<forall>ty f ctx s. executor_for ao ty = Some f \<longrightarrow> ty \<noteq> ''send-email'' \<longrightarrow> snd (f ctx s) = s) \<and>
     (\<forall>o' v s. snd (ao_loadVersion ao o' v s) = s) \<and> (\<forall>r n s. snd (ao_loadPredecessorOutputs ao r n s) = s)"

lemma executed_state [simp]: "snd (executed p) = snd p"
  by (simp add: executed_def split: prod.split)

lemma deliver_cases:
  assumes "mail_options exec ao"
  shows "deliver inherited (ao, task, aborted) s = s \<or>
    (\<exists>ctx. nc_idempotencyKey ctx = Some (idempotency_key task) \<and> deliver inherited (ao, task, aborted) s = snd (exec ctx s))"
proof -
  have load: "snd (ao_loadVersion ao o' v s) = s" "snd (ao_loadPredecessorOutputs ao r n s) = s" for o' v r n
    using assms by (simp_all add: mail_options_def)
  obtain vr where vr: "ao_loadVersion ao (tk_orgId task) (tk_workflowVersionId task) s = (vr, s)"
    using load(1) by (metis prod.collapse)
  obtain pr where pr: "ao_loadPredecessorOutputs ao (tk_runId task) (tk_nodeId task) s = (pr, s)"
    using load(2) by (metis prod.collapse)
  show ?thesis
  proof (cases "\<exists>i g node f outs. vr = Inr (Some (i, g)) \<and> List.find (\<lambda>n. sn_id n = tk_nodeId task) (wg_nodes g) = Some node \<and>
      executor_for ao (sd_type (sn_data node)) = Some f \<and> \<not> aborted \<and> pr = Inr outs")
    case True
    then obtain i g node f outs where c: "vr = Inr (Some (i, g))"
        "List.find (\<lambda>n. sn_id n = tk_nodeId task) (wg_nodes g) = Some node"
        "executor_for ao (sd_type (sn_data node)) = Some f" "\<not> aborted" "pr = Inr outs" by blast
    obtain ctx where ctx: "deliver inherited (ao, task, aborted) s = snd (f ctx s)"
        "nc_idempotencyKey ctx = Some (idempotency_key task)"
      by (rule that [of "\<lparr>nc_values = node_values inherited outs node,
          nc_getStagehand = (case ao_getStagehand ao of Some f \<Rightarrow> f task
            | None \<Rightarrow> throw (''node '' @ tk_nodeId task @ '' ('' @ sd_type (sn_data node) @
                '') requires a browser session, but none is available on this worker'')),
          nc_idempotencyKey = Some (idempotency_key task)\<rparr>"])
        (simp_all add: deliver_def createNodeExecutorAdapter_def then_do_def vr pr c)
    show ?thesis
    proof (cases "sd_type (sn_data node) = ''send-email''")
      case True
      then have "f = exec" using c(3) assms by (simp add: mail_options_def)
      then show ?thesis using ctx by blast
    next
      case False
      then show ?thesis using c(3) assms ctx(1) by (simp add: mail_options_def)
    qed
  next
    case False
    then have "deliver inherited (ao, task, aborted) s = s"
      by (auto simp: deliver_def createNodeExecutorAdapter_def then_do_def return_def vr pr split: sum.split option.split)
    then show ?thesis by blast
  qed
qed

text \<open>
  A provider with idempotency keys, as Resend documents it: \<open>effects\<close> lists the keys of the effects that
  really happened.  A call with a key that was used before has no effect, one with a new key has one.
\<close>

locale keyed_provider =
  fixes exec :: "'s executor"
    and effects :: "'s \<Rightarrow> string option list"
    and good :: "'s \<Rightarrow> bool"
  assumes keeps_good: "good s \<Longrightarrow> good (snd (exec ctx s))"
    and effect: "good s \<Longrightarrow> nc_idempotencyKey ctx = Some k \<Longrightarrow> k \<noteq> [] \<Longrightarrow>
      effects (snd (exec ctx s)) = effects s @ (if Some k \<in> set (effects s) then [] else [Some k])"
begin

lemma deliver_once:
  assumes "good s" and "mail_options exec ao" and "distinct (effects s)"
  shows "good (deliver inherited (ao, task, aborted) s)" and "distinct (effects (deliver inherited (ao, task, aborted) s))"
    and "set (effects (deliver inherited (ao, task, aborted) s)) \<subseteq> insert (Some (idempotency_key task)) (set (effects s))"
proof -
  have key: "idempotency_key task \<noteq> []" by (simp add: idempotency_key_def)
  show "good (deliver inherited (ao, task, aborted) s)" "distinct (effects (deliver inherited (ao, task, aborted) s))"
    "set (effects (deliver inherited (ao, task, aborted) s)) \<subseteq> insert (Some (idempotency_key task)) (set (effects s))"
    using deliver_cases [OF assms(2), of inherited task aborted s] keeps_good [OF assms(1)] effect [OF assms(1) _ key] assms
    by (auto split: if_splits)
qed

lemma deliveries_once:
  "good s \<Longrightarrow> distinct (effects s) \<Longrightarrow> \<forall>(ao, task, aborted) \<in> set ds. mail_options exec ao \<Longrightarrow>
   distinct (effects (fold (deliver inherited) ds s)) \<and>
   set (effects (fold (deliver inherited) ds s)) \<subseteq>
     set (effects s) \<union> (\<lambda>(ao, task, aborted). Some (idempotency_key task)) ` set ds"
proof (induction ds arbitrary: s)
  case (Cons x ds)
  obtain ao task aborted where x: "x = (ao, task, aborted)" by (cases x)
  have ao: "mail_options exec ao" using Cons.prems(3) x by simp
  note d = deliver_once [OF Cons.prems(1) ao Cons.prems(2), of inherited task aborted, folded x]
  show ?case using Cons.IH [OF d(1,2)] d(3) Cons.prems(3) x by auto
qed simp

end

text \<open>The sink is such a provider while its cache holds the keys of the mails it has recorded.\<close>

definition sink_good :: "email_sink \<Rightarrow> bool" where
  "sink_good sink \<longleftrightarrow> (\<forall>k. k \<noteq> [] \<longrightarrow>
     (map_of (es_cache sink) k \<noteq> None \<longleftrightarrow> Some k \<in> set (map re_idempotencyKey (es_sent sink))))"

lemma sink_step:
  assumes "sink_good sink"
  shows "sink_good (snd (sink_executor ctx sink))"
    and "nc_idempotencyKey ctx = Some k \<Longrightarrow> k \<noteq> [] \<Longrightarrow>
      map re_idempotencyKey (es_sent (snd (sink_executor ctx sink))) = map re_idempotencyKey (es_sent sink) @
        (if Some k \<in> set (map re_idempotencyKey (es_sent sink)) then [] else [Some k])"
proof -
  obtain key where key: "nc_idempotencyKey ctx = key" by simp
  have "sink_good (snd (sink_executor ctx sink)) \<and> (\<forall>k. key = Some k \<longrightarrow> k \<noteq> [] \<longrightarrow>
      map re_idempotencyKey (es_sent (snd (sink_executor ctx sink))) = map re_idempotencyKey (es_sent sink) @
        (if Some k \<in> set (map re_idempotencyKey (es_sent sink)) then [] else [Some k]))"
  proof (cases "truthy key")
    case True
    then obtain k where k: "key = Some k" "k \<noteq> []" by (cases key) auto
    have known: "map_of (es_cache sink) k \<noteq> None \<longleftrightarrow> Some k \<in> set (map re_idempotencyKey (es_sent sink))"
      using assms k(2) unfolding sink_good_def by blast
    show ?thesis
    proof (cases "map_of (es_cache sink) k")
      case None
      then show ?thesis using assms k key known
        by (auto simp: sink_executor_def sink_good_def Let_def update_conv')
    next
      case (Some i)
      then show ?thesis using assms k key known by (auto simp: sink_executor_def)
    qed
  next
    case False
    then show ?thesis using assms key
      by (cases key) (auto simp: sink_executor_def sink_good_def Let_def)
  qed
  then show "sink_good (snd (sink_executor ctx sink))"
    and "nc_idempotencyKey ctx = Some k \<Longrightarrow> k \<noteq> [] \<Longrightarrow>
      map re_idempotencyKey (es_sent (snd (sink_executor ctx sink))) = map re_idempotencyKey (es_sent sink) @
        (if Some k \<in> set (map re_idempotencyKey (es_sent sink)) then [] else [Some k])"
    using key by blast+
qed

interpretation sink: keyed_provider sink_executor "\<lambda>sink. map re_idempotencyKey (es_sent sink)" sink_good
  by unfold_locales (use sink_step in auto)

text \<open>The key names the run and the node, for run ids of the alphabet the actions accept.\<close>

lemma idempotency_key_inj:
  assumes "CHR '':'' \<notin> set (tk_runId t)" and "CHR '':'' \<notin> set (tk_runId t')"
  shows "idempotency_key t = idempotency_key t' \<longleftrightarrow> tk_runId t = tk_runId t' \<and> tk_nodeId t = tk_nodeId t'"
proof -
  have "takeWhile (\<lambda>c. c \<noteq> CHR '':'') (tk_runId t @ '':'' @ tk_nodeId t) = tk_runId t" if "CHR '':'' \<notin> set (tk_runId t)" for t
    using that by (subst takeWhile_append2) auto
  from this [OF assms(1)] this [OF assms(2)] show ?thesis
    by (auto simp: idempotency_key_def)
qed


definition demo_options :: "email_sink adapter_options" where
  "demo_options =
     \<lparr>ao_loadVersion = (\<lambda>o' v. return (Some (v, chain_graph))), ao_loadPredecessorOutputs = (\<lambda>r n. return legacy_outputs),
      ao_getStagehand = None, ao_executorOverrides = Some [(''send-email'', sink_executor)],
      ao_nodeExecutors = [], ao_proto = (\<lambda>k ctx. return JUndef)\<rparr>"

definition mail_task :: "int \<Rightarrow> task_view" where
  "mail_task n =
     \<lparr>tk_runId = ''r'', tk_workflowVersionId = ''v'', tk_orgId = ''o'', tk_nodeId = ''m'', tk_attemptNumber = n,
      tk_resourceClass = 0, tk_affinityKey = [], tk_traceId = [], tk_spanId = [], tk_nodeType = ''send-email'',
      tk_nodePayloadJson = []\<rparr>"

lemma demo_mail_options: "mail_options sink_executor demo_options"
  by (auto simp: mail_options_def demo_options_def return_def executor_for_def js_lookup_def object_proto_names_def
      split: if_splits)

lemma demo_loads:
  "ao_loadVersion demo_options o' v = return (Some (v, chain_graph))"
  "ao_loadPredecessorOutputs demo_options r n = return legacy_outputs"
  by (simp_all add: demo_options_def)

lemma mail_task_fields: "tk_nodeId (mail_task n) = ''m''"
  by (simp add: mail_task_def)

lemma chain_mail_node:
  "List.find (\<lambda>n. sn_id n = ''m'') (wg_nodes chain_graph) = Some chain_mail" "sd_type (sn_data chain_mail) = ''send-email''"
  by (simp_all add: chain_graph_def chain_mail_def chain_act_def chain_node_def)


end
