(* ===== verification/LegacyTask.thy ===== *)
theory LegacyTask
  imports NodeRuns
begin

text \<open>
  A run of the legacy engine, the Trigger.dev task of \<open>features/workflows/tasks/run-workflow.ts\<close>: it loads
  the saved graph, orders it, seeds the steps, opens the browser and waits for the live view when a
  browser step is connected, walks the steps, and cleans up on every way out.  The platform, the browser
  and the database are outside, as actions on an abstract state; the abort signal and the clock are read
  from that state, so that a Stop may land during any awaited call.
\<close>

section \<open>Ordering the nodes\<close>

text \<open>
  \<open>toposort.array\<close> of the \<open>toposort\<close> package: orders the given nodes along the edges; \<open>None\<close> is the error
  on a cycle or on an edge to an unknown node.
\<close>

type_synonym topo_array = "string list \<Rightarrow> (string \<times> string) list \<Rightarrow> string list option"

locale toposort_array_lib =
  fixes toposort :: topo_array
  assumes throws: "distinct ns \<Longrightarrow> toposort ns es = None \<longleftrightarrow> \<not> (acyclic (set es) \<and> Field (set es) \<subseteq> set ns)"
    and sorts: "distinct ns \<Longrightarrow> toposort ns es = Some xs \<Longrightarrow> distinct xs \<and> set xs = set ns"
    and in_order: "distinct ns \<Longrightarrow> toposort ns es = Some xs \<Longrightarrow> (a, b) \<in> set es \<Longrightarrow> before a b xs"
begin

lemma before_filter:
  assumes "distinct xs" and "before a b xs" and "P a" and "P b"
  shows "before a b (filter P xs)"
  using assms by (induction xs) (auto split: if_splits dest: before_set)

text \<open>Keeping only connected nodes keeps every edge's order.\<close>

lemma connected_order:
  assumes "distinct ns" and "toposort ns es = Some xs"
  shows "distinct (filter (\<lambda>n. n \<in> Field (set es)) xs)" "set (filter (\<lambda>n. n \<in> Field (set es)) xs) = Field (set es)"
    "(a, b) \<in> set es \<Longrightarrow> before a b (filter (\<lambda>n. n \<in> Field (set es)) xs)"
proof -
  note s = sorts [OF assms]
  have "Field (set es) \<subseteq> set ns" using throws [OF assms(1), of es] assms(2) by auto
  with s show "distinct (filter (\<lambda>n. n \<in> Field (set es)) xs)" "set (filter (\<lambda>n. n \<in> Field (set es)) xs) = Field (set es)"
    by auto
  show "before a b (filter (\<lambda>n. n \<in> Field (set es)) xs)" if "(a, b) \<in> set es"
    by (rule before_filter [OF _ in_order [OF assms that]]) (use s that in \<open>auto simp: Field_def\<close>)
qed

end

definition kahn_array :: topo_array where
  "kahn_array ns es = (if Field (set es) \<subseteq> set ns then kahn es ns else None)"

interpretation kahn_arr: toposort_array_lib kahn_array
proof
  fix ns :: "string list" and es xs and a b :: string
  assume ns: "distinct ns"
  {
    assume "kahn_array ns es = Some xs"
    then have k: "kahn es ns = Some xs" and f: "Field (set es) \<subseteq> set ns" by (auto simp: kahn_array_def split: if_splits)
    note s = kahn_sound [OF k ns]
    show "distinct xs \<and> set xs = set ns" using s by simp
    assume "(a, b) \<in> set es"
    moreover from this have "a \<in> set ns" "b \<in> set ns" using f by (auto simp: Field_def)
    ultimately show "before a b xs" using s by auto
  }
  note order = this
  show "kahn_array ns es = None \<longleftrightarrow> \<not> (acyclic (set es) \<and> Field (set es) \<subseteq> set ns)"
  proof
    assume "kahn_array ns es = None"
    then show "\<not> (acyclic (set es) \<and> Field (set es) \<subseteq> set ns)"
      using kahn_complete [of es ns] by (auto simp: kahn_array_def split: if_splits)
  next
    assume bad: "\<not> (acyclic (set es) \<and> Field (set es) \<subseteq> set ns)"
    show "kahn_array ns es = None"
    proof (cases "kahn_array ns es")
      case (Some ys)
      then have k: "kahn es ns = Some ys" and f: "Field (set es) \<subseteq> set ns" by (auto simp: kahn_array_def split: if_splits)
      have "before a b ys" if "(a, b) \<in> set es" for a b
      proof -
        have "a \<in> set ns" "b \<in> set ns" using f that by (auto simp: Field_def)
        then show ?thesis using kahn_sound [OF k ns] that by auto
      qed
      with before_acyclic [of ys "set es"] kahn_sound [OF k ns] f bad show ?thesis by auto
    qed
  qed
qed

section \<open>State and environment\<close>

text \<open>The browser of the run, with the metadata key it publishes, and the outside.\<close>

record 's tab =
  tb_opened :: bool
  tb_closed :: bool
  tb_session :: "string option"
  tb_metaSession :: "string option"
  tb_world :: 's

text \<open>\<open>rw_published\<close> are the lists of steps written to the run's metadata, the last one is current.\<close>

record 's task_run =
  rw_steps :: "run_step list"
  rw_published :: "run_step list list"
  rw_outputs :: "(string \<times> jsval) list"
  rw_metaDuration :: "int option"
  rw_metaFinalUrl :: "string option"
  rw_tab :: "'s tab"

record 's task_env =
  te_toposort :: topo_array
  te_inherited :: "jsval \<Rightarrow> string \<Rightarrow> jsval"
  te_proto :: "string \<Rightarrow> string + jsval"
  te_stagehand :: "'s stagehand"
  te_resend :: "'s resend"
  te_open :: "('s, string option) act"
  te_close :: "'s \<Rightarrow> 's"
  te_shot :: "'s \<Rightarrow> string option \<times> 's"
  te_url :: "'s \<Rightarrow> string option"
  te_connected :: "string \<Rightarrow> ('s, bool) act"
  te_saveArtifact :: "string option \<Rightarrow> 's \<Rightarrow> 's"
  te_clear :: "string \<Rightarrow> 's \<Rightarrow> 's"
  te_flush :: "'s \<Rightarrow> 's"
  te_sleep :: "'s \<Rightarrow> 's"
  te_aborted :: "'s \<Rightarrow> bool"
  te_now :: "'s \<Rightarrow> int"

definition LIVE_VIEW_WAIT_MS :: int where "LIVE_VIEW_WAIT_MS = 60000"

definition BROWSER_NODE_TYPES :: "string list" where
  "BROWSER_NODE_TYPES = [''open-url'', ''act'', ''extract'', ''observe'', ''agent'']"

definition set_world :: "'s \<Rightarrow> 's task_run \<Rightarrow> 's task_run" where
  "set_world w rw = rw\<lparr>rw_tab := (rw_tab rw)\<lparr>tb_world := w\<rparr>\<rparr>"

definition world :: "'s task_run \<Rightarrow> 's" where
  "world rw = tb_world (rw_tab rw)"

text \<open>A call to the outside leaves the run's own record of the browser alone.\<close>

definition outside :: "('s, 'a) act \<Rightarrow> ('s tab, 'a) act" where
  "outside f tab = (case f (tb_world tab) of (r, w) \<Rightarrow> (r, tab\<lparr>tb_world := w\<rparr>))"

definition tab_stagehand :: "'s stagehand \<Rightarrow> 's tab stagehand" where
  "tab_stagehand sh =
     \<lparr>sh_act = \<lambda>i. outside (sh_act sh i), sh_extract = \<lambda>i. outside (sh_extract sh i),
      sh_observe = \<lambda>i. outside (sh_observe sh i), sh_agent = \<lambda>i. outside (sh_agent sh i),
      sh_goto = \<lambda>u. outside (sh_goto sh u), sh_url = outside (sh_url sh), sh_title = outside (sh_title sh)\<rparr>"

section \<open>The parts of the task\<close>

definition publishSteps :: "'s task_run \<Rightarrow> 's task_run" where
  "publishSteps rw = rw\<lparr>rw_published := rw_published rw @ [rw_steps rw]\<rparr>"

definition flush :: "'s task_env \<Rightarrow> 's task_run \<Rightarrow> 's task_run" where
  "flush te rw = set_world (te_flush te (world rw)) rw"

definition set_step :: "nat \<Rightarrow> (run_step \<Rightarrow> run_step) \<Rightarrow> 's task_run \<Rightarrow> 's task_run" where
  "set_step i f rw = rw\<lparr>rw_steps := (rw_steps rw)[i := f (rw_steps rw ! i)]\<rparr>"

definition unfinished :: "run_step \<Rightarrow> bool" where
  "unfinished s \<longleftrightarrow> st_status s = SPending \<or> st_status s = SRunning"

definition throwIfCanceled :: "'s task_env \<Rightarrow> 's task_run \<Rightarrow> (string + unit) \<times> 's task_run" where
  "throwIfCanceled te rw =
     (if \<not> te_aborted te (world rw) then (Inr (), rw)
      else
        let marked = count_if unfinished (rw_steps rw);
            rw = rw\<lparr>rw_steps := map (\<lambda>s. if unfinished s then s\<lparr>st_status := SCanceled\<rparr> else s) (rw_steps rw)\<rparr>
        in (Inl ''Workflow run was cancelled'', if marked > 0 then flush te (publishSteps rw) else rw))"

definition closeStagehand :: "'s task_env \<Rightarrow> 's task_run \<Rightarrow> 's task_run" where
  "closeStagehand te rw =
     (if tb_opened (rw_tab rw) \<and> \<not> tb_closed (rw_tab rw)
      then set_world (te_close te (world rw)) (rw\<lparr>rw_tab := (rw_tab rw)\<lparr>tb_closed := True\<rparr>\<rparr>) else rw)"

definition captureFinalScreenshot :: "'s task_env \<Rightarrow> 's task_run \<Rightarrow> string option \<times> 's task_run" where
  "captureFinalScreenshot te rw =
     (if \<not> tb_opened (rw_tab rw) \<or> tb_closed (rw_tab rw) then (None, rw)
      else case te_shot te (world rw) of (shot, w) \<Rightarrow> (shot, set_world w rw))"

definition getStagehand :: "'s task_env \<Rightarrow> ('s tab, 's tab stagehand) act" where
  "getStagehand te tab =
     (if tb_opened tab then (Inr (tab_stagehand (te_stagehand te)), tab)
      else case te_open te (tb_world tab) of
        (Inl m, w) \<Rightarrow> (Inl m, tab\<lparr>tb_opened := True, tb_world := w\<rparr>)
      | (Inr sessionId, w) \<Rightarrow>
          (Inr (tab_stagehand (te_stagehand te)),
           tab\<lparr>tb_opened := True, tb_session := sessionId,
               tb_metaSession := if truthy sessionId then sessionId else tb_metaSession tab,
               tb_world := if truthy sessionId then te_flush te w else w\<rparr>))"

text \<open>The wait for the live view; \<open>None\<close> when the fuel does not reach its end.\<close>

fun wait_polls ::
    "'s task_env \<Rightarrow> string \<Rightarrow> int \<Rightarrow> nat \<Rightarrow> 's task_run \<Rightarrow> ((string + unit) \<times> 's task_run) option" where
  "wait_polls te sessionId deadline 0 rw = None"
| "wait_polls te sessionId deadline (Suc fuel) rw =
     (if \<not> te_now te (world rw) < deadline then Some (Inr (), rw)
      else case throwIfCanceled te rw of
        (Inl m, rw') \<Rightarrow> Some (Inl m, rw')
      | (Inr _, rw') \<Rightarrow>
          (case te_connected te sessionId (world rw') of
             (Inr True, w) \<Rightarrow> Some (Inr (), set_world w rw')
           | (Inr False, w) \<Rightarrow> wait_polls te sessionId deadline fuel (set_world (te_sleep te w) rw')
           | (Inl m, w) \<Rightarrow>
               if te_aborted te w then Some (Inl m, set_world w rw')
               else wait_polls te sessionId deadline fuel (set_world (te_sleep te w) rw')))"

definition waitForLiveView :: "'s task_env \<Rightarrow> nat \<Rightarrow> 's task_run \<Rightarrow> ((string + unit) \<times> 's task_run) option" where
  "waitForLiveView te fuel rw =
     (if \<not> truthy (tb_session (rw_tab rw)) then Some (Inr (), rw)
      else wait_polls te (nullish (tb_session (rw_tab rw)) []) (te_now te (world rw) + LIVE_VIEW_WAIT_MS) fuel rw)"

definition tab_executors :: "'s task_env \<Rightarrow> (string \<times> 's tab executor) list" where
  "tab_executors te = nodeExecutors (\<lambda>m k. outside (te_resend te m k))"

definition task_executor :: "'s task_env \<Rightarrow> string \<Rightarrow> 's tab executor option" where
  "task_executor te ty =
     found (\<lambda>k ctx tab. (te_proto te k, tab)) ty (js_lookup (tab_executors te) ty)"

text \<open>One pass of the loop and the loop; \<open>i\<close> is the index of the step.\<close>

definition run_node ::
    "'s task_env \<Rightarrow> int \<Rightarrow> nat \<Rightarrow> step_node \<Rightarrow> 's task_run \<Rightarrow> (string + unit) \<times> 's task_run" where
  "run_node te workflowStartedAt i node rw0 =
     (case throwIfCanceled te rw0 of
        (Inl m, rw) \<Rightarrow> (Inl m, rw)
      | (Inr _, rw) \<Rightarrow>
     (case task_executor te (sd_type (sn_data node)) of
        None \<Rightarrow> (Inr (), publishSteps (set_step i (\<lambda>s. s\<lparr>st_status := SDone\<rparr>) rw))
      | Some executor \<Rightarrow>
          let rw = flush te (publishSteps (set_step i (\<lambda>s. s\<lparr>st_status := SRunning\<rparr>) rw));
              values = node_values (te_inherited te) (rw_outputs rw) node;
              startedAt = te_now te (world rw)
          in (case executor \<lparr>nc_values = values, nc_getStagehand = getStagehand te, nc_idempotencyKey = None\<rparr> (rw_tab rw) of
               (Inl m, tab) \<Rightarrow>
                 let rw = rw\<lparr>rw_tab := tab\<rparr>;
                     rw = set_step i (\<lambda>s. s\<lparr>st_status := SFailed, st_durationMs := Some (te_now te (world rw) - startedAt),
                                            st_error := Some m\<rparr>) rw;
                     rw = (publishSteps rw)\<lparr>rw_metaDuration := Some (te_now te (world rw) - workflowStartedAt)\<rparr>
                 in (Inl m, flush te rw)
             | (Inr output, tab) \<Rightarrow>
                 let rw = rw\<lparr>rw_tab := tab, rw_outputs := AList.update (sn_id node) output (rw_outputs rw)\<rparr>;
                     rw = set_step i (\<lambda>s. s\<lparr>st_output := (if output = JUndef then None else Some output), st_status := SDone,
                                            st_durationMs := Some (te_now te (world rw) - startedAt)\<rparr>) rw
                 in (Inr (), publishSteps rw))))"

fun run_nodes ::
    "'s task_env \<Rightarrow> int \<Rightarrow> nat \<Rightarrow> step_node list \<Rightarrow> 's task_run \<Rightarrow> (string + unit) \<times> 's task_run" where
  "run_nodes te t0 i [] rw = (Inr (), rw)"
| "run_nodes te t0 i (node # nodes) rw =
     (case run_node te t0 i node rw of
        (Inl m, rw') \<Rightarrow> (Inl m, rw')
      | (Inr _, rw') \<Rightarrow> run_nodes te t0 (Suc i) nodes rw')"

text \<open>The \<open>finally\<close> block.\<close>

definition cleanup :: "'s task_env \<Rightarrow> 's task_run \<Rightarrow> 's task_run" where
  "cleanup te rw0 =
     (case captureFinalScreenshot te rw0 of
        (shot, rw) \<Rightarrow>
          let rw = set_world (te_saveArtifact te shot (world rw)) rw;
              rw = closeStagehand te rw
          in if truthy (tb_session (rw_tab rw))
             then set_world (te_clear te (nullish (tb_session (rw_tab rw)) []) (world rw)) rw else rw)"

text \<open>The result, published as the run's output: the payload \<open>RunView\<close> reads.\<close>

definition finish_run :: "'s task_env \<Rightarrow> int \<Rightarrow> 's task_run \<Rightarrow> legacy_payload \<times> 's task_run" where
  "finish_run te t0 rw =
     (let finalUrl = (if tb_opened (rw_tab rw) then te_url te (world rw) else None);
          durationMs = te_now te (world rw) - t0;
          rw = rw\<lparr>rw_metaFinalUrl := (if truthy finalUrl then finalUrl else rw_metaFinalUrl rw),
                  rw_metaDuration := Some durationMs\<rparr>;
          rw = flush te rw
      in (\<lparr>lp_steps = Some (rw_steps rw), lp_session = tb_session (rw_tab rw), lp_finalUrl = finalUrl,
           lp_durationMs = Some durationMs\<rparr>, rw))"

definition seed_step :: "step_node \<Rightarrow> run_step" where
  "seed_step node =
     \<lparr>st_nodeId = sn_id node, st_type = sd_type (sn_data node), st_title = sd_title (sn_data node),
      st_status = SPending, st_durationMs = None, st_output = None, st_error = None\<rparr>"

definition start_run :: "'s \<Rightarrow> 's task_run" where
  "start_run w =
     \<lparr>rw_steps = [], rw_published = [], rw_outputs = [], rw_metaDuration = None, rw_metaFinalUrl = None,
      rw_tab = \<lparr>tb_opened = False, tb_closed = False, tb_session = None, tb_metaSession = None, tb_world = w\<rparr>\<rparr>"

text \<open>The nodes to run, in order; \<open>byId\<close> keeps the last node of an id.\<close>

definition run_order :: "topo_array \<Rightarrow> workflow_graph \<Rightarrow> step_node list option" where
  "run_order toposort g =
     (case toposort (map sn_id (wg_nodes g)) (edge_pairs (wg_edges g)) of
        None \<Rightarrow> None
      | Some ids \<Rightarrow>
          those (map (\<lambda>i. List.find (\<lambda>n. sn_id n = i) (rev (wg_nodes g)))
            (filter (\<lambda>i. i \<in> set (concat (map (\<lambda>e. [eg_source e, eg_target e]) (wg_edges g)))) ids)))"

text \<open>Opening the browser up front; a failure closes the session it may have opened.\<close>

definition open_browser ::
    "'s task_env \<Rightarrow> nat \<Rightarrow> step_node list \<Rightarrow> 's task_run \<Rightarrow> ((string + unit) \<times> 's task_run) option" where
  "open_browser te fuel order rw =
     (if \<not> list_ex (\<lambda>n. sd_type (sn_data n) \<in> set BROWSER_NODE_TYPES) order then Some (Inr (), rw)
      else case getStagehand te (rw_tab rw) of
        (Inl m, tab) \<Rightarrow> Some (Inl m, closeStagehand te (rw\<lparr>rw_tab := tab\<rparr>))
      | (Inr _, tab) \<Rightarrow>
          (case waitForLiveView te fuel (rw\<lparr>rw_tab := tab\<rparr>) of
             None \<Rightarrow> None
           | Some (Inl m, rw') \<Rightarrow> Some (Inl m, closeStagehand te rw')
           | Some (Inr _, rw') \<Rightarrow> Some (Inr (), rw')))"

definition run_graph ::
    "'s task_env \<Rightarrow> nat \<Rightarrow> step_node list \<Rightarrow> 's \<Rightarrow> ((string + legacy_payload) \<times> 's task_run) option" where
  "run_graph te fuel order w =
     (let t0 = te_now te w;
          rw = publishSteps ((start_run w)\<lparr>rw_steps := map seed_step order\<rparr>)
      in case open_browser te fuel order rw of
           None \<Rightarrow> None
         | Some (Inl m, rw) \<Rightarrow> Some (Inl m, rw)
         | Some (Inr _, rw) \<Rightarrow>
             Some (case run_nodes te t0 0 order rw of
                     (Inl m, rw) \<Rightarrow> (Inl m, cleanup te rw)
                   | (Inr _, rw) \<Rightarrow> (case finish_run te t0 rw of (result, rw) \<Rightarrow> (Inr result, cleanup te rw))))"

text \<open>\<open>store\<close> is what the query for the workflow finds, \<open>w\<close> the outside after it.\<close>

definition runWorkflowTask ::
    "'s task_env \<Rightarrow> nat \<Rightarrow> string \<Rightarrow> string \<Rightarrow> store \<Rightarrow> 's \<Rightarrow> ((string + legacy_payload) \<times> 's task_run) option" where
  "runWorkflowTask te fuel workflowId orgId store w =
     (case store of
        Inl _ \<Rightarrow> Some (Inl ''store'', start_run w)
      | Inr d \<Rightarrow>
          (case getWorkflow orgId workflowId d of
             None \<Rightarrow> Some (Inl (''Workflow '' @ workflowId @ '' has no graph''), start_run w)
           | Some workflow \<Rightarrow>
               (case wf_graph workflow of
                  None \<Rightarrow> Some (Inl (''Workflow '' @ workflowId @ '' has no graph''), start_run w)
                | Some g \<Rightarrow>
                    (case run_order (te_toposort te) g of
                       None \<Rightarrow> Some (Inl ''toposort'', start_run w)
                     | Some order \<Rightarrow> run_graph te fuel order w))))"

section \<open>How a run leaves its steps\<close>

lemma set_world_simps [simp]:
  "rw_steps (set_world w rw) = rw_steps rw" "rw_published (set_world w rw) = rw_published rw"
  "rw_outputs (set_world w rw) = rw_outputs rw" "world (set_world w rw) = w"
  "tb_opened (rw_tab (set_world w rw)) = tb_opened (rw_tab rw)" "tb_closed (rw_tab (set_world w rw)) = tb_closed (rw_tab rw)"
  "tb_session (rw_tab (set_world w rw)) = tb_session (rw_tab rw)"
  by (simp_all add: set_world_def world_def)

lemma flush_simps [simp]:
  "rw_steps (flush te rw) = rw_steps rw" "rw_published (flush te rw) = rw_published rw"
  "rw_outputs (flush te rw) = rw_outputs rw" "rw_tab (flush te rw) = (rw_tab rw)\<lparr>tb_world := te_flush te (world rw)\<rparr>"
  by (simp_all add: flush_def set_world_def)

lemma publish_simps [simp]:
  "rw_steps (publishSteps rw) = rw_steps rw" "rw_published (publishSteps rw) = rw_published rw @ [rw_steps rw]"
  "rw_outputs (publishSteps rw) = rw_outputs rw" "rw_tab (publishSteps rw) = rw_tab rw"
  by (simp_all add: publishSteps_def)

lemma set_step_simps [simp]:
  "rw_steps (set_step i f rw) = (rw_steps rw)[i := f (rw_steps rw ! i)]" "rw_published (set_step i f rw) = rw_published rw"
  "rw_outputs (set_step i f rw) = rw_outputs rw" "rw_tab (set_step i f rw) = rw_tab rw"
  by (simp_all add: set_step_def)

definition all_status :: "step_status \<Rightarrow> run_step list \<Rightarrow> bool" where
  "all_status st ss \<longleftrightarrow> (\<forall>s \<in> set ss. st_status s = st)"

lemma all_status_simps [simp]:
  "all_status st []" "all_status st (s # ss) \<longleftrightarrow> st_status s = st \<and> all_status st ss"
  "all_status st (ss @ ts) \<longleftrightarrow> all_status st ss \<and> all_status st ts"
  by (auto simp: all_status_def)

text \<open>The steps are as they were last published, and are the steps of the same nodes.\<close>

definition shown :: "'s task_run \<Rightarrow> bool" where
  "shown rw \<longleftrightarrow> rw_published rw \<noteq> [] \<and> last (rw_published rw) = rw_steps rw"

abbreviation step_ids :: "'s task_run \<Rightarrow> string list" where
  "step_ids rw \<equiv> map st_nodeId (rw_steps rw)"

text \<open>
  How a loop that started with \<open>done\<close> finished steps ends: all done; or stopped at a step that failed with
  the error, with the rest still pending; or stopped by a cancellation that marked the rest.
\<close>

definition stopped :: "run_step list \<Rightarrow> string \<Rightarrow> bool" where
  "stopped steps m \<longleftrightarrow>
     (\<exists>xs y ys. steps = xs @ y # ys \<and> all_status SDone xs \<and>
       (all_status SCanceled (y # ys) \<or> st_status y = SFailed \<and> st_error y = Some m \<and> all_status SPending ys))"

fun ended :: "string + 'r \<Rightarrow> run_step list \<Rightarrow> bool" where
  "ended (Inr _) steps = all_status SDone steps"
| "ended (Inl m) steps = stopped steps m"

lemma cancel_marks:
  "all_status SDone xs \<Longrightarrow> map (\<lambda>s. if unfinished s then s\<lparr>st_status := SCanceled\<rparr> else s) xs = xs"
  by (induction xs) (auto simp: unfinished_def)

lemma cancel_pending:
  assumes "all_status SPending ys"
  shows "all_status SCanceled (map (\<lambda>s. if unfinished s then s\<lparr>st_status := SCanceled\<rparr> else s) ys)"
    and "count_if unfinished ys = length ys"
  using assms by (induction ys) (auto simp: unfinished_def)

lemma throwIfCanceled_cases:
  assumes "throwIfCanceled te rw = (r, rw')" and "shown rw"
    and "rw_steps rw = xs @ ys" and "all_status SDone xs" and "all_status SPending ys"
  shows "r = Inr () \<and> rw' = rw \<or>
    r = Inl ''Workflow run was cancelled'' \<and> te_aborted te (world rw) \<and> shown rw' \<and> step_ids rw' = step_ids rw \<and>
    (\<exists>zs. rw_steps rw' = xs @ zs \<and> all_status SCanceled zs \<and> length zs = length ys)"
proof (cases "te_aborted te (world rw)")
  case False
  then show ?thesis using assms by (simp add: throwIfCanceled_def)
next
  case True
  let ?c = "\<lambda>s. if unfinished s then s\<lparr>st_status := SCanceled\<rparr> else s"
  have steps: "rw_steps rw' = xs @ map ?c ys" "r = Inl ''Workflow run was cancelled''"
    using assms(1) True cancel_marks [OF assms(4)] by (auto simp: throwIfCanceled_def Let_def assms(3) split: if_splits)
  have none: "count_if unfinished xs = 0" using assms(4) by (induction xs) (auto simp: unfinished_def)
  have "shown rw'"
  proof (cases ys)
    case Nil
    then have "map ?c (rw_steps rw) = rw_steps rw" using cancel_marks [OF assms(4)] assms(3) by simp
    then show ?thesis using assms(1,2) True none Nil assms(3) by (simp add: throwIfCanceled_def Let_def shown_def) auto
  next
    case (Cons y zs)
    then have "0 < count_if unfinished (rw_steps rw)" using cancel_pending(2) [OF assms(5)] assms(3) by simp
    then show ?thesis using assms(1) True by (auto simp: throwIfCanceled_def Let_def shown_def)
  qed
  moreover have "step_ids rw' = step_ids rw" unfolding steps(1) assms(3) by (induction ys) auto
  ultimately show ?thesis using steps True cancel_pending(1) [OF assms(5)] by auto
qed

lemma run_node_cases:
  assumes run: "run_node te t0 (length xs) node rw = (r, rw')" and "shown rw"
    and steps: "rw_steps rw = xs @ y # ys" and "all_status SDone xs" and "all_status SPending (y # ys)"
  shows "shown rw' \<and> step_ids rw' = step_ids rw \<and>
    (case r of Inr _ \<Rightarrow> (\<exists>y'. rw_steps rw' = xs @ y' # ys \<and> st_status y' = SDone)
     | Inl m \<Rightarrow> (\<exists>zs. rw_steps rw' = xs @ zs \<and> all_status SCanceled zs \<and> length zs = Suc (length ys)) \<or>
         (\<exists>y'. rw_steps rw' = xs @ y' # ys \<and> st_status y' = SFailed \<and> st_error y' = Some m))"
proof -
  obtain q rw1 where c: "throwIfCanceled te rw = (q, rw1)" by (cases "throwIfCanceled te rw")
  show ?thesis
  proof (cases q)
    case (Inl m)
    then have "r = Inl m" "rw' = rw1" using run c by (simp_all add: run_node_def)
    then show ?thesis using throwIfCanceled_cases [OF c assms(2) steps assms(4,5)] Inl by auto
  next
    case (Inr u)
    then have rw1: "rw1 = rw" using throwIfCanceled_cases [OF c assms(2) steps assms(4,5)] by auto
    show ?thesis
    proof (cases "task_executor te (sd_type (sn_data node))")
      case None
      then have "r = Inr ()" "rw' = publishSteps (set_step (length xs) (\<lambda>s. s\<lparr>st_status := SDone\<rparr>) rw)"
        using run c Inr rw1 by (simp_all add: run_node_def)
      then show ?thesis using steps by (simp add: shown_def)
    next
      case (Some executor)
      let ?s = "set_step (length xs) (\<lambda>s. s\<lparr>st_status := SRunning\<rparr>) rw"
      let ?f = "flush te (publishSteps ?s)"
      let ?ctx = "\<lparr>nc_values = node_values (te_inherited te) (rw_outputs ?f) node,
        nc_getStagehand = getStagehand te, nc_idempotencyKey = None\<rparr>"
      obtain q' tab where e: "executor ?ctx (rw_tab ?f) = (q', tab)" by (cases "executor ?ctx (rw_tab ?f)")
      show ?thesis
        using run c Inr rw1 Some e steps
        by (cases q') (auto simp: run_node_def Let_def shown_def list_update_append)
    qed
  qed
qed

lemma run_nodes_ended:
  "run_nodes te t0 (length xs) nodes rw = (r, rw') \<Longrightarrow> shown rw \<Longrightarrow> rw_steps rw = xs @ ys \<Longrightarrow>
   all_status SDone xs \<Longrightarrow> all_status SPending ys \<Longrightarrow> length ys = length nodes \<Longrightarrow>
   shown rw' \<and> step_ids rw' = step_ids rw \<and> ended r (rw_steps rw')"
proof (induction nodes arbitrary: xs ys rw)
  case Nil
  then show ?case by (cases r) auto
next
  case (Cons node nodes)
  obtain y ys' where ys: "ys = y # ys'" using Cons.prems(6) by (cases ys) auto
  obtain q rw1 where n: "run_node te t0 (length xs) node rw = (q, rw1)" by (cases "run_node te t0 (length xs) node rw")
  note c = run_node_cases [OF n Cons.prems(2) Cons.prems(3) [unfolded ys] Cons.prems(4) Cons.prems(5) [unfolded ys]]
  show ?case
  proof (cases q)
    case (Inr u)
    then obtain y' where y': "rw_steps rw1 = (xs @ [y']) @ ys'" "st_status y' = SDone" using c by auto
    have "run_nodes te t0 (length (xs @ [y'])) nodes rw1 = (r, rw')" using Cons.prems(1) n Inr by simp
    from Cons.IH [OF this _ y'(1)] show ?thesis using c y'(2) Cons.prems(4-6) ys by simp
  next
    case (Inl m)
    then have r: "r = Inl m" "rw' = rw1" using Cons.prems(1) n by simp_all
    consider zs where "rw_steps rw1 = xs @ zs" "all_status SCanceled zs" "length zs = Suc (length ys')"
      | y' where "rw_steps rw1 = xs @ y' # ys'" "st_status y' = SFailed" "st_error y' = Some m"
      using c Inl by auto
    then have "stopped (rw_steps rw1) m"
    proof cases
      case 1
      then obtain z zs' where "zs = z # zs'" by (cases zs) auto
      then show ?thesis using 1 Cons.prems(4) unfolding stopped_def by blast
    next
      case 2
      moreover have "all_status SPending ys'" using Cons.prems(5) ys by simp
      ultimately show ?thesis using Cons.prems(4) unfolding stopped_def by blast
    qed
    then show ?thesis using c r by simp
  qed
qed

text \<open>Waiting and opening change no step, unless a Stop cancels them all.\<close>

definition untouched :: "'s task_run \<Rightarrow> 's task_run \<Rightarrow> bool" where
  "untouched rw rw' \<longleftrightarrow> rw_steps rw' = rw_steps rw \<and> rw_published rw' = rw_published rw"

lemma untouched_refl [simp]: "untouched rw rw"
  by (simp add: untouched_def)

lemma wait_polls_cases:
  "wait_polls te sid deadline fuel rw = Some (r, rw') \<Longrightarrow> shown rw \<Longrightarrow> all_status SPending (rw_steps rw) \<Longrightarrow>
   untouched rw rw' \<or>
   (\<exists>m. r = Inl m) \<and> shown rw' \<and> step_ids rw' = step_ids rw \<and> all_status SCanceled (rw_steps rw')"
proof (induction fuel arbitrary: rw)
  case (Suc fuel)
  show ?case
  proof (cases "te_now te (world rw) < deadline")
    case False
    then show ?thesis using Suc.prems by simp
  next
    case True
    obtain q rw1 where c: "throwIfCanceled te rw = (q, rw1)" by (cases "throwIfCanceled te rw")
    note t = throwIfCanceled_cases [OF c Suc.prems(2), of "[]", simplified]
    show ?thesis
    proof (cases q)
      case (Inl m)
      then show ?thesis using t Suc.prems True c by auto
    next
      case (Inr u)
      then have rw1: "rw1 = rw" using t Suc.prems(3) by auto
      obtain p w where p: "te_connected te sid (world rw) = (p, w)" by (cases "te_connected te sid (world rw)")
      have again: ?thesis if "wait_polls te sid deadline fuel (set_world (te_sleep te w) rw) = Some (r, rw')"
        using Suc.IH [OF that] Suc.prems(2,3) by (simp add: shown_def untouched_def)
      show ?thesis
      proof (cases p)
        case (Inl m)
        then show ?thesis using Suc.prems(1) True c Inr rw1 p again
          by (cases "te_aborted te w") (auto simp: untouched_def)
      next
        case p': (Inr b)
        then show ?thesis using Suc.prems(1) True c Inr rw1 p again
          by (cases b) (auto simp: untouched_def)
      qed
    qed
  qed
qed simp

lemma closeStagehand_simps [simp]:
  "rw_steps (closeStagehand te rw) = rw_steps rw" "rw_published (closeStagehand te rw) = rw_published rw"
  "tb_opened (rw_tab (closeStagehand te rw)) = tb_opened (rw_tab rw)"
  "tb_closed (rw_tab (closeStagehand te rw)) \<longleftrightarrow> tb_opened (rw_tab rw) \<or> tb_closed (rw_tab rw)"
  by (auto simp: closeStagehand_def)

lemma cleanup_simps [simp]:
  "rw_steps (cleanup te rw) = rw_steps rw" "rw_published (cleanup te rw) = rw_published rw"
  "tb_opened (rw_tab (cleanup te rw)) \<longrightarrow> tb_closed (rw_tab (cleanup te rw))"
  by (auto simp: cleanup_def captureFinalScreenshot_def Let_def split: prod.split)

lemma finish_simps:
  assumes "finish_run te t0 rw = (p, rw')"
  shows "rw_steps rw' = rw_steps rw" "rw_published rw' = rw_published rw" "lp_steps p = Some (rw_steps rw)"
  using assms by (auto simp: finish_run_def Let_def)

lemma open_browser_cases:
  assumes "open_browser te fuel order rw = Some (r, rw')" and "shown rw" and "all_status SPending (rw_steps rw)"
    and "\<not> tb_opened (rw_tab rw)"
  shows "shown rw' \<and> step_ids rw' = step_ids rw \<and>
    (case r of Inr _ \<Rightarrow> rw_steps rw' = rw_steps rw
     | Inl m \<Rightarrow> order \<noteq> [] \<and> (rw_steps rw' = rw_steps rw \<or> all_status SCanceled (rw_steps rw')) \<and>
         (tb_opened (rw_tab rw') \<longrightarrow> tb_closed (rw_tab rw')))"
proof (cases "list_ex (\<lambda>n. sd_type (sn_data n) \<in> set BROWSER_NODE_TYPES) order")
  case False
  then show ?thesis using assms by (auto simp: open_browser_def)
next
  case True
  then have ne: "order \<noteq> []" by auto
  obtain q tab where g: "getStagehand te (rw_tab rw) = (q, tab)" by (cases "getStagehand te (rw_tab rw)")
  show ?thesis
  proof (cases q)
    case (Inl m)
    then show ?thesis using assms True g ne by (auto simp: open_browser_def shown_def)
  next
    case (Inr sh)
    let ?rw = "rw\<lparr>rw_tab := tab\<rparr>"
    obtain p rw1 where wt: "waitForLiveView te fuel ?rw = Some (p, rw1)"
      using assms(1) True g Inr by (cases "waitForLiveView te fuel ?rw") (auto simp: open_browser_def)
    have u: "untouched ?rw rw1 \<or>
        (\<exists>m. p = Inl m) \<and> shown rw1 \<and> step_ids rw1 = step_ids ?rw \<and> all_status SCanceled (rw_steps rw1)"
    proof (cases "truthy (tb_session tab)")
      case False
      then show ?thesis using wt by (simp add: waitForLiveView_def)
    next
      case True
      have "wait_polls te (nullish (tb_session tab) []) (te_now te (world ?rw) + LIVE_VIEW_WAIT_MS) fuel ?rw = Some (p, rw1)"
        using wt True by (simp add: waitForLiveView_def)
      from wait_polls_cases [OF this] show ?thesis using assms(2,3) by (simp add: shown_def)
    qed
    show ?thesis
    proof (cases p)
      case p': (Inl m)
      then have "r = Inl m" "rw' = closeStagehand te rw1" using assms(1) True g Inr wt by (simp_all add: open_browser_def)
      then show ?thesis using u assms(2) ne by (auto simp: shown_def untouched_def)
    next
      case p': (Inr b)
      then have "r = Inr ()" "rw' = rw1" using assms(1) True g Inr wt by (simp_all add: open_browser_def)
      then show ?thesis using u p' assms(2) by (auto simp: shown_def untouched_def)
    qed
  qed
qed

lemma run_graph_steps:
  assumes "run_graph te fuel order w = Some (r, rw)"
  shows "shown rw \<and> step_ids rw = map sn_id order \<and> (tb_opened (rw_tab rw) \<longrightarrow> tb_closed (rw_tab rw)) \<and>
    (ended r (rw_steps rw) \<or> (\<exists>m. r = Inl m) \<and> all_status SPending (rw_steps rw)) \<and>
    (\<forall>p. r = Inr p \<longrightarrow> lp_steps p = Some (rw_steps rw))"
proof -
  let ?rw0 = "publishSteps ((start_run w)\<lparr>rw_steps := map seed_step order\<rparr>)"
  have rw0: "shown ?rw0" "all_status SPending (rw_steps ?rw0)" "step_ids ?rw0 = map sn_id order" "\<not> tb_opened (rw_tab ?rw0)"
    by (simp_all add: shown_def all_status_def seed_step_def start_run_def comp_def)
  obtain q rw1 where o: "open_browser te fuel order ?rw0 = Some (q, rw1)"
    using assms by (cases "open_browser te fuel order ?rw0") (auto simp: run_graph_def Let_def)
  note ob = open_browser_cases [OF o rw0(1,2,4)]
  show ?thesis
  proof (cases q)
    case (Inl m)
    then have r: "r = Inl m" "rw = rw1" using assms o by (simp_all add: run_graph_def Let_def)
    have "stopped (rw_steps rw1) m" if "all_status SCanceled (rw_steps rw1)"
    proof -
      have "rw_steps rw1 \<noteq> []" using ob rw0(3) Inl by auto
      then obtain y ys where "rw_steps rw1 = [] @ y # ys" by (cases "rw_steps rw1") auto
      then show ?thesis unfolding stopped_def using that by (intro exI [of _ "[]"] exI [of _ y] exI [of _ ys]) simp
    qed
    then show ?thesis using ob rw0 Inl r by auto
  next
    case (Inr u)
    obtain p rw2 where n: "run_nodes te (te_now te w) 0 order rw1 = (p, rw2)" by (cases "run_nodes te (te_now te w) 0 order rw1")
    have steps1: "shown rw1" "rw_steps rw1 = map seed_step order" "step_ids rw1 = map sn_id order"
      using ob rw0 Inr by (simp_all add: start_run_def)
    have pend: "all_status SPending (map seed_step order)" by (simp add: all_status_def seed_step_def)
    have n': "run_nodes te (te_now te w) (length ([] :: run_step list)) order rw1 = (p, rw2)" using n by simp
    have e: "shown rw2 \<and> step_ids rw2 = step_ids rw1 \<and> ended p (rw_steps rw2)"
      by (rule run_nodes_ended [OF n' steps1(1), of "map seed_step order"]) (simp_all add: steps1(2) pend)
    show ?thesis
    proof (cases p)
      case p': (Inl m)
      then have "r = Inl m" "rw = cleanup te rw2" using assms o Inr n by (simp_all add: run_graph_def Let_def)
      then show ?thesis using e p' steps1(3) by (simp add: shown_def)
    next
      case p': (Inr v)
      obtain out' rw3 where f: "finish_run te (te_now te w) rw2 = (out', rw3)" by (cases "finish_run te (te_now te w) rw2")
      then have "r = Inr out'" "rw = cleanup te rw3" using assms o Inr n p' by (simp_all add: run_graph_def Let_def)
      then show ?thesis using e p' steps1(3) finish_simps [OF f] by (simp add: shown_def)
    qed
  qed
qed

section \<open>The task\<close>


section \<open>The order\<close>

lemma those_eq_Some: "those xs = Some ys \<longleftrightarrow> xs = map Some ys"
  by (induction xs arbitrary: ys) (auto split: option.splits simp: Cons_eq_map_conv)

lemma by_id:
  assumes "distinct (map sn_id ns)" and "n \<in> set ns"
  shows "List.find (\<lambda>m. sn_id m = sn_id n) (rev ns) = Some n"
proof -
  have "distinct (map sn_id (rev ns))" using assms(1) by (simp add: rev_map [symmetric])
  then show ?thesis using select_one_key [of sn_id "rev ns" n] assms(2) by (simp add: select_one_def)
qed

lemma order_ids:
  assumes "distinct (map sn_id (wg_nodes g))" and "set ids \<subseteq> sn_id ` set (wg_nodes g)"
  shows "\<exists>order. those (map (\<lambda>i. List.find (\<lambda>n. sn_id n = i) (rev (wg_nodes g))) ids) = Some order \<and>
    map sn_id order = ids \<and> set order \<subseteq> set (wg_nodes g)"
  using assms(2)
proof (induction ids)
  case (Cons i ids)
  then obtain n where n: "n \<in> set (wg_nodes g)" "sn_id n = i" by auto
  then show ?case using Cons by_id [OF assms(1) n(1)] by auto
qed simp

lemma connected_field: "set (concat (map (\<lambda>e. [eg_source e, eg_target e]) es)) = Field (set (edge_pairs es))"
  by (induction es) (auto simp: edge_pairs_def Field_insert)


section \<open>The run comes back\<close>

definition steady_clock :: "'s task_env \<Rightarrow> bool" where
  "steady_clock te \<longleftrightarrow> (\<forall>w. te_now te w + 1000 \<le> te_now te (te_sleep te w)) \<and>
     (\<forall>sid w. te_now te w \<le> te_now te (snd (te_connected te sid w)))"

lemma wait_polls_returns:
  assumes clock: "steady_clock te"
  shows "deadline - te_now te (world rw) \<le> 1000 * int n \<Longrightarrow> n < fuel \<Longrightarrow>
    \<exists>r rw'. wait_polls te sid deadline fuel rw = Some (r, rw')"
proof (induction n arbitrary: fuel rw)
  case 0
  then show ?case by (cases fuel) auto
next
  case (Suc n)
  obtain fuel' where f: "fuel = Suc fuel'" "n < fuel'" using Suc.prems(2) by (cases fuel) auto
  obtain p w where p: "te_connected te sid (world rw) = (p, w)" by (cases "te_connected te sid (world rw)")
  have "te_now te (world rw) \<le> te_now te w" "te_now te w + 1000 \<le> te_now te (te_sleep te w)"
    using clock p unfolding steady_clock_def by (metis snd_conv)+
  then have "deadline - te_now te (world (set_world (te_sleep te w) rw)) \<le> 1000 * int n"
    using Suc.prems(1) by simp
  from Suc.IH [OF this f(2)] obtain r rw' where again:
    "wait_polls te sid deadline fuel' (set_world (te_sleep te w) rw) = Some (r, rw')" by blast
  show ?case
  proof (cases "te_aborted te (world rw)")
    case True
    then show ?thesis by (simp add: f throwIfCanceled_def Let_def)
  next
    case False
    then show ?thesis using again p
      by (cases p) (auto simp: f throwIfCanceled_def split: bool.split)
  qed
qed

text \<open>
  C24. A run always comes back, however long nobody watches: with a clock that every pause advances by at least
  its second, the wait for the live view ends within 61 polls.
\<close>

theorem legacy_run_returns:
  assumes "steady_clock te" and "61 \<le> fuel"
  shows "\<exists>r rw. runWorkflowTask te fuel workflowId orgId store w = Some (r, rw)"
proof -
  have wait: "\<exists>r rw'. waitForLiveView te fuel rw = Some (r, rw')" for rw
    using wait_polls_returns [OF assms(1), of "te_now te (world rw) + LIVE_VIEW_WAIT_MS" rw 60 fuel] assms(2)
    by (simp add: waitForLiveView_def LIVE_VIEW_WAIT_MS_def)
  have "\<exists>r rw'. open_browser te fuel order rw = Some (r, rw')" for order rw
  proof -
    obtain q tab where g: "getStagehand te (rw_tab rw) = (q, tab)" by (cases "getStagehand te (rw_tab rw)")
    obtain r rw' where "waitForLiveView te fuel (rw\<lparr>rw_tab := tab\<rparr>) = Some (r, rw')" using wait by blast
    then show ?thesis by (cases q; cases r) (simp_all add: open_browser_def g)
  qed
  then have "\<exists>r rw. run_graph te fuel order w = Some (r, rw)" for order
  proof -
    let ?rw = "publishSteps ((start_run w)\<lparr>rw_steps := map seed_step order\<rparr>)"
    obtain r rw where "open_browser te fuel order ?rw = Some (r, rw)"
      using \<open>\<And>order rw. \<exists>r rw'. open_browser te fuel order rw = Some (r, rw')\<close> by blast
    then show ?thesis by (cases r) (auto simp: run_graph_def Let_def split: sum.split prod.split)
  qed
  then show ?thesis by (auto simp: runWorkflowTask_def split: sum.split option.split)
qed

section \<open>What the console shows of a finished run\<close>

text \<open>
  The view of a run that returned, read from its output whatever is left in the metadata, is complete:
  succeeded, every connected node a done step, none failed, with the run's own duration and session.
\<close>

theorem finished_run_reads_complete:
  assumes "runWorkflowTask te fuel workflowId orgId (Inr d) w = Some (Inr result, rw)"
    and "getWorkflow orgId workflowId d = Some workflow" and "wf_graph workflow = Some g"
    and "run_order (te_toposort te) g = Some order"
    and "lr_status run = ''COMPLETED''" and "lr_output run = Some result"
  shows "vm_status (triggerRunToViewModel run) = RSucceeded \<and>
    map st_nodeId (vm_steps (triggerRunToViewModel run)) = map sn_id order \<and>
    vm_completedCount (triggerRunToViewModel run) = length order \<and> vm_failedCount (triggerRunToViewModel run) = 0 \<and>
    vm_totalCount (triggerRunToViewModel run) = length order \<and>
    vm_session (triggerRunToViewModel run) = lp_session result"
proof -
  have "run_graph te fuel order w = Some (Inr result, rw)" using assms(1-4) by (simp add: runWorkflowTask_def)
  note s = run_graph_steps [OF this]
  have ids: "map st_nodeId (rw_steps rw) = map sn_id order" and out': "lp_steps result = Some (rw_steps rw)"
    and all: "all_status SDone (rw_steps rw)" using s by auto
  have "filter (\<lambda>s. st_status s = SDone) ss = ss \<and> filter (\<lambda>s. st_status s = SFailed) ss = []" if "all_status SDone ss" for ss
    using that by (induction ss) auto
  moreover have "length (rw_steps rw) = length order" using arg_cong [OF ids, of length] by simp
  ultimately show ?thesis
    using assms(5,6) ids out' all by (simp add: triggerRunToViewModel_def finalizeViewModel_def mapLegacyStatus_def
      Let_def vm_base.defs view_model.defs opt_field_def)
qed

section \<open>A run\<close>

text \<open>
  A clock as the outside: opening a browser takes a second, every browser action five milliseconds, and the
  view connects \<open>connect\<close> milliseconds after the start, when somebody watches.
\<close>

definition demo_env :: "int \<Rightarrow> int task_env" where
  "demo_env connect =
     \<lparr>te_toposort = kahn_array, te_inherited = \<lambda>v k. JUndef, te_proto = \<lambda>k. Inl [],
      te_stagehand =
        \<lparr>sh_act = \<lambda>i w. (Inr (True, ''ok''), w + 5), sh_extract = \<lambda>i w. (Inr JNull, w + 5),
         sh_observe = \<lambda>i w. (Inr [], w + 5), sh_agent = \<lambda>i w. (Inr (True, ''ok'', True), w + 5),
         sh_goto = \<lambda>u w. (Inr (), w + 5), sh_url = \<lambda>w. (Inr ''u'', w), sh_title = \<lambda>w. (Inr ''Home'', w)\<rparr>,
      te_resend = \<lambda>m k w. (Inr (Some ''mail'', None), w + 5),
      te_open = \<lambda>w. (Inr (Some ''b''), w + 1000), te_close = \<lambda>w. w, te_shot = \<lambda>w. (None, w), te_url = \<lambda>w. Some ''u'',
      te_connected = \<lambda>sid w. (Inr (connect \<le> w), w), te_saveArtifact = \<lambda>shot w. w, te_clear = \<lambda>sid w. w,
      te_flush = \<lambda>w. w, te_sleep = \<lambda>w. w + 1000, te_aborted = \<lambda>w. False, te_now = \<lambda>w. w\<rparr>"

definition page_graph :: workflow_graph where
  "page_graph = \<lparr>wg_nodes = [chain_node ''p'' ''open-url'' [(''url'', ''x'')], chain_node ''s'' ''start'' []],
     wg_edges = [\<lparr>eg_id = ''1'', eg_source = ''s'', eg_target = ''p''\<rparr>]\<rparr>"

definition page_workflow :: workflow_row where
  "page_workflow = \<lparr>wf_id = ''w'', wf_orgId = ''o'', wf_name = ''Page'', wf_graph = Some page_graph,
     wf_createdAt = 0, wf_updatedAt = 0\<rparr>"

definition legacy_db :: db where
  "legacy_db = empty_db\<lparr>db_workflows := [page_workflow]\<rparr>"


text \<open>Somebody watches from the third second on: two nodes, the second takes five milliseconds.\<close>

lemma demo_returns:
  "map_option (\<lambda>(r, rw). (case r of Inl m \<Rightarrow> Inl m | Inr p \<Rightarrow> Inr (lp_session p, lp_finalUrl p, lp_durationMs p),
       map (\<lambda>s. (st_nodeId s, st_durationMs s)) (rw_steps rw)))
     (runWorkflowTask (demo_env 3000) 61 ''w'' ''o'' (Inr legacy_db) 0) =
   Some (Inr (Some ''b'', Some ''u'', Some 3005), [(''s'', None), (''p'', Some 5)])"
  by code_simp

lemma page_facts:
  "getWorkflow ''o'' ''w'' legacy_db = Some page_workflow" "wf_graph page_workflow = Some page_graph"
  "run_order (te_toposort (demo_env c)) page_graph = Some [chain_node ''s'' ''start'' [], chain_node ''p'' ''open-url'' [(''url'', ''x'')]]"
proof -
  show "getWorkflow ''o'' ''w'' legacy_db = Some page_workflow" "wf_graph page_workflow = Some page_graph" by code_simp+
  show "run_order (te_toposort (demo_env c)) page_graph =
      Some [chain_node ''s'' ''start'' [], chain_node ''p'' ''open-url'' [(''url'', ''x'')]]" by code_simp
qed

lemma demo_run:
  "\<exists>p rw. runWorkflowTask (demo_env 3000) 61 ''w'' ''o'' (Inr legacy_db) 0 = Some (Inr p, rw) \<and> lp_session p = Some ''b''"
proof -
  obtain r rw where r: "runWorkflowTask (demo_env 3000) 61 ''w'' ''o'' (Inr legacy_db) 0 = Some (r, rw)"
    using demo_returns by (cases "runWorkflowTask (demo_env 3000) 61 ''w'' ''o'' (Inr legacy_db) 0") auto
  show ?thesis using demo_returns unfolding r by (cases r) (auto simp: r)
qed



text \<open>Nobody ever watches.\<close>

theorem legacy_run_returns_witness:
  "\<exists>r rw. runWorkflowTask (demo_env 1000000) 61 ''w'' ''o'' (Inr legacy_db) 0 = Some (r, rw)"
  by (rule legacy_run_returns) (simp_all add: steady_clock_def demo_env_def)

definition finished_run :: "legacy_payload \<Rightarrow> legacy_run" where
  "finished_run p = \<lparr>lr_id = ''run'', lr_status = ''COMPLETED'', lr_createdAt = 0, lr_output = Some p, lr_metadata = None\<rparr>"

theorem finished_run_reads_complete_witness:
  "\<exists>p rw. runWorkflowTask (demo_env 3000) 61 ''w'' ''o'' (Inr legacy_db) 0 = Some (Inr p, rw) \<and>
     vm_status (triggerRunToViewModel (finished_run p)) = RSucceeded \<and>
     vm_completedCount (triggerRunToViewModel (finished_run p)) = 2"
proof -
  obtain p rw where r: "runWorkflowTask (demo_env 3000) 61 ''w'' ''o'' (Inr legacy_db) 0 = Some (Inr p, rw)"
    using demo_run by blast
  have f: "lr_status (finished_run p) = ''COMPLETED''" "lr_output (finished_run p) = Some p"
    by (simp_all add: finished_run_def)
  from finished_run_reads_complete [OF r page_facts f] r show ?thesis by auto
qed

text \<open>
  A Stop that lands while a poll of the handshake fails is rethrown as the poll's own error, past the marking:
  every step keeps its spinner.
\<close>

definition failing_polls :: "int task_env" where
  "failing_polls = (demo_env 0)\<lparr>te_connected := \<lambda>sid w. (Inl ''db'', w + 1), te_aborted := \<lambda>w. 1000 < w\<rparr>"

theorem stop_during_failed_poll:
  "map_option (\<lambda>(r, rw). (case r of Inl m \<Rightarrow> m | Inr _ \<Rightarrow> [], map st_status (last (rw_published rw)), te_aborted failing_polls (world rw)))
     (runWorkflowTask failing_polls 61 ''w'' ''o'' (Inr legacy_db) 0) =
   Some (''db'', [SPending, SPending], True)"
  by code_simp

end
