(* ===== verification/EventsClient.thy ===== *)
theory EventsClient
  imports RunEvents
begin

text \<open>
  The browser's side of the event stream, \<open>features/workflows/components/evo-run-events-provider.tsx\<close>: the
  state of the provider, its \<open>EventSource\<close> handlers and the view it shows.  An \<open>EventSource\<close> reconnects
  after an error with the last id it saw, until it is closed.
\<close>

section \<open>The provider\<close>

text \<open>\<open>cl_closed\<close> is the state of the \<open>EventSource\<close>.\<close>

record client =
  cl_events :: "evo_event list"
  cl_snapshot :: "view_model option"
  cl_error :: "string option"
  cl_connected :: bool
  cl_terminal :: bool
  cl_closed :: bool

definition new_client :: client where
  "new_client = \<lparr>cl_events = [], cl_snapshot = None, cl_error = None, cl_connected = False,
     cl_terminal = False, cl_closed = False\<rparr>"

fun on_frame :: "client \<Rightarrow> frame \<Rightarrow> client" where
  "on_frame c (RunEvent eid ev) =
     c\<lparr>cl_terminal := cl_terminal c \<or> ev_kind ev = ''run_finished'', cl_events := cl_events c @ [ev]\<rparr>"
| "on_frame c (Snapshot vm) = c\<lparr>cl_snapshot := Some vm, cl_terminal := cl_terminal c \<or> vm_isTerminal vm\<rparr>"
| "on_frame c Ping = c"

definition on_error :: "client \<Rightarrow> client" where
  "on_error c =
     (if cl_terminal c then c\<lparr>cl_closed := True\<rparr>
      else c\<lparr>cl_error := Some ''Live run connection interrupted''\<rparr>)"

definition on_open :: "client \<Rightarrow> client" where
  "on_open c = c\<lparr>cl_connected := True, cl_error := None\<rparr>"

definition client_view :: "(string \<Rightarrow> jsval option) \<Rightarrow> string \<Rightarrow> client \<Rightarrow> view_model option" where
  "client_view parse runId c =
     (if cl_events c \<noteq> [] then Some (reduceEvoEvents parse runId (cl_events c)) else cl_snapshot c)"

definition client_error :: "client \<Rightarrow> string option" where
  "client_error c = (if cl_connected c then None else cl_error c)"

section \<open>Connections\<close>

text \<open>One connection: what the response meets and how many of its frames arrive before it ends.\<close>

record connection =
  cn_env :: sse_env
  cn_cut :: nat

definition arrived :: "(string \<Rightarrow> raw_event option) \<Rightarrow> string \<Rightarrow> string option \<Rightarrow> connection \<Rightarrow> frame list" where
  "arrived parse_event runId lastId x = take (cn_cut x) (fst (sse_body parse_event runId lastId (cn_env x)))"

definition connect :: "client \<Rightarrow> frame list \<Rightarrow> client" where
  "connect c fs = on_error (foldl on_frame (on_open c) fs)"

fun listen ::
    "(string \<Rightarrow> raw_event option) \<Rightarrow> string \<Rightarrow> client \<Rightarrow> string option \<Rightarrow> connection list \<Rightarrow> client" where
  "listen parse_event runId c lastId [] = c"
| "listen parse_event runId c lastId (x # xs) =
     (if cl_closed c then c
      else let fs = arrived parse_event runId lastId x
           in listen parse_event runId (connect c fs) (last_event_id lastId fs) xs)"

text \<open>Every connection is served honestly from one log, as far as it had grown by then.\<close>

fun all_served ::
    "(string \<Rightarrow> raw_event option) \<Rightarrow> string \<Rightarrow> (string \<Rightarrow> nat) \<Rightarrow> entry list \<Rightarrow> string option \<Rightarrow> connection list \<Rightarrow> bool" where
  "all_served parse_event runId key log lastId [] = True"
| "all_served parse_event runId key log lastId (x # xs) =
     (list_ex (\<lambda>n. redis_serves key log n lastId (cn_env x)) [0..<Suc (length log)] \<and>
      all_served parse_event runId key log (last_event_id lastId (arrived parse_event runId lastId x)) xs)"

lemma frames_events [simp]: "cl_events (foldl on_frame c fs) = cl_events c @ delivered fs"
  and frames_closed [simp]: "cl_closed (foldl on_frame c fs) = cl_closed c"
proof (induction fs arbitrary: c)
  case (Cons f fs)
  { case 1 show ?case using Cons.IH(1) [of "on_frame c f"] by (cases f) simp_all }
  { case 2 show ?case using Cons.IH(2) [of "on_frame c f"] by (cases f) simp_all }
qed simp_all

lemma frames_terminal:
  "cl_terminal (foldl on_frame c fs) \<longleftrightarrow>
     cl_terminal c \<or> has_finish (delivered fs) \<or> list_ex (\<lambda>f. case f of Snapshot vm \<Rightarrow> vm_isTerminal vm | _ \<Rightarrow> False) fs"
proof (induction fs arbitrary: c)
  case (Cons f fs)
  show ?case unfolding foldl.simps Cons.IH by (cases f) (auto simp: has_finish_def)
qed (simp add: has_finish_def)

lemma connect_simps [simp]:
  "cl_events (connect c fs) = cl_events c @ delivered fs"
  "cl_closed (connect c fs) \<longleftrightarrow> cl_closed c \<or> cl_terminal (connect c fs)"
  "has_finish (delivered fs) \<Longrightarrow> cl_terminal (connect c fs)"
  by (auto simp: connect_def on_error_def on_open_def frames_terminal)

section \<open>Redelivered events\<close>

text \<open>No node is dispatched after it completed: retries are announced by their own event.\<close>

definition completes :: "evo_event \<Rightarrow> bool" where
  "completes ev \<longleftrightarrow> kind_of (ev_kind ev) = NodeSucceeded \<or> kind_of (ev_kind ev) = NodeFailed"

definition dispatched_before_done :: "evo_event list \<Rightarrow> bool" where
  "dispatched_before_done = sorted_wrt (\<lambda>a b. completes a \<longrightarrow> kind_of (ev_kind b) = NodeDispatched \<longrightarrow>
     ev_node_id a \<noteq> ev_node_id b)"

lemma orderly_if:
  "dispatched_before_done es \<Longrightarrow> \<forall>e \<in> set es. kind_of (ev_kind e) = NodeDispatched \<longrightarrow> ev_node_id e \<notin> set C \<Longrightarrow>
   orderly r D C es"
proof (induction es arbitrary: D C)
  case (Cons e es)
  have es: "dispatched_before_done es" using Cons.prems(1) by (simp add: dispatched_before_done_def)
  have keep: "orderly r D' C es" for D' using Cons.IH [OF es] Cons.prems(2) by simp
  have add: "orderly r D' (ev_node_id e # C) es" if "completes e" for D'
    by (rule Cons.IH [OF es]) (use Cons.prems that in \<open>auto simp: dispatched_before_done_def\<close>)
  show ?case using keep add Cons.prems(2) by (auto simp: completes_def split: event_kind.split)
qed simp

lemma stretch_dispatched:
  "dispatched_before_done es \<Longrightarrow> dispatched_before_done (take n (drop m es))"
  by (simp add: dispatched_before_done_def sorted_wrt_drop sorted_wrt_take)

text \<open>
  The events a client has, when the last it received is the \<open>q\<close>-th of the run and none is beyond the
  \<open>n\<close>-th: whatever comes next in order, they read like one delivery.
\<close>

definition reads_like ::
    "(string \<Rightarrow> jsval option) \<Rightarrow> string \<Rightarrow> evo_event list \<Rightarrow> evo_event list \<Rightarrow> nat \<Rightarrow> nat \<Rightarrow> bool" where
  "reads_like parse r evs received q n \<longleftrightarrow> q \<le> n \<and>
     (\<forall>m. n \<le> m \<longrightarrow> reduce_events parse r init_red (received @ take (m - q) (drop q evs)) =
       reduce_events parse r init_red (take m evs))"

lemma take_drop_append: "j \<le> q \<Longrightarrow> q \<le> m \<Longrightarrow> take (m - j) (drop j xs) = take (q - j) (drop j xs) @ take (m - q) (drop q xs)"
proof -
  assume "j \<le> q" "q \<le> m"
  then have "m - j = (q - j) + (m - q)" "q = j + (q - j)" by simp_all
  then show ?thesis by (metis add.commute drop_drop take_add)
qed

lemma reads_on:
  assumes r: "reads_like parse r evs received q n" and "dispatched_before_done evs"
    and "j \<le> q" and "received = xs @ take (q - j) (drop j evs)"
  shows "reads_like parse r evs (received @ take a (drop j evs)) (j + a) (max n (j + a))"
  unfolding reads_like_def
proof (intro conjI allI impI)
  fix m assume m: "max n (j + a) \<le> m"
  let ?S = "take (q - j) (drop j evs)" and ?T = "take (m - q) (drop q evs)"
  have q: "q \<le> m" using r m by (simp add: reads_like_def)
  have "take a (drop j evs) @ take (m - (j + a)) (drop (j + a) evs) = take (m - j) (drop j evs)"
    using take_drop_append [of j "j + a" m evs] m by simp
  also have "\<dots> = ?S @ ?T" by (rule take_drop_append [OF assms(3) q])
  finally have "(received @ take a (drop j evs)) @ take (m - (j + a)) (drop (j + a) evs) = xs @ ?S @ ?S @ ?T"
    using assms(4) by simp
  moreover have "orderly r [] [] ?S" by (rule orderly_if [OF stretch_dispatched [OF assms(2)]]) simp
  then have "reduce_events parse r init_red (xs @ ?S @ ?S @ ?T) = reduce_events parse r init_red (xs @ ?S @ ?T)"
    by (simp add: reduce_events_append reduce_events_again [OF _ distinct_reduce_init])
  moreover have "reduce_events parse r init_red (xs @ ?S @ ?T) = reduce_events parse r init_red (take m evs)"
    using r m assms(4) by (simp add: reads_like_def)
  ultimately show "reduce_events parse r init_red ((received @ take a (drop j evs)) @ take (m - (j + a)) (drop (j + a) evs)) =
      reduce_events parse r init_red (take m evs)" by simp
qed simp

lemma arrived_stretch:
  fixes parse_event :: "string \<Rightarrow> raw_event option" and r :: string
  assumes "redis_serves key log n lastId (cn_env x)" and "stream_log key log"
  defines "j \<equiv> own_before parse_event r key (resume_id lastId) log"
    and "j' \<equiv> own_before parse_event r key (resume_id (last_event_id lastId (arrived parse_event r lastId x))) log"
  shows "delivered (arrived parse_event r lastId x) =
      take (length (delivered (arrived parse_event r lastId x))) (drop j (own parse_event r log))"
    and "j \<le> j'" and "j' \<le> j + length (delivered (arrived parse_event r lastId x))"
proof -
  obtain fs closed where b: "sse_body parse_event r lastId (cn_env x) = (fs, closed)"
    by (cases "sse_body parse_event r lastId (cn_env x)")
  have ord: "id_ordered key log" using assms(2) by (simp add: stream_log_def)
  have fs: "arrived parse_event r lastId x = take (cn_cut x) fs" by (simp add: arrived_def b)
  obtain z where z: "delivered fs = take z (drop j (own parse_event r log))"
    using sse_body_stretch [OF assms(1,2) b] own_later_drop [OF ord, of parse_event r "resume_id lastId"] j_def by auto
  obtain y where y: "delivered (take (cn_cut x) fs) = take y (delivered fs)" using delivered_prefix by blast
  show "delivered (arrived parse_event r lastId x) =
      take (length (delivered (arrived parse_event r lastId x))) (drop j (own parse_event r log))"
    unfolding fs y z by (simp add: min_def)
  show "j \<le> j'" and "j' \<le> j + length (delivered (arrived parse_event r lastId x))"
    using resume_point [OF assms(1,2) b, of "cn_cut x"] unfolding j_def j'_def fs by auto
qed

lemma has_finish_take_mono: "has_finish (take n xs) \<Longrightarrow> n \<le> m \<Longrightarrow> has_finish (take m xs)"
  using set_take_subset_set_take [of n m xs] by (auto simp: has_finish_def)

lemma has_finish_append [simp]: "has_finish (xs @ ys) \<longleftrightarrow> has_finish xs \<or> has_finish ys"
  by (auto simp: has_finish_def)

text \<open>One more connection: what the client has then read, and whether it contains the end of the run.\<close>

lemma connection_reads:
  fixes parse_event :: "string \<Rightarrow> raw_event option" and r :: string
  assumes log: "stream_log key log" and once: "dispatched_before_done (own parse_event r log)"
    and served: "redis_serves key log n0 lastId (cn_env x)"
    and reads: "reads_like parse r (own parse_event r log) (cl_events c) q n" "\<not> has_finish (take n (own parse_event r log))"
  defines "E \<equiv> own parse_event r log" and "j \<equiv> own_before parse_event r key (resume_id lastId) log"
    and "fs \<equiv> arrived parse_event r lastId x"
  assumes at: "j \<le> q" "cl_events c = xs @ take (q - j) (drop j E)"
  defines "a \<equiv> length (delivered fs)"
  shows "reads_like parse r E (cl_events c @ delivered fs) (j + a) (max n (j + a))"
    and "has_finish (delivered fs) \<Longrightarrow> has_finish (take (j + a) E) \<and> max n (j + a) = j + a"
    and "\<not> has_finish (delivered fs) \<Longrightarrow> \<not> has_finish (take (max n (j + a)) E)"
proof -
  have st: "delivered fs = take a (drop j E)"
    using arrived_stretch(1) [OF served log, of parse_event r] by (simp add: E_def j_def fs_def a_def)
  show "reads_like parse r E (cl_events c @ delivered fs) (j + a) (max n (j + a))"
    using reads_on [OF reads(1) once at(1) at(2) [unfolded E_def], of a] st by (simp add: E_def)
  have "j \<le> n" using reads(1) at(1) by (simp add: reads_like_def)
  then have before: "\<not> has_finish (take j E)" using reads(2) has_finish_take_mono by (auto simp: E_def)
  have split: "take (j + a) E = take j E @ delivered fs" using st by (simp add: take_add)
  show "has_finish (take (j + a) E) \<and> max n (j + a) = j + a" if "has_finish (delivered fs)"
  proof -
    have fin: "has_finish (take (j + a) E)" using that split by simp
    then have "n < j + a" using reads(2) has_finish_take_mono [of "j + a" E n] by (force simp: E_def)
    then show ?thesis using fin by simp
  qed
  show "\<not> has_finish (take (max n (j + a)) E)" if "\<not> has_finish (delivered fs)"
    using reads(2) split before that by (simp add: max_def E_def)
qed

lemma listen_reads:
  assumes log: "stream_log key log" and once: "dispatched_before_done (own parse_event r log)"
  shows "all_served parse_event r key log lastId conns \<Longrightarrow>
    reads_like parse r (own parse_event r log) (cl_events c) q n \<Longrightarrow> \<not> has_finish (cl_events c) \<Longrightarrow>
    \<not> has_finish (take n (own parse_event r log)) \<Longrightarrow>
    own_before parse_event r key (resume_id lastId) log \<le> q \<Longrightarrow>
    cl_events c = xs @ take (q - own_before parse_event r key (resume_id lastId) log)
      (drop (own_before parse_event r key (resume_id lastId) log) (own parse_event r log)) \<Longrightarrow>
    has_finish (cl_events (listen parse_event r c lastId conns)) \<Longrightarrow>
    \<exists>m. has_finish (take m (own parse_event r log)) \<and>
      reads_like parse r (own parse_event r log) (cl_events (listen parse_event r c lastId conns)) m m"
proof (induction conns arbitrary: c lastId q n xs)
  case (Cons x conns)
  define E where "E = own parse_event r log"
  define j where "j = own_before parse_event r key (resume_id lastId) log"
  let ?fs = "arrived parse_event r lastId x"
  let ?id = "last_event_id lastId ?fs"
  let ?a = "length (delivered ?fs)"
  show ?case
  proof (cases "cl_closed c")
    case True
    then show ?thesis using Cons.prems(3,7) by simp
  next
    case False
    obtain n0 where n0: "redis_serves key log n0 lastId (cn_env x)"
      using Cons.prems(1) by (auto simp: list_ex_iff)
    note st = arrived_stretch [OF n0 log, of parse_event r, folded E_def j_def]
    note reads = connection_reads [OF log once n0 Cons.prems(2,4,5,6), folded E_def j_def]
    define j' where "j' = own_before parse_event r key (resume_id ?id) log"
    have j': "j \<le> j'" "j' \<le> j + ?a" using st(2,3) by (simp_all add: j'_def)
    have listen: "listen parse_event r c lastId (x # conns) = listen parse_event r (connect c ?fs) ?id conns"
      using False by (simp add: Let_def)
    show ?thesis
    proof (cases "has_finish (delivered ?fs)")
      case True
      then have "cl_closed (connect c ?fs)" by simp
      then have ends: "listen parse_event r (connect c ?fs) ?id conns = connect c ?fs" by (cases conns) simp_all
      show ?thesis using reads(1) reads(2) [OF True] unfolding listen ends E_def by auto
    next
      case no: False
      have "delivered ?fs = take (j' - j) (drop j E) @ take (j + ?a - j') (drop j' E)"
        using take_drop_append [of j j' "j + ?a" E] j' st(1) by simp
      then have "cl_events (connect c ?fs) = (cl_events c @ take (j' - j) (drop j E)) @ take (j + ?a - j') (drop j' E)" by simp
      moreover have "all_served parse_event r key log ?id conns" "\<not> has_finish (cl_events (connect c ?fs))"
        "has_finish (cl_events (listen parse_event r (connect c ?fs) ?id conns))"
        using Cons.prems(1,3,7) no listen by simp_all
      moreover have "reads_like parse r E (cl_events (connect c ?fs)) (j + ?a) (max n (j + ?a))" using reads(1) by simp
      ultimately show ?thesis
        using Cons.IH [of ?id "connect c ?fs" "j + ?a" "max n (j + ?a)" "cl_events c @ take (j' - j) (drop j E)"] reads(3) [OF no] j'(2)
        unfolding listen E_def j'_def by blast
    qed
  qed
qed simp

text \<open>
  C4. End to end: a client that connects, loses its connection anywhere and reconnects any number of times
  shows, once the finish of the run has reached it, the view of the run's own events delivered once, up to
  the finish at least, although events are delivered again after each reconnect.
\<close>

theorem client_view_exact:
  assumes "stream_log key log" and "all_served parse_event runId key log None conns"
    and "dispatched_before_done (own parse_event runId log)"
    and "has_finish (cl_events (listen parse_event runId new_client None conns))"
  shows "\<exists>m. has_finish (take m (own parse_event runId log)) \<and>
    client_view parse runId (listen parse_event runId new_client None conns) =
      Some (reduceEvoEvents parse runId (take m (own parse_event runId log)))"
proof -
  have "own_before parse_event runId key (resume_id None) log = 0"
  proof -
    have "filter (\<lambda>e. key (fst e) \<le> key ''0-0'') log = []"
      using assms(1) by (auto simp: stream_log_def filter_empty_conv not_le)
    then show ?thesis by (simp add: own_before_def resume_id_def)
  qed
  then obtain m where m: "has_finish (take m (own parse_event runId log))"
    "reads_like parse runId (own parse_event runId log) (cl_events (listen parse_event runId new_client None conns)) m m"
    using listen_reads [OF assms(1,3,2), of parse new_client 0 0 "[]"] assms(4)
    by (auto simp: new_client_def reads_like_def has_finish_def)
  have "cl_events (listen parse_event runId new_client None conns) \<noteq> []" using assms(4) by (auto simp: has_finish_def)
  moreover have "reduce_events parse runId init_red (cl_events (listen parse_event runId new_client None conns)) =
      reduce_events parse runId init_red (take m (own parse_event runId log))"
    using m(2) unfolding reads_like_def by (metis append_Nil2 diff_self_eq_0 order_refl take0)
  ultimately show ?thesis using m(1) by (auto simp: client_view_def reduceEvoEvents_def)
qed

section \<open>A lost connection\<close>

definition first_connection :: connection where
  "first_connection = \<lparr>cn_env = sample_env ''-'' [] sample_log, cn_cut = 1\<rparr>"

definition second_connection :: connection where
  "second_connection = \<lparr>cn_env = sample_env ''-'' sample_log [], cn_cut = 9\<rparr>"

abbreviation lost_connection :: "connection list" where
  "lost_connection \<equiv> [first_connection, second_connection]"

lemma lost_frames:
  "arrived sample_parse ''r'' None first_connection =
     [RunEvent None (sample_event ''node_dispatched'' ''n'' ''act'' 4)]"
  "arrived sample_parse ''r'' None second_connection =
     [RunEvent (Some ''10-0'') (sample_event ''node_dispatched'' ''n'' ''act'' 4),
      RunEvent (Some ''1000-0'') (sample_event ''run_finished'' [] ''succeeded'' 6)]"
  by (simp_all add: first_connection_def second_connection_def arrived_def sse_body_def sample_env_def sample_log_def replayRunEvents_def starts_with_def
      parseStreamEntry_def sample_parse_def sample_event_def sample_poll_def MAX_STREAM_MS_def durableRunSnapshot_def
      empty_db_def own_events_def)

lemma lost_client: "cl_events (listen sample_parse ''r'' new_client None lost_connection) =
    [sample_event ''node_dispatched'' ''n'' ''act'' 4, sample_event ''node_dispatched'' ''n'' ''act'' 4,
     sample_event ''run_finished'' [] ''succeeded'' 6]"
proof -
  have "\<not> cl_closed (connect new_client [RunEvent None (sample_event ''node_dispatched'' ''n'' ''act'' 4)])"
    by (simp add: new_client_def connect_def on_open_def on_error_def sample_event_def)
  then show ?thesis by (simp add: lost_frames Let_def) (simp add: new_client_def)
qed

lemma lost_own: "own sample_parse ''r'' sample_log =
    [sample_event ''node_dispatched'' ''n'' ''act'' 4, sample_event ''run_finished'' [] ''succeeded'' 6]"
  by (simp add: sample_log_def own_events_Cons parseStreamEntry_def sample_parse_def sample_event_def)

lemma lost_served: "all_served sample_parse ''r'' length sample_log None lost_connection"
proof -
  have served: "redis_serves length sample_log 0 None (cn_env first_connection)"
    "redis_serves length sample_log 3 None (cn_env second_connection)"
    by (simp_all add: first_connection_def second_connection_def sample_defs upt_rec)
  have some: "n \<le> length sample_log \<Longrightarrow> P n \<Longrightarrow> list_ex P [0..<Suc (length sample_log)]" for P n
    unfolding list_ex_iff by (rule bexI [of _ n]) auto
  have len: "length sample_log = 3" by (simp add: sample_log_def)
  have id: "last_event_id None (arrived sample_parse ''r'' None first_connection) = None" by (simp add: lost_frames)
  show ?thesis unfolding all_served.simps id
    using some [of 0 "\<lambda>n. redis_serves length sample_log n None (cn_env first_connection)"]
      some [of 3 "\<lambda>n. redis_serves length sample_log n None (cn_env second_connection)"] served len
    by (simp del: upt_Suc)
qed

theorem client_view_exact_witness:
  "\<exists>m. client_view (\<lambda>s. None) ''r'' (listen sample_parse ''r'' new_client None lost_connection) =
    Some (reduceEvoEvents (\<lambda>s. None) ''r'' (take m (own sample_parse ''r'' sample_log))) \<and> 2 \<le> m"
proof -
  have fin: "has_finish (cl_events (listen sample_parse ''r'' new_client None lost_connection))"
    unfolding lost_client by (simp add: has_finish_def sample_event_def)
  have ord: "dispatched_before_done (own sample_parse ''r'' sample_log)"
    by (simp add: lost_own dispatched_before_done_def completes_def sample_event_def kind_of_def)
  obtain m where m: "has_finish (take m (own sample_parse ''r'' sample_log))"
    "client_view (\<lambda>s. None) ''r'' (listen sample_parse ''r'' new_client None lost_connection) =
      Some (reduceEvoEvents (\<lambda>s. None) ''r'' (take m (own sample_parse ''r'' sample_log)))"
    using client_view_exact [OF sample_served(1) lost_served ord fin, of "\<lambda>s. None"] by blast
  have "2 \<le> m"
  proof (rule ccontr)
    assume "\<not> 2 \<le> m"
    then have "m = 0 \<or> m = 1" by auto
    with m(1) show False by (auto simp: lost_own has_finish_def sample_event_def)
  qed
  with m(2) show ?thesis by blast
qed

text \<open>
  A snapshot does not replace the view once an event has arrived, and the first event after a snapshot
  hides everything the snapshot showed.
\<close>

theorem snapshot_never_replaces:
  "cl_events c \<noteq> [] \<Longrightarrow> client_view parse runId (on_frame c (Snapshot vm)) = client_view parse runId c"
  "cl_events c = [] \<Longrightarrow> client_view parse runId (on_frame (on_frame c (Snapshot vm)) (RunEvent i ev)) =
     Some (reduceEvoEvents parse runId [ev])"
  by (simp_all add: client_view_def)

end
