(* ===== verification/Monitor.thy ===== *)
theory Monitor
  imports RunConsole Actions
begin

text \<open>
  What the console derives from its runs: the shared list of both engines and the hooks that read it
  (\<open>features/workflows/components/workflow-runs-provider.tsx\<close>), the diagnosis of a run nothing executes
  (\<open>lib/run-startup-diagnosis.ts\<close>) and its banner (\<open>components/run-startup-diagnosis-banner.tsx\<close>).
  \<open>new Date(s)\<close> on the text of a date is a parameter.
\<close>

section \<open>The shared list\<close>

text \<open>A run as the server action sends it: with the text of its creation time.\<close>

type_synonym evo_run_dto = "view_model \<times> string option"

definition reviveEvoRun :: "(string \<Rightarrow> int) \<Rightarrow> evo_run_dto \<Rightarrow> view_model" where
  "reviveEvoRun newDate = (\<lambda>(dto, createdAt).
     dto\<lparr>vm_createdAt := (if truthy createdAt then Some (newDate (nullish createdAt [])) else None)\<rparr>)"

text \<open>One tick of the poll: the list shown before, the action's answer, whether the effect was cleaned up.\<close>

definition evo_tick ::
    "(string \<Rightarrow> int) \<Rightarrow> view_model list \<Rightarrow> 'e + evo_run_dto list \<Rightarrow> bool \<Rightarrow> view_model list" where
  "evo_tick newDate vms answer cancelled =
     (case answer of
        Inl _ \<Rightarrow> vms
      | Inr dtos \<Rightarrow> if cancelled then vms else map (reviveEvoRun newDate) dtos)"

definition consoleRuns :: "legacy_run list \<Rightarrow> view_model list \<Rightarrow> console_run list" where
  "consoleRuns runs vms = mergeConsoleRuns (map toConsoleRunFromLegacy runs) (map toConsoleRunFromEvo vms)"

definition useLatestRun :: "console_run list \<Rightarrow> console_run option" where
  "useLatestRun runs = (case runs of [] \<Rightarrow> None | r # _ \<Rightarrow> Some r)"

definition useLatestRunSteps :: "console_run list \<Rightarrow> run_step list \<times> bool" where
  "useLatestRunSteps runs =
     (case useLatestRun runs of None \<Rightarrow> ([], False) | Some latest \<Rightarrow> (cr_steps latest, cr_isLive latest))"

definition useLiveRun :: "console_run list \<Rightarrow> console_run option" where
  "useLiveRun runs = List.find cr_isLive runs"

definition useLiveBrowserbaseSessionId :: "console_run list \<Rightarrow> string option" where
  "useLiveBrowserbaseSessionId runs = Option.bind (useLiveRun runs) cr_liveSession"

section \<open>Runs nothing executes\<close>

definition STARTUP_STUCK_AFTER_MS :: int where "STARTUP_STUCK_AFTER_MS = 45000"

datatype startup_diagnosis =
    NoDiagnosis
  | ConnectionError string
  | NotPickedUp int engine

record startup_latest =
  sl_id :: string
  sl_engine :: engine
  sl_isLive :: bool
  sl_stepCount :: nat
  sl_createdAtMs :: int

definition diagnoseRunStartup :: "startup_latest option \<Rightarrow> string option \<Rightarrow> int \<Rightarrow> startup_diagnosis" where
  "diagnoseRunStartup latest connectionErrorMessage nowMs =
     (if truthy connectionErrorMessage then ConnectionError (nullish connectionErrorMessage [])
      else case latest of
        None \<Rightarrow> NoDiagnosis
      | Some l \<Rightarrow>
          if sl_isLive l \<and> sl_stepCount l = 0 \<and> nowMs - sl_createdAtMs l \<ge> STARTUP_STUCK_AFTER_MS
          then NotPickedUp ((nowMs - sl_createdAtMs l) div 1000) (sl_engine l) else NoDiagnosis)"

text \<open>The banner: \<open>None\<close> when it renders nothing.\<close>

definition startup_banner :: "console_run list \<Rightarrow> string option \<Rightarrow> int \<Rightarrow> string option \<Rightarrow> startup_diagnosis option" where
  "startup_banner runs connectionError now dismissedRunId =
     (let latest = useLatestRun runs;
          diagnosis = diagnoseRunStartup
            (map_option (\<lambda>r. \<lparr>sl_id = cr_id r, sl_engine = cr_engine r, sl_isLive = cr_isLive r,
               sl_stepCount = length (cr_steps r), sl_createdAtMs = cr_createdAt r\<rparr>) latest)
            connectionError now
      in case diagnosis of
           NoDiagnosis \<Rightarrow> None
         | NotPickedUp s e \<Rightarrow> if dismissedRunId = map_option cr_id latest then None else Some diagnosis
         | ConnectionError m \<Rightarrow> Some diagnosis)"

section \<open>Properties\<close>

lemma merged_sorted:
  "sorted_wrt (\<lambda>a b. cr_createdAt b \<le> cr_createdAt a) (consoleRuns runs vms)"
  by (simp add: consoleRuns_def mergeConsoleRuns_def sorted_wrt_keep_unseen sorted_merge_input)

lemma find_sorted:
  assumes "sorted_wrt (\<lambda>a b. f b \<le> f a) xs" and "List.find P xs = Some x" and "y \<in> set xs" and "P y"
  shows "(f y :: int) \<le> f x"
  using assms by (induction xs) (auto split: if_splits)

lemma in_merged:
  "q \<in> set (map toConsoleRunFromLegacy runs) \<union> set (map toConsoleRunFromEvo vms) \<Longrightarrow>
   \<exists>r \<in> set (consoleRuns runs vms). cr_id r = cr_id q \<and> cr_createdAt q \<le> cr_createdAt r"
proof -
  assume q: "q \<in> set (map toConsoleRunFromLegacy runs) \<union> set (map toConsoleRunFromEvo vms)"
  let ?m = "sort_key (\<lambda>r. - cr_createdAt r) (map toConsoleRunFromLegacy runs @ map toConsoleRunFromEvo vms)"
  have "cr_id q \<in> cr_id ` set (keep_unseen {} ?m)" using q by (auto simp: ids_keep_unseen)
  then obtain r where r: "r \<in> set (keep_unseen {} ?m)" "cr_id r = cr_id q" by auto
  have "q \<in> set ?m" using q by auto
  then have "cr_createdAt q \<le> cr_createdAt r"
    using keep_unseen_first [OF sorted_merge_input r(1)] r(2) by simp
  with r show ?thesis by (auto simp: consoleRuns_def mergeConsoleRuns_def)
qed

text \<open>
  The Stop button and the live view follow the newest live run of both engines; there is none exactly when
  no listed run is live.
\<close>

theorem live_run_newest:
  "case useLiveRun (consoleRuns runs vms) of
     None \<Rightarrow> (\<forall>r \<in> set (consoleRuns runs vms). \<not> cr_isLive r)
   | Some r \<Rightarrow> r \<in> set (consoleRuns runs vms) \<and> cr_isLive r \<and>
       (\<forall>q \<in> set (consoleRuns runs vms). cr_isLive q \<longrightarrow> cr_createdAt q \<le> cr_createdAt r)"
proof (cases "useLiveRun (consoleRuns runs vms)")
  case None
  then show ?thesis using find_NoneD [of cr_isLive "consoleRuns runs vms"] by (auto simp: useLiveRun_def)
next
  case (Some r)
  then show ?thesis
    using find_SomeD [of cr_isLive "consoleRuns runs vms" r] find_sorted [OF merged_sorted, of cr_isLive runs vms r]
    by (auto simp: useLiveRun_def)
qed

text \<open>
  A run is reported as not picked up only when it is live, has no step, is at least 45 seconds old and no
  other listed run of either engine is newer; the reported age is its age in whole seconds, and the report
  stays until a step appears, the run ends, a newer run starts or it is dismissed.
\<close>

theorem startup_report_exact:
  "startup_banner (consoleRuns runs vms) None now dismissed = Some (NotPickedUp s e) \<longleftrightarrow>
   (\<exists>r \<in> set (consoleRuns runs vms). useLatestRun (consoleRuns runs vms) = Some r \<and> cr_engine r = e \<and>
      (\<forall>q \<in> set (map toConsoleRunFromLegacy runs) \<union> set (map toConsoleRunFromEvo vms). cr_createdAt q \<le> cr_createdAt r) \<and>
      cr_isLive r \<and> cr_steps r = [] \<and> 45 \<le> s \<and> 1000 * s \<le> now - cr_createdAt r \<and>
      now - cr_createdAt r < 1000 * (s + 1) \<and> dismissed \<noteq> Some (cr_id r))"
proof (cases "consoleRuns runs vms")
  case Nil
  then show ?thesis by (simp add: startup_banner_def useLatestRun_def diagnoseRunStartup_def Let_def)
next
  case (Cons r rs)
  have newest: "cr_createdAt q \<le> cr_createdAt r"
    if q: "q \<in> set (map toConsoleRunFromLegacy runs) \<union> set (map toConsoleRunFromEvo vms)" for q
  proof -
    obtain p where "p \<in> set (consoleRuns runs vms)" "cr_createdAt q \<le> cr_createdAt p" using in_merged [OF q] by blast
    with merged_sorted [of runs vms] show ?thesis by (force simp: Cons)
  qed
  define age where "age = now - cr_createdAt r"
  have "age \<ge> 45000 \<and> age div 1000 = s \<longleftrightarrow> 45 \<le> s \<and> 1000 * s \<le> age \<and> age < 1000 * (s + 1)"
    by auto
  then show ?thesis
    using newest unfolding Cons
    by (auto simp: startup_banner_def useLatestRun_def diagnoseRunStartup_def Let_def STARTUP_STUCK_AFTER_MS_def age_def)
qed

text \<open>
  The console polls exactly the runs the store lists: a successful poll shows the list the server read, with
  the creation times it sent as text, and a failed one keeps what was shown.
\<close>

theorem polled_runs_exact:
  assumes "\<And>t. toISO t \<noteq> [] \<and> newDate (toISO t) = t"
    and "workflowIdSchema (ax_zod ax) workflowId = Inr w" and "fst (resolve_org ax) = Inr orgId"
  shows "evo_tick newDate vms (listEvoRunsAction ax toISO store2 workflowId st) False =
      listEvoRunsForWorkflow orgId w (ax_w_record ax 0 (sy_phase2 st)) store2 \<and>
    evo_tick newDate vms (Inl e) False = vms"
proof -
  have "reviveEvoRun newDate (r, map_option toISO (vm_createdAt r)) = r" for r
    using assms(1) by (cases "vm_createdAt r") (auto simp: reviveEvoRun_def truthy_iff)
  then show ?thesis
    using assms(2,3) by (simp add: evo_tick_def listEvoRunsAction_def parseActionInput_def at_path_def comp_def)
qed

section \<open>A console\<close>

definition stuck_run :: legacy_run where
  "stuck_run = \<lparr>lr_id = ''a'', lr_status = ''QUEUED'', lr_createdAt = 1000, lr_output = None, lr_metadata = None\<rparr>"

theorem live_run_newest_witness:
  "\<exists>r. useLiveRun (consoleRuns [stuck_run] []) = Some r \<and> cr_isLive r \<and> cr_createdAt r = 1000"
proof -
  have c: "consoleRuns [stuck_run] [] = [toConsoleRunFromLegacy stuck_run]"
    by (simp add: consoleRuns_def mergeConsoleRuns_def)
  have live: "cr_isLive (toConsoleRunFromLegacy stuck_run)" "cr_createdAt (toConsoleRunFromLegacy stuck_run) = 1000"
    by (simp_all add: toConsoleRunFromLegacy_def stuck_run_def isLegacyRunLive_def Let_def)
  show ?thesis using live_run_newest [of "[stuck_run]" "[]"] live unfolding c
    by (cases "useLiveRun [toConsoleRunFromLegacy stuck_run]") auto
qed

theorem startup_report_exact_witness:
  "startup_banner (consoleRuns [stuck_run] []) None 47500 None = Some (NotPickedUp 46 Legacy)"
proof -
  have c: "consoleRuns [stuck_run] [] = [toConsoleRunFromLegacy stuck_run]"
    by (simp add: consoleRuns_def mergeConsoleRuns_def)
  show ?thesis
    unfolding startup_report_exact
    by (simp add: c useLatestRun_def)
      (simp add: toConsoleRunFromLegacy_def stuck_run_def isLegacyRunLive_def legacyStepsForRun_def opt_field_def Let_def)
qed

text \<open>A text for every time, and back.\<close>

definition tally :: "int \<Rightarrow> string" where
  "tally t = (if t < 0 then CHR ''-'' # replicate (nat (- t)) CHR ''1'' else CHR ''+'' # replicate (nat t) CHR ''1'')"

definition untally :: "string \<Rightarrow> int" where
  "untally s = (if hd s = CHR ''-'' then - int (length (tl s)) else int (length (tl s)))"

theorem polled_runs_exact_witness:
  "evo_tick untally [] (listEvoRunsAction (demo_ax []) tally (\<lambda>i. Inr empty_db) ''w'' demo_sys) False =
     listEvoRunsForWorkflow ''org'' ''w'' (ax_w_record (demo_ax []) 0 empty_db) (\<lambda>i. Inr empty_db)"
proof -
  have inv: "tally t \<noteq> [] \<and> untally (tally t) = t" for t
    by (simp add: tally_def untally_def)
  have w: "workflowIdSchema (ax_zod (demo_ax [])) ''w'' = Inr ''w''"
    by (simp add: demo_ax_def workflowIdSchema_def)
  show ?thesis
    using conjunct1 [OF polled_runs_exact [of tally untally "demo_ax []" "''w''" "''w''" "''org''" "[]" "\<lambda>i. Inr empty_db" demo_sys, OF inv w]]
    by (simp add: demo_org demo_sys_def)
qed

end
