(* ===== verification/WorkerMain.thy ===== *)
theory WorkerMain
  imports Leases Worker Executors Access
begin

text \<open>
  The worker process around the state machine of \<open>Worker\<close>: the options of \<open>worker/src/main.ts\<close> and their
  defaults in \<open>worker/src/worker.ts\<close>, its start and its timers, and the run events it publishes; the
  addresses the web application reads them from (\<open>lib/evo-redis.ts\<close>, \<open>lib/db/phase2.ts\<close>).
\<close>

section \<open>Configuration\<close>

type_synonym environ = "string \<Rightarrow> string option"

text \<open>\<open>Number(s)\<close> of an environment variable is a parameter, \<open>'n\<close> its numbers.\<close>

record 'n redis_config =
  rc_host :: string
  rc_port :: 'n
  rc_password :: "string option"

record 'n worker_options =
  wo_redis :: "'n redis_config"
  wo_envPrefix :: string
  wo_group :: string
  wo_workerId :: "string option"
  wo_readBlockMs :: "'n option"
  wo_drainTimeoutMs :: "'n option"
  wo_leaseDurationMs :: "'n option"
  wo_leaseRenewIntervalMs :: "'n option"
  wo_heartbeatIntervalMs :: "'n option"

record 'n resolved_worker =
  rw_redis :: "'n redis_config"
  rw_envPrefix :: string
  rw_group :: string
  rw_workerId :: string
  rw_readBlockMs :: 'n
  rw_drainTimeoutMs :: 'n
  rw_leaseDurationMs :: 'n
  rw_leaseRenewIntervalMs :: 'n
  rw_heartbeatIntervalMs :: 'n

definition env_number :: "(string \<Rightarrow> 'n) \<Rightarrow> environ \<Rightarrow> string \<Rightarrow> 'n option" where
  "env_number number env k = (if truthy (env k) then Some (number (nullish (env k) [])) else None)"

definition main_redis :: "(string \<Rightarrow> 'n) \<Rightarrow> environ \<Rightarrow> 'n redis_config" where
  "main_redis number env =
     \<lparr>rc_host = nullish (env ''EVO_PHASE2_REDIS_HOST'') ''127.0.0.1'',
      rc_port = number (nullish (env ''EVO_PHASE2_REDIS_PORT'') ''6390''),
      rc_password = (if truthy (env ''EVO_PHASE2_REDIS_PASSWORD'') then env ''EVO_PHASE2_REDIS_PASSWORD'' else None)\<rparr>"

definition main_options :: "(string \<Rightarrow> 'n) \<Rightarrow> environ \<Rightarrow> 'n worker_options" where
  "main_options number env =
     \<lparr>wo_redis = main_redis number env,
      wo_envPrefix = nullish (env ''EVO_WORKER_ENV_PREFIX'') ''evo:dev'',
      wo_group = nullish (env ''EVO_WORKER_GROUP'') ''workers'',
      wo_workerId = (if truthy (env ''EVO_WORKER_ID'') then env ''EVO_WORKER_ID'' else None),
      wo_readBlockMs = None, wo_drainTimeoutMs = None,
      wo_leaseDurationMs = env_number number env ''EVO_WORKER_LEASE_DURATION_MS'',
      wo_leaseRenewIntervalMs = env_number number env ''EVO_WORKER_LEASE_RENEW_INTERVAL_MS'',
      wo_heartbeatIntervalMs = env_number number env ''EVO_WORKER_HEARTBEAT_INTERVAL_MS''\<rparr>"

definition generateWorkerId :: "string \<Rightarrow> int \<Rightarrow> string \<Rightarrow> string" where
  "generateWorkerId hostname pid random = ''worker-'' @ hostname @ ''-'' @ int_text pid @ ''-'' @ random"

definition resolve_worker :: "string \<Rightarrow> 'n::numeral worker_options \<Rightarrow> 'n resolved_worker" where
  "resolve_worker generated config =
     \<lparr>rw_redis = wo_redis config, rw_envPrefix = wo_envPrefix config, rw_group = wo_group config,
      rw_workerId = nullish (wo_workerId config) generated,
      rw_readBlockMs = nullish (wo_readBlockMs config) 500,
      rw_drainTimeoutMs = nullish (wo_drainTimeoutMs config) 10000,
      rw_leaseDurationMs = nullish (wo_leaseDurationMs config) 30000,
      rw_leaseRenewIntervalMs = nullish (wo_leaseRenewIntervalMs config) 10000,
      rw_heartbeatIntervalMs = nullish (wo_heartbeatIntervalMs config) 5000\<rparr>"

text \<open>The web application's side.\<close>

definition getEvoRedisConfig :: "(string \<Rightarrow> 'n) \<Rightarrow> environ \<Rightarrow> 'n redis_config" where
  "getEvoRedisConfig number env =
     \<lparr>rc_host = nullish (env ''EVO_PHASE2_REDIS_HOST'') ''127.0.0.1'',
      rc_port = number (nullish (env ''EVO_PHASE2_REDIS_PORT'') ''6390''),
      rc_password = (if truthy (env ''EVO_PHASE2_REDIS_PASSWORD'') then env ''EVO_PHASE2_REDIS_PASSWORD'' else None)\<rparr>"

definition getEvoEnvPrefix :: "environ \<Rightarrow> string" where
  "getEvoEnvPrefix env = nullish (env ''EVO_WORKER_ENV_PREFIX'') ''evo:dev''"

definition eventStreamKey :: "string \<Rightarrow> string" where
  "eventStreamKey envPrefix = envPrefix @ '':events''"

record 'n phase2_config =
  pc_host :: string
  pc_port :: 'n
  pc_user :: string
  pc_password :: string
  pc_database :: string

definition getPhase2DbConfig :: "(string \<Rightarrow> 'n) \<Rightarrow> environ \<Rightarrow> 'n phase2_config" where
  "getPhase2DbConfig number env =
     \<lparr>pc_host = nullish (env ''EVO_PHASE2_PG_HOST'') ''127.0.0.1'',
      pc_port = number (nullish (env ''EVO_PHASE2_PG_PORT'') ''5433''),
      pc_user = nullish (env ''EVO_PHASE2_PG_USER'') ''evo'',
      pc_password = nullish (env ''EVO_PHASE2_PG_PASSWORD'') ''evo_dev_password'',
      pc_database = nullish (env ''EVO_PHASE2_PG_DB'') ''evo_phase2''\<rparr>"

section \<open>Run events\<close>

definition run_event_json :: "string \<Rightarrow> string \<Rightarrow> string \<Rightarrow> int \<Rightarrow> jsval" where
  "run_event_json runId kind detail now =
     JObj [(''run_id'', JStr runId), (''node_id'', JStr []), (''kind'', JStr kind), (''detail'', JStr detail),
           (''wall_ms'', JNum (int_text now))]"

text \<open>
  \<open>publishRunEvent\<close>: the fields of the entry it appends to the event stream, whose id Redis assigns.  An error
  is only logged.
\<close>

definition publishRunEvent :: "string \<Rightarrow> string \<Rightarrow> string \<Rightarrow> int \<Rightarrow> string list" where
  "publishRunEvent runId kind detail now =
     [''payload'', nullish (stringify (run_event_json runId kind detail now)) []]"

text \<open>
  \<open>onSessionOpened\<close>: what it saves and publishes, both without waiting; \<open>sid\<close> is the session of the opened
  browser, \<open>eid\<close> the id Redis gives the entry, or \<open>None\<close> when publishing fails.
\<close>

definition onSessionOpened ::
    "string \<Rightarrow> string option \<Rightarrow> int \<Rightarrow> string option \<Rightarrow> store \<times> entry list \<Rightarrow> store \<times> entry list" where
  "onSessionOpened runId sid now eid = (\<lambda>(phase2, stream).
     (if truthy sid
      then (saveRunBrowserbaseSession runId (nullish sid []) phase2,
            case eid of
              None \<Rightarrow> stream
            | Some i \<Rightarrow> stream @ [(i, publishRunEvent runId ''browser_session_opened'' (nullish sid []) now)])
      else (phase2, stream)))"

section \<open>Starting\<close>

datatype start_call =
    Connect
  | ConnectControl
  | EnsureGroup string string string
  | SpawnLoops
  | Heartbeat

definition controlGroup :: "string \<Rightarrow> string" where
  "controlGroup workerId = ''control-'' @ workerId"

text \<open>
  \<open>start\<close>: the calls in order, cut at the first of the first four that fails; a heartbeat that fails is only
  logged.
\<close>

definition start_plan :: "string \<Rightarrow> string \<Rightarrow> string \<Rightarrow> bool \<Rightarrow> start_call list" where
  "start_plan envPrefix grp workerId hasLeaseStore =
     [Connect, ConnectControl, EnsureGroup (taskStreamKey envPrefix) grp ''$'',
      EnsureGroup (controlStreamKey envPrefix) (controlGroup workerId) ''0'', SpawnLoops]
     @ (if hasLeaseStore then [Heartbeat] else [])"

fun run_start :: "(start_call \<Rightarrow> bool) \<Rightarrow> start_call list \<Rightarrow> start_call list \<times> bool" where
  "run_start ok [] = ([], True)"
| "run_start ok (c # cs) =
     (if ok c \<or> c = Heartbeat then (case run_start ok cs of (made, b) \<Rightarrow> (c # made, b)) else ([c], False))"

section \<open>Renewing a lease\<close>

text \<open>
  The renewal timer: each tick renews for the full lease duration from its own time; the answer is not looked
  at.
\<close>

definition renew_tick :: "attempt_key \<Rightarrow> string \<Rightarrow> int \<Rightarrow> int \<Rightarrow> lease_op" where
  "renew_tick k workerId leaseDurationMs now = Renew k workerId now (now + leaseDurationMs)"

text \<open>Ticks that come before the lease they extend runs out, the last one lasting until \<open>stop\<close>.\<close>

fun in_time :: "int \<Rightarrow> int \<Rightarrow> int list \<Rightarrow> int \<Rightarrow> bool" where
  "in_time duration t [] stop = (stop < t + duration)"
| "in_time duration t (u # us) stop = (t \<le> u \<and> u < t + duration \<and> in_time duration u us stop)"

lemma held_later: "held l w e \<Longrightarrow> e' \<le> e \<Longrightarrow> held l w e'"
  by (auto simp: held_def)

lemma renewed:
  assumes "db_keys d" and "held (db_lease d k) w e"
  shows "fst (pg_op (renew_tick k w duration u) d)" "held (db_lease (snd (pg_op (renew_tick k w duration u) d)) k) w (u + duration)"
proof -
  obtain y where y: "db_lease d k = Some (Some w, Some y)" using assms(2) by (auto simp: held_def)
  show "fst (pg_op (renew_tick k w duration u) d)"
    unfolding pg.op_answer [OF assms(1)] by (simp add: renew_tick_def y)
  show "held (db_lease (snd (pg_op (renew_tick k w duration u) d)) k) w (u + duration)"
    unfolding pg.op_effect [OF assms(1)] by (simp add: renew_tick_def y held_def)
qed

lemma kept_alive:
  "db_keys d \<Longrightarrow> held (db_lease d k) w (t + duration) \<Longrightarrow> in_time duration t us stop \<Longrightarrow>
   filter (\<lambda>x. op_key x = k \<and> op_worker x = w) xs = map (renew_tick k w duration) us \<Longrightarrow>
   sorted (map op_time xs) \<Longrightarrow> list_all (\<lambda>x. op_time x \<le> stop) xs \<Longrightarrow> run_ops pg_op xs d = (bs, d2) \<Longrightarrow>
   list_all2 (\<lambda>x b. op_key x = k \<longrightarrow> b = (op_worker x = w)) xs bs \<and> held (db_lease d2 k) w (stop + 1)"
proof (induction xs arbitrary: d t us bs)
  case Nil
  then show ?case by (auto intro: held_later)
next
  case (Cons x xs)
  obtain b d1 where x: "pg_op x d = (b, d1)" by (cases "pg_op x d")
  obtain bs1 where bs: "run_ops pg_op xs d1 = (bs1, d2)" "bs = b # bs1" using Cons.prems(7) x by (auto split: prod.splits)
  have d1: "db_keys d1" using pg.op_inv [OF Cons.prems(1), of x] x by simp
  have rest: "sorted (map op_time xs)" "list_all (\<lambda>x. op_time x \<le> stop) xs" using Cons.prems(5,6) by simp_all
  show ?case
  proof (cases "op_key x = k \<and> op_worker x = w")
    case True
    then obtain u us' where us: "us = u # us'" "x = renew_tick k w duration u"
      "filter (\<lambda>x. op_key x = k \<and> op_worker x = w) xs = map (renew_tick k w duration) us'"
      using Cons.prems(4) by (auto simp: Cons_eq_map_conv)
    note r = renewed [OF Cons.prems(1,2), of duration u, folded us(2), unfolded x, simplified]
    have "in_time duration u us' stop" using Cons.prems(3) us(1) by simp
    from Cons.IH [OF d1 r(2) this us(3) rest bs(1)] True r(1) bs(2) show ?thesis by simp
  next
    case False
    have us: "filter (\<lambda>x. op_key x = k \<and> op_worker x = w) xs = map (renew_tick k w duration) us"
      using Cons.prems(4) False by simp
    have early: "op_time x < t + duration"
    proof (cases us)
      case Nil
      then show ?thesis using Cons.prems(3,6) by simp
    next
      case (Cons u us')
      then have "renew_tick k w duration u \<in> set xs" using arg_cong [OF us, of set] by (auto simp: Cons)
      then have "op_time x \<le> u" using Cons.prems(5) by (force simp: renew_tick_def)
      then show ?thesis using Cons.prems(3) Cons by simp
    qed
    have tame: "tame k w (t + duration) x" using False early by (auto simp: tame_def)
    note h = pg.held_step [OF Cons.prems(1,2) tame, unfolded x, simplified]
    from Cons.IH [OF d1 h(1) Cons.prems(3) us rest bs(1)] h(2) False bs(2) show ?thesis by auto
  qed
qed

text \<open>
  C15. A worker that renews in time is never reaped: while the timer ticks before the lease it extends runs out,
  every renewal succeeds, every acquisition or renewal of the attempt by another worker is refused, and the
  lease still runs when the task ends, whatever happens to other attempts in between.
\<close>

theorem renewed_lease_never_lapses:
  assumes "db_keys d" and "acquireAttemptLease k w t (t + duration) d = (True, d1)"
    and "in_time duration t us stop"
    and "filter (\<lambda>x. op_key x = k \<and> op_worker x = w) xs = map (renew_tick k w duration) us"
    and "sorted (map op_time xs)" and "list_all (\<lambda>x. op_time x \<le> stop) xs"
    and "run_ops pg_op xs d1 = (bs, d2)"
  shows "list_all2 (\<lambda>x b. op_key x = k \<longrightarrow> b = (op_worker x = w)) xs bs \<and> held (db_lease d2 k) w (stop + 1)"
proof -
  have "db_keys d1 \<and> held (db_lease d1 k) w (t + duration)"
    using pg.acquired_held [OF assms(1), of k w t "t + duration" d1] assms(2) by simp
  then show ?thesis using kept_alive [OF _ _ assms(3-7)] by blast
qed

text \<open>The default cadence, every ten seconds for thirty, is in time, with a tick up to twenty seconds late.\<close>

lemma default_cadence: "in_time 30000 t [t + 10000, t + 39999] (t + 69998)"
  by simp

theorem renewed_lease_never_lapses_witness:
  "\<exists>bs d2. run_ops pg_op [Acquire demo_key ''w2'' 30 60, renew_tick demo_key ''w1'' 30 35, Acquire demo_key ''w2'' 60 90]
      (snd (acquireAttemptLease demo_key ''w1'' 10 40 demo_attempts)) = (bs, d2) \<and> length bs = 3 \<and> \<not> bs ! 2"
proof -
  let ?d1 = "snd (acquireAttemptLease demo_key ''w1'' 10 40 demo_attempts)"
  let ?xs = "[Acquire demo_key ''w2'' 30 60, renew_tick demo_key ''w1'' 30 35, Acquire demo_key ''w2'' 60 90]"
  have acq: "acquireAttemptLease demo_key ''w1'' 10 (10 + 30) demo_attempts = (True, ?d1)"
    using demo_acquired by (simp add: prod_eq_iff)
  obtain bs d2 where run: "run_ops pg_op ?xs ?d1 = (bs, d2)" by (cases "run_ops pg_op ?xs ?d1")
  have "list_all2 (\<lambda>x b. op_key x = demo_key \<longrightarrow> b = (op_worker x = ''w1'')) ?xs bs"
    using renewed_lease_never_lapses [OF demo_attempts_keys acq, of "[35]" 60 ?xs bs d2] run
    by (simp add: renew_tick_def del: run_ops.simps)
  then have "length bs = 3 \<and> \<not> bs ! 2"
    by (auto simp: list_all2_Cons1)
  with run show ?thesis by blast
qed

section \<open>The session a viewer may watch\<close>

text \<open>The event as the reader's cast sees it.\<close>

definition published_event :: "string \<Rightarrow> string \<Rightarrow> string \<Rightarrow> int \<Rightarrow> evo_event" where
  "published_event runId kind detail now =
     \<lparr>ev_run_id = runId, ev_node_id = [], ev_kind = kind, ev_detail = detail, ev_wall_ms = now, ev_node_type = None,
      ev_node_title = None, ev_output_json = None, ev_session = None, ev_final_url = None\<rparr>"

text \<open>\<open>JSON.parse\<close> reads back the text \<open>JSON.stringify\<close> gave for an event.\<close>

definition reads_back :: "(string \<Rightarrow> raw_event option) \<Rightarrow> string \<Rightarrow> string \<Rightarrow> string \<Rightarrow> int \<Rightarrow> bool" where
  "reads_back parse_event runId kind detail now \<longleftrightarrow>
     parse_event (nullish (stringify (run_event_json runId kind detail now)) []) =
       Some \<lparr>raw_run_id = JStr runId, raw_kind = JStr kind, raw_typed = published_event runId kind detail now\<rparr>"

lemma published_parsed:
  "reads_back parse_event runId kind detail now \<Longrightarrow>
   parseStreamEntry parse_event (i, publishRunEvent runId kind detail now) =
     Some \<lparr>se_streamId = i, se_event = published_event runId kind detail now\<rparr>"
  by (simp add: parseStreamEntry_def publishRunEvent_def reads_back_def published_event_def)

lemma session_saved:
  assumes "db_keys d" and "run \<in> set (db_runs d)"
  shows "\<exists>d'. saveRunBrowserbaseSession (wr_id run) sid (Inr d) = Inr d' \<and> db_keys d' \<and>
    run\<lparr>wr_browserbaseSessionId := Some (nullish (wr_browserbaseSessionId run) sid)\<rparr> \<in> set (db_runs d')"
proof -
  let ?f = "\<lambda>r. if wr_id r = wr_id run \<and> wr_browserbaseSessionId r = None
      then r\<lparr>wr_browserbaseSessionId := Some sid\<rparr> else r"
  have "db_keys (d\<lparr>db_runs := map ?f (db_runs d)\<rparr>)"
    by (rule keys_update(5) [OF assms(1)]) (use keys_of(6) [OF assms(1)] in \<open>simp add: distinct_key_map del: map_map\<close>)
  moreover have eq: "?f run = run\<lparr>wr_browserbaseSessionId := Some (nullish (wr_browserbaseSessionId run) sid)\<rparr>"
    by (cases "wr_browserbaseSessionId run") auto
  have "run\<lparr>wr_browserbaseSessionId := Some (nullish (wr_browserbaseSessionId run) sid)\<rparr> \<in> ?f ` set (db_runs d)"
    by (rule image_eqI [where x = run]) (rule eq [symmetric], rule assms(2))
  ultimately show ?thesis by (simp add: saveRunBrowserbaseSession_def)
qed

text \<open>
  C35. From the worker to the viewer: once a worker has opened a browser for a run, the event it published makes
  every viewer's live session that browser, and the routes serve it to the owner of the run exactly when it
  is the first session the run ever had; a later session of the run is shown but refused.
\<close>

theorem opened_session_viewable:
  assumes "db_keys d" and "run \<in> set (db_runs d)" and "wr_orgId run \<noteq> []" and "sid \<noteq> []"
    and "onSessionOpened (wr_id run) (Some sid) now (Some eid) (Inr d, stream) = (phase2, stream')"
    and "ae_retrieve env (wr_id run) = None" and "ae_evo1 env = phase2" and "ae_evo2 env = phase2"
    and "reads_back parse_event (wr_id run) ''browser_session_opened'' sid now"
  shows "vm_liveSession (reduceEvoEvents parse (wr_id run) (own parse_event (wr_id run) stream')) = Some sid \<and>
    authorize env (wr_orgId run) (wr_id run) (Some sid) =
      Inr (if nullish (wr_browserbaseSessionId run) sid = sid then Granted Evo
           else Denied 403 ''session does not belong to run'')"
proof -
  let ?run = "run\<lparr>wr_browserbaseSessionId := Some (nullish (wr_browserbaseSessionId run) sid)\<rparr>"
  have stream': "stream' = stream @ [(eid, publishRunEvent (wr_id run) ''browser_session_opened'' sid now)]"
    and phase2: "phase2 = saveRunBrowserbaseSession (wr_id run) sid (Inr d)"
    using assms(4,5) by (auto simp: onSessionOpened_def)
  obtain d' where d': "phase2 = Inr d'" "db_keys d'" "?run \<in> set (db_runs d')"
    using session_saved [OF assms(1,2), of sid] phase2 by auto
  have org: "getEvoRunOrgId (wr_id run) (Inr d') = Some (wr_orgId run)"
    unfolding getEvoRunOrgId_Some [OF d'(2)] by (rule bexI [OF _ d'(3)]) simp
  have session: "getEvoRunBrowserbaseSessionId (wr_orgId run) (wr_id run) (Inr d') =
      Some (nullish (wr_browserbaseSessionId run) sid)"
    using getEvoRunSession [OF d'(2,3)] by simp
  have "authorize env (wr_orgId run) (wr_id run) (Some sid) =
      Inr (if nullish (wr_browserbaseSessionId run) sid = sid then Granted Evo
           else Denied 403 ''session does not belong to run'')"
    using assms(3,6-8) d'(1) org session by (simp add: authorize_def authorizeRunAccess_def deny_def Let_def)
  moreover have "own parse_event (wr_id run) stream' =
      own parse_event (wr_id run) stream @ [published_event (wr_id run) ''browser_session_opened'' sid now]"
    using assms(9) by (simp add: stream' own_events_append own_events_Cons published_parsed published_event_def)
  then have "vm_liveSession (reduceEvoEvents parse (wr_id run) (own parse_event (wr_id run) stream')) = Some sid"
    using assms(4) by (simp add: reduceEvoEvents_def reduce_events_append reduce_events_one reduce_event_def
        published_event_def step_action_def run_action_def kind_of_def red_view_def)
  ultimately show ?thesis by blast
qed

section \<open>A second worker\<close>

text \<open>A run whose first browser was \<open>b1\<close>, and another worker that opens \<open>b2\<close> for it.\<close>

definition two_workers_run :: workflow_run_row where
  "two_workers_run = (sample_run_row ''r'' ''o'' 0)\<lparr>wr_browserbaseSessionId := Some ''b1''\<rparr>"

definition two_workers_db :: db where
  "two_workers_db = empty_db\<lparr>db_runs := [two_workers_run]\<rparr>"

definition two_workers_parse :: "string \<Rightarrow> raw_event option" where
  "two_workers_parse s =
     (if s = nullish (stringify (run_event_json ''r'' ''browser_session_opened'' ''b2'' 9)) []
      then Some \<lparr>raw_run_id = JStr ''r'', raw_kind = JStr ''browser_session_opened'',
        raw_typed = published_event ''r'' ''browser_session_opened'' ''b2'' 9\<rparr> else None)"

definition two_workers_env :: "store \<Rightarrow> access_env" where
  "two_workers_env phase2 = \<lparr>ae_sessions = (\<lambda>k. \<lparr>se_userId = Some ''u'', se_orgId = Some ''o'', se_has_pro = Some False\<rparr>),
     ae_members = (\<lambda>u. Inr []), ae_retrieve = (\<lambda>i. None), ae_app = Inr empty_db, ae_evo1 = phase2, ae_evo2 = phase2\<rparr>"

theorem opened_session_viewable_witness:
  "\<exists>phase2 stream. onSessionOpened ''r'' (Some ''b2'') 9 (Some ''1-0'') (Inr two_workers_db, []) = (phase2, stream) \<and>
     vm_liveSession (reduceEvoEvents (\<lambda>s. None) ''r'' (own two_workers_parse ''r'' stream)) = Some ''b2'' \<and>
     authorize (two_workers_env phase2) ''o'' ''r'' (Some ''b2'') = Inr (Denied 403 ''session does not belong to run'')"
proof -
  obtain phase2 stream where o: "onSessionOpened ''r'' (Some ''b2'') 9 (Some ''1-0'') (Inr two_workers_db, []) = (phase2, stream)"
    by (cases "onSessionOpened ''r'' (Some ''b2'') 9 (Some ''1-0'') (Inr two_workers_db, [])")
  have run: "wr_id two_workers_run = ''r''" "wr_orgId two_workers_run = ''o''"
    "wr_browserbaseSessionId two_workers_run = Some ''b1''"
    by (simp_all add: two_workers_run_def sample_run_row_def)
  have keys: "db_keys two_workers_db" and mem: "two_workers_run \<in> set (db_runs two_workers_db)"
    by (simp_all add: two_workers_db_def db_keys_def empty_db_def)
  have reads: "reads_back two_workers_parse ''r'' ''browser_session_opened'' ''b2'' 9"
    by (simp add: reads_back_def two_workers_parse_def)
  have env: "ae_retrieve (two_workers_env phase2) ''r'' = None" "ae_evo1 (two_workers_env phase2) = phase2"
    "ae_evo2 (two_workers_env phase2) = phase2" by (simp_all add: two_workers_env_def)
  show ?thesis
    using opened_session_viewable [OF keys mem, of "''b2''" 9 "''1-0''" "[]" phase2 stream "two_workers_env phase2"
        two_workers_parse "\<lambda>s. None"] run o env reads by auto
qed

end
