(* ===== verification/ControlStream.thy ===== *)
theory ControlStream
  imports WorkerMain
begin

text \<open>
  How a cancellation reaches every worker: the control loop and the heartbeat of \<open>worker/src/worker.ts\<close> over the
  consumer groups of a Redis stream.  Redis is not part of the repository: the locale \<open>consumer_groups\<close> states what
  its documentation promises of a group created at the beginning of a stream, and a list with cursors satisfies it.
\<close>

section \<open>Consumer groups\<close>

text \<open>The message of a stream entry, if the entry has one.\<close>

definition entry_message :: "string \<times> string list \<Rightarrow> (string \<times> bytes) option" where
  "entry_message e = map_option (Pair (fst e)) (payload_field (snd e))"

locale consumer_groups =
  fixes entries :: "'s \<Rightarrow> (string \<times> string list) list"
    and cursor :: "'s \<Rightarrow> string \<Rightarrow> nat option"
    and xadd :: "string \<times> string list \<Rightarrow> 's \<Rightarrow> 's"
    and xgroup :: "string \<Rightarrow> 's \<Rightarrow> 's"
    and xreadgroup :: "string \<Rightarrow> 's \<Rightarrow> group_reply \<times> 's"
  assumes xadd_entries: "entries (xadd e s) = entries s @ [e]"
    and xadd_cursor: "cursor (xadd e s) = cursor s"
    and xgroup_entries: "entries (xgroup g s) = entries s"
    and xgroup_cursor: "cursor (xgroup g s) = (cursor s)(g := Some (nullish (cursor s g) 0))"
    and read_entries: "entries (snd (xreadgroup g s)) = entries s"
    and read_end: "cursor s g = Some n \<Longrightarrow> length (entries s) \<le> n \<Longrightarrow>
      fst (xreadgroup g s) = None \<and> cursor (snd (xreadgroup g s)) = cursor s"
    and read_next: "cursor s g = Some n \<Longrightarrow> n < length (entries s) \<Longrightarrow>
      (\<exists>stream. fst (xreadgroup g s) = Some [(stream, [entries s ! n])]) \<and>
      cursor (snd (xreadgroup g s)) = (cursor s)(g := Some (Suc n))"
begin

text \<open>Reading is about one group only.\<close>

lemma read_other: "cursor s g = Some n \<Longrightarrow> h \<noteq> g \<Longrightarrow> cursor (snd (xreadgroup g s)) h = cursor s h"
  using read_end [of s g n] read_next [of s g n] by (cases "n < length (entries s)") auto

lemma read_moves:
  "cursor s g = Some n \<Longrightarrow>
     cursor (snd (xreadgroup g s)) g = Some (if n < length (entries s) then Suc n else n)"
  using read_end [of s g n] read_next [of s g n] by (cases "n < length (entries s)") auto

lemma read_message:
  "cursor s g = Some n \<Longrightarrow>
     readGroup (fst (xreadgroup g s)) = (if n < length (entries s) then entry_message (entries s ! n) else None)"
  using read_end [of s g n] read_next [of s g n]
  by (cases "n < length (entries s)")
    (auto simp: readGroup_def entry_message_def case_prod_unfold split: option.splits)

end

text \<open>A stream as the list of its entries, with the position of each group.\<close>

record redis_stream =
  rs_entries :: "(string \<times> string list) list"
  rs_cursor :: "string \<Rightarrow> nat option"

definition redis_xadd :: "string \<times> string list \<Rightarrow> redis_stream \<Rightarrow> redis_stream" where
  "redis_xadd e s = s\<lparr>rs_entries := rs_entries s @ [e]\<rparr>"

definition redis_xgroup :: "string \<Rightarrow> redis_stream \<Rightarrow> redis_stream" where
  "redis_xgroup g s = s\<lparr>rs_cursor := (rs_cursor s)(g := Some (nullish (rs_cursor s g) 0))\<rparr>"

definition redis_xreadgroup :: "string \<Rightarrow> redis_stream \<Rightarrow> group_reply \<times> redis_stream" where
  "redis_xreadgroup g s =
     (case rs_cursor s g of
        None \<Rightarrow> (None, s)
      | Some n \<Rightarrow>
          if n < length (rs_entries s)
          then (Some [(''control'', [rs_entries s ! n])], s\<lparr>rs_cursor := (rs_cursor s)(g := Some (Suc n))\<rparr>)
          else (None, s))"

interpretation redis: consumer_groups rs_entries rs_cursor redis_xadd redis_xgroup redis_xreadgroup
  by unfold_locales (auto simp: redis_xadd_def redis_xgroup_def redis_xreadgroup_def split: option.splits)

section \<open>The control loop\<close>

text \<open>
  One turn of \<open>controlLoop\<close>: the read may fail, which is logged; a message is applied and then acknowledged, whether
  or not the acknowledgement succeeds.
\<close>

definition control_turn ::
    "worker_config \<Rightarrow> (string \<Rightarrow> 's \<Rightarrow> group_reply \<times> 's) \<Rightarrow> string \<Rightarrow> bool \<Rightarrow> 's \<times> worker \<times> string list \<Rightarrow> 's \<times> worker \<times> string list" where
  "control_turn cfg xreadgroup workerId readFails = (\<lambda>(s, ws, acks).
     if readFails then (s, ws, acks)
     else case xreadgroup (controlGroup workerId) s of
       (answer, s) \<Rightarrow>
         (case readGroup answer of
            None \<Rightarrow> (s, ws, acks)
          | Some (i, payload) \<Rightarrow> (s, applyControlMessage cfg payload ws, acks @ [i])))"

fun controlLoop ::
    "worker_config \<Rightarrow> (string \<Rightarrow> 's \<Rightarrow> group_reply \<times> 's) \<Rightarrow> string \<Rightarrow> bool list \<Rightarrow> 's \<times> worker \<times> string list \<Rightarrow> 's \<times> worker \<times> string list" where
  "controlLoop cfg xreadgroup workerId [] x = x"
| "controlLoop cfg xreadgroup workerId (fails # rest) x =
     (if ws_stopping (fst (snd x)) then x
      else controlLoop cfg xreadgroup workerId rest (control_turn cfg xreadgroup workerId fails x))"

text \<open>\<open>heartbeat\<close>: the registry row, if there is a store; an error is logged.\<close>

definition heartbeat :: "bool \<Rightarrow> int \<Rightarrow> string \<Rightarrow> string \<Rightarrow> int \<Rightarrow> store \<Rightarrow> store" where
  "heartbeat hasLeaseStore db_now workerId envPrefix now leases =
     (if \<not> hasLeaseStore then leases
      else case leases of Inl e \<Rightarrow> leases | Inr d \<Rightarrow> Inr (snd (workerHeartbeat db_now workerId envPrefix now d)))"

section \<open>A fleet of workers\<close>

text \<open>
  Workers that share the control stream.  Messages are added at any time, a worker joins with a fresh identity, and
  then takes turns of its loop between the steps of its jobs.
\<close>

record 's fleet =
  ft_stream :: 's
  ft_workers :: "string \<Rightarrow> worker"
  ft_joined :: "string set"
  ft_acks :: "string \<Rightarrow> string list"

definition fleet_turn ::
    "worker_config \<Rightarrow> (string \<Rightarrow> 's \<Rightarrow> group_reply \<times> 's) \<Rightarrow> string \<Rightarrow> bool \<Rightarrow> 's fleet \<Rightarrow> 's fleet" where
  "fleet_turn cfg xreadgroup w fails f =
     (case control_turn cfg xreadgroup w fails (ft_stream f, ft_workers f w, ft_acks f w) of
        (s, ws, acks) \<Rightarrow>
          f\<lparr>ft_stream := s, ft_workers := (ft_workers f)(w := ws), ft_acks := (ft_acks f)(w := acks)\<rparr>)"

definition set_worker :: "string \<Rightarrow> worker \<Rightarrow> 's fleet \<Rightarrow> 's fleet" where
  "set_worker w ws f = f\<lparr>ft_workers := (ft_workers f)(w := ws)\<rparr>"

inductive fleet_step ::
    "worker_config \<Rightarrow> (string \<times> string list \<Rightarrow> 's \<Rightarrow> 's) \<Rightarrow> (string \<Rightarrow> 's \<Rightarrow> 's) \<Rightarrow> (string \<Rightarrow> 's \<Rightarrow> group_reply \<times> 's) \<Rightarrow>
     's fleet \<Rightarrow> 's fleet \<Rightarrow> bool"
  for cfg xadd xgroup xreadgroup where
  published: "fleet_step cfg xadd xgroup xreadgroup f (f\<lparr>ft_stream := xadd e (ft_stream f)\<rparr>)"
| joined: "w \<notin> ft_joined f \<Longrightarrow>
    fleet_step cfg xadd xgroup xreadgroup f
      (f\<lparr>ft_stream := xgroup (controlGroup w) (ft_stream f), ft_joined := insert w (ft_joined f)\<rparr>)"
| turned: "w \<in> ft_joined f \<Longrightarrow> \<not> ws_stopping (ft_workers f w) \<Longrightarrow>
    fleet_step cfg xadd xgroup xreadgroup f (fleet_turn cfg xreadgroup w fails f)"
| claimed: "fleet_step cfg xadd xgroup xreadgroup f (set_worker w (claim i payload now (ft_workers f w)) f)"
| job: "map_of (ws_jobs (ft_workers f w)) i = Some j \<Longrightarrow> job_step (cfg\<lparr>wc_workerId := w\<rparr>) i j ev (ft_workers f w) = Some ws' \<Longrightarrow>
    fleet_step cfg xadd xgroup xreadgroup f (set_worker w ws' f)"
| stopped: "fleet_step cfg xadd xgroup xreadgroup f (set_worker w (stop_worker (ft_workers f w)) f)"

definition new_fleet :: "'s \<Rightarrow> 's fleet" where
  "new_fleet s = \<lparr>ft_stream = s, ft_workers = (\<lambda>w. init_worker), ft_joined = {}, ft_acks = (\<lambda>w. [])\<rparr>"

section \<open>Every worker learns every cancellation\<close>

text \<open>The runs canceled by one entry and by a list of entries.\<close>

definition cancels :: "worker_config \<Rightarrow> string \<times> string list \<Rightarrow> string set" where
  "cancels cfg e =
     (case entry_message e of
        None \<Rightarrow> {}
      | Some (i, payload) \<Rightarrow>
          (case decodeControlEnvelope (wc_controlCodec cfg) payload of
             None \<Rightarrow> {}
           | Some control \<Rightarrow> if cv_kind control = CANCEL_RUN \<and> cv_runId control \<noteq> [] then {cv_runId control} else {}))"

definition canceled_by :: "worker_config \<Rightarrow> (string \<times> string list) list \<Rightarrow> string set" where
  "canceled_by cfg es = (\<Union>e \<in> set es. cancels cfg e)"

lemma canceled_by_simps [simp]:
  "canceled_by cfg [] = {}"
  "canceled_by cfg (e # es) = cancels cfg e \<union> canceled_by cfg es"
  "canceled_by cfg (es @ fs) = canceled_by cfg es \<union> canceled_by cfg fs"
  by (auto simp: canceled_by_def)

lemma applied_cancels:
  "entry_message e = Some (i, payload) \<Longrightarrow>
     ws_canceled (applyControlMessage cfg payload ws) = ws_canceled ws \<union> cancels cfg e"
  by (auto simp: applyControlMessage_def isRunCanceled_def cancels_def split: option.splits)

lemma controlGroup_inj: "controlGroup v = controlGroup w \<longleftrightarrow> v = w"
  by (simp add: controlGroup_def)

text \<open>What a worker knows is what its group has read, and the groups are those of the workers that joined.\<close>

definition informed ::
    "('s \<Rightarrow> (string \<times> string list) list) \<Rightarrow> ('s \<Rightarrow> string \<Rightarrow> nat option) \<Rightarrow> worker_config \<Rightarrow> 's fleet \<Rightarrow> bool" where
  "informed entries cursor cfg f \<longleftrightarrow> (\<forall>w.
     (w \<in> ft_joined f \<longleftrightarrow> cursor (ft_stream f) (controlGroup w) \<noteq> None) \<and>
     (\<forall>n. cursor (ft_stream f) (controlGroup w) = Some n \<longrightarrow> n \<le> length (entries (ft_stream f))) \<and>
     ws_canceled (ft_workers f w) = canceled_by cfg (take (nullish (cursor (ft_stream f) (controlGroup w)) 0) (entries (ft_stream f))))"

context consumer_groups
begin

lemma turn_stream:
  assumes "cursor s (controlGroup w) = Some n"
  shows "entries (fst (control_turn cfg xreadgroup w fails (s, ws, acks))) = entries s"
    and "v \<noteq> w \<Longrightarrow> cursor (fst (control_turn cfg xreadgroup w fails (s, ws, acks))) (controlGroup v) = cursor s (controlGroup v)"
    and "cursor (fst (control_turn cfg xreadgroup w fails (s, ws, acks))) (controlGroup w) =
      Some (if \<not> fails \<and> n < length (entries s) then Suc n else n)"
  using read_entries [of "controlGroup w" s] read_other [OF assms, of "controlGroup v"] read_moves [OF assms] assms
  by (auto simp: control_turn_def controlGroup_inj split: prod.splits option.splits)

lemma turn_cancels:
  assumes "cursor s (controlGroup w) = Some n"
  shows "ws_canceled (fst (snd (control_turn cfg xreadgroup w fails (s, ws, acks)))) =
      ws_canceled ws \<union> (if \<not> fails \<and> n < length (entries s) then canceled_by cfg [entries s ! n] else {})"
proof (cases "\<not> fails \<and> n < length (entries s)")
  case True
  then have "readGroup (fst (xreadgroup (controlGroup w) s)) = entry_message (entries s ! n)"
    using read_message [OF assms] by simp
  then show ?thesis using True
    by (cases "entry_message (entries s ! n)")
      (auto simp: control_turn_def case_prod_unfold applied_cancels cancels_def)
next
  case False
  then show ?thesis using read_message [OF assms] by (auto simp: control_turn_def case_prod_unfold)
qed

lemma turn_rest:
  assumes "cursor s (controlGroup w) = Some n"
  shows "ws_stopping (fst (snd (control_turn cfg xreadgroup w fails (s, ws, acks)))) = ws_stopping ws"
    and "snd (snd (control_turn cfg xreadgroup w fails (s, ws, acks))) =
      acks @ (if \<not> fails \<and> n < length (entries s) \<and> entry_message (entries s ! n) \<noteq> None then [fst (entries s ! n)] else [])"
  using read_message [OF assms]
  by (auto simp: control_turn_def case_prod_unfold applyControlMessage_def entry_message_def split: option.splits if_splits)

lemma informed_other:
  assumes "informed entries cursor cfg f" and "ft_stream f' = ft_stream f" and "ft_joined f' = ft_joined f"
    and "\<And>w. ws_canceled (ft_workers f' w) = ws_canceled (ft_workers f w)"
  shows "informed entries cursor cfg f'"
  using assms by (simp add: informed_def)

lemma informed_turn:
  assumes "informed entries cursor cfg f" and "w \<in> ft_joined f"
  shows "informed entries cursor cfg (fleet_turn cfg xreadgroup w fails f)"
proof -
  obtain n where n: "cursor (ft_stream f) (controlGroup w) = Some n" "n \<le> length (entries (ft_stream f))"
    using assms unfolding informed_def by (metis not_None_eq)
  obtain s ws acks where t: "control_turn cfg xreadgroup w fails (ft_stream f, ft_workers f w, ft_acks f w) = (s, ws, acks)"
    by (metis prod_cases3)
  note st = turn_stream [OF n(1), where cfg = cfg and fails = fails and ws = "ft_workers f w" and acks = "ft_acks f w", unfolded t, simplified]
  have c: "ws_canceled ws = ws_canceled (ft_workers f w) \<union>
      (if \<not> fails \<and> n < length (entries (ft_stream f)) then canceled_by cfg [entries (ft_stream f) ! n] else {})"
    using turn_cancels [OF n(1), of cfg fails "ft_workers f w" "ft_acks f w"] t by simp
  have known: "ws_canceled (ft_workers f w) = canceled_by cfg (take n (entries (ft_stream f)))"
    using assms(1) n(1) by (simp add: informed_def)
  have "ws_canceled ws = canceled_by cfg (take (nullish (cursor s (controlGroup w)) 0) (entries s))"
    unfolding c known st by (auto simp: take_Suc_conv_app_nth)
  then show ?thesis
    using assms n st by (auto simp: informed_def fleet_turn_def t)
qed

lemma informed_step:
  assumes "fleet_step cfg xadd xgroup xreadgroup f f'" and "informed entries cursor cfg f"
  shows "informed entries cursor cfg f'"
  using assms(1)
proof cases
  case (published e)
  have "take (nullish (cursor (ft_stream f) (controlGroup w)) 0) (entries (ft_stream f) @ [e]) =
      take (nullish (cursor (ft_stream f) (controlGroup w)) 0) (entries (ft_stream f))" for w
    using assms(2) by (cases "cursor (ft_stream f) (controlGroup w)") (auto simp: informed_def)
  then show ?thesis using assms(2)
    by (auto simp: published informed_def xadd_entries xadd_cursor intro: le_SucI)
next
  case (joined w)
  have "cursor (ft_stream f) (controlGroup w) = None" "ws_canceled (ft_workers f w) = canceled_by cfg []"
    using assms(2) joined(2) by (auto simp: informed_def)
  then show ?thesis using assms(2) joined(1)
    by (auto simp: informed_def xgroup_entries xgroup_cursor controlGroup_inj)
next
  case (turned w fails)
  then show ?thesis using informed_turn [OF assms(2)] by simp
next
  case (claimed w i payload now)
  then show ?thesis using informed_other [OF assms(2)] by (simp add: set_worker_def claim_def)
next
  case (job w i j ev ws')
  then show ?thesis using informed_other [OF assms(2)] job_step_controllers(1) by (simp add: set_worker_def)
next
  case (stopped w)
  then show ?thesis using informed_other [OF assms(2)] by (simp add: set_worker_def stop_worker_def)
qed

lemma informed_always:
  assumes "(fleet_step cfg xadd xgroup xreadgroup)\<^sup>*\<^sup>* (new_fleet s0) f" and "cursor s0 = (\<lambda>g. None)"
  shows "informed entries cursor cfg f"
  using assms(1)
proof (induction rule: rtranclp_induct)
  case base
  show ?case using assms(2) by (simp add: informed_def new_fleet_def init_worker_def )
qed (rule informed_step)

text \<open>
  What the loop does from any position: with enough successful reads the worker knows every cancel that its group had
  not read, and has acknowledged every message among them once, in order.
\<close>

lemma loop_reads:
  assumes "cursor s (controlGroup w) = Some n" and "n \<le> length (entries s)" and "\<not> ws_stopping ws"
    and "length (entries s) \<le> n + length (filter Not fails)"
    and "controlLoop cfg xreadgroup w fails (s, ws, acks) = (s', ws', acks')"
  shows "entries s' = entries s \<and> (\<forall>v. v \<noteq> w \<longrightarrow> cursor s' (controlGroup v) = cursor s (controlGroup v)) \<and>
    cursor s' (controlGroup w) = Some (length (entries s)) \<and>
    ws_canceled ws' = ws_canceled ws \<union> canceled_by cfg (drop n (entries s)) \<and>
    acks' = acks @ map fst (filter (\<lambda>e. entry_message e \<noteq> None) (drop n (entries s)))"
  using assms
proof (induction fails arbitrary: s ws acks n)
  case Nil
  then show ?case by simp
next
  case (Cons fails rest)
  obtain s1 ws1 acks1 where t: "control_turn cfg xreadgroup w fails (s, ws, acks) = (s1, ws1, acks1)"
    by (metis prod_cases3)
  note st = turn_stream [OF Cons.prems(1), where cfg = cfg and fails = fails and ws = ws and acks = acks, unfolded t, simplified]
  have c: "ws_canceled ws1 = ws_canceled ws \<union> (if \<not> fails \<and> n < length (entries s) then cancels cfg (entries s ! n) else {})"
    using turn_cancels [OF Cons.prems(1), of cfg fails ws acks] t by simp
  have k: "\<not> ws_stopping ws1"
    and a: "acks1 = acks @ (if \<not> fails \<and> n < length (entries s) \<and> entry_message (entries s ! n) \<noteq> None then [fst (entries s ! n)] else [])"
    using turn_rest [OF Cons.prems(1), of cfg fails ws acks] t Cons.prems(3) by simp_all
  show ?case
  proof (cases "\<not> fails \<and> n < length (entries s)")
    case True
    have d: "drop n (entries s) = entries s ! n # drop (Suc n) (entries s)"
      using True Cons_nth_drop_Suc by metis
    show ?thesis
      using Cons.IH [of s1 "Suc n" ws1 acks1] True Cons.prems t st c k a d by (auto simp: Un_assoc)
  next
    case False
    then show ?thesis using Cons.IH [of s1 n ws1 acks1] Cons.prems t st c k a by (auto split: if_splits)
  qed
qed

end

section \<open>The properties of the control stream\<close>

text \<open>
  Redis keeps the position of a group that exists already: a worker restarted under the same identity knows nothing of
  the cancels that its former process has read, although its group was created at the beginning of the stream.
\<close>

lemma restart_forgets:
  assumes "rs_cursor s (controlGroup w) = Some n" and "n \<le> length (rs_entries s)"
    and "length (rs_entries s) \<le> n + length (filter Not fails)"
  shows "ws_canceled (fst (snd (controlLoop cfg redis_xreadgroup w fails
      (redis_xgroup (controlGroup w) s, init_worker, acks)))) = canceled_by cfg (drop n (rs_entries s))"
proof -
  let ?s = "redis_xgroup (controlGroup w) s"
  obtain s' ws' acks' where loop: "controlLoop cfg redis_xreadgroup w fails (?s, init_worker, acks) = (s', ws', acks')"
    by (metis prod_cases3)
  have "rs_cursor ?s (controlGroup w) = Some n" "rs_entries ?s = rs_entries s"
    using assms(1) by (simp_all add: redis_xgroup_def)
  then show ?thesis using redis.loop_reads [OF _ _ _ _ loop, of n] assms loop by (simp add: init_worker_def)
qed


text \<open>The demonstration fleet: a cancel on the stream before the worker joins.\<close>

definition demo_fleet :: "redis_stream fleet" where
  "demo_fleet = (new_fleet \<lparr>rs_entries = [(''1-0'', [''payload'', ''r''])], rs_cursor = (\<lambda>g. None)\<rparr>)
     \<lparr>ft_stream := redis_xgroup (controlGroup ''w'')
        \<lparr>rs_entries = [(''1-0'', [''payload'', ''r''])], rs_cursor = (\<lambda>g. None)\<rparr>, ft_joined := {''w''}\<rparr>"


end
