(* ===== verification/Shutdown.thy ===== *)
theory Shutdown
  imports ControlStream
begin

text \<open>
  How a worker process starts and ends: the rest of the stream client of \<open>worker/src/redis-streams.ts\<close>, the drain of
  \<open>stop\<close> in \<open>worker/src/worker.ts\<close>, and the browser factory, the signals and the start of \<open>worker/src/main.ts\<close>.
\<close>

section \<open>The stream client\<close>

text \<open>\<open>publish\<close> and \<open>ack\<close>, given what Redis answers; the counters, with \<open>number\<close> for \<open>Number(...)\<close>.\<close>

definition publish_answer :: "string \<Rightarrow> string option \<Rightarrow> string + string" where
  "publish_answer stream i =
     (if truthy i then Inr (nullish i []) else Inl (''XADD to '' @ stream @ '' returned no id''))"

definition ack_answer :: "int \<Rightarrow> bool" where
  "ack_answer n \<longleftrightarrow> 0 \<le> n"

definition pendingCount_answer :: "('a \<Rightarrow> int) \<Rightarrow> 'a option list option \<Rightarrow> int" where
  "pendingCount_answer number summary =
     (case summary of
        Some (Some n # _) \<Rightarrow> number n
      | _ \<Rightarrow> 0)"

section \<open>Draining\<close>

text \<open>
  The loop of \<open>stop\<close>: \<open>readings i\<close> is what its \<open>i\<close>-th test finds, the number of jobs in flight and the time; between
  two tests it waits for all jobs or for 50 ms.  The answer is the number of waits.
\<close>

partial_function (option) drain :: "int \<Rightarrow> (nat \<Rightarrow> nat \<times> int) \<Rightarrow> nat \<Rightarrow> nat option" where
  "drain deadline readings i =
     (if 0 < fst (readings i) \<and> snd (readings i) < deadline then drain deadline readings (Suc i) else Some i)"

datatype stop_call =
    ClearHeartbeat
  | AbortSignals
  | AwaitReadLoop
  | AwaitControlLoop
  | WaitForJobs
  | ReportAbandoned nat
  | OnShutdown
  | ReportShutdownError string
  | DisconnectClient
  | DisconnectControlClient
  | ReportStopped

text \<open>
  \<open>stop\<close>: \<open>timer\<close> and \<open>started\<close> say whether there is a heartbeat timer and whether the loops run; \<open>onShutdown\<close> is the
  callback, if configured, with the error that it throws, if any; \<open>t0\<close> is the time after both loops have ended.
\<close>

definition stop_calls ::
    "bool \<Rightarrow> bool \<Rightarrow> string option option \<Rightarrow> nat \<Rightarrow> nat \<Rightarrow> stop_call list" where
  "stop_calls timer started onShutdown waits abandoned =
     (if timer then [ClearHeartbeat] else []) @ [AbortSignals] @
     (if started then [AwaitReadLoop, AwaitControlLoop] else []) @
     replicate waits WaitForJobs @
     (if 0 < abandoned then [ReportAbandoned abandoned] else []) @
     (case onShutdown of
        None \<Rightarrow> []
      | Some None \<Rightarrow> [OnShutdown]
      | Some (Some err) \<Rightarrow> [OnShutdown, ReportShutdownError err]) @
     [DisconnectClient, DisconnectControlClient, ReportStopped]"

definition worker_stop ::
    "int \<Rightarrow> bool \<Rightarrow> bool \<Rightarrow> string option option \<Rightarrow> int \<Rightarrow> (nat \<Rightarrow> nat \<times> int) \<Rightarrow> stop_call list option" where
  "worker_stop drainTimeoutMs timer started onShutdown t0 readings =
     map_option (\<lambda>k. stop_calls timer started onShutdown k (fst (readings k)))
       (drain (t0 + drainTimeoutMs) readings 0)"

lemma first_such:
  assumes "\<exists>k \<le> (m :: nat). P k"
  shows "\<exists>k \<le> m. P k \<and> (\<forall>i < k. \<not> P i)"
proof -
  obtain k where "k \<le> m" "P k" using assms by blast
  moreover from this have "(LEAST k. P k) \<le> m" using Least_le [of P k] by simp
  ultimately show ?thesis using LeastI [of P k] not_less_Least [of _ P] by blast
qed

lemma drain_reaches:
  assumes "i \<le> k" and "\<And>j. i \<le> j \<Longrightarrow> j < k \<Longrightarrow> 0 < fst (readings j) \<and> snd (readings j) < deadline"
    and "fst (readings k) = 0 \<or> deadline \<le> snd (readings k)"
  shows "drain deadline readings i = Some k"
  using assms
proof (induction "k - i" arbitrary: i)
  case 0
  then show ?case by (subst drain.simps) auto
next
  case (Suc n)
  then have "drain deadline readings (Suc i) = Some k" by simp
  then show ?case using Suc.prems(2) [of i] Suc.hyps(2) by (subst drain.simps) simp
qed

text \<open>
  The drain always ends: no job is added once the loops have ended, so a wait shorter than 50 ms has emptied the set
  of jobs; at most one wait is made for each 50 ms of the timeout, one more for a last incomplete slice.
\<close>

lemma drain_ends:
  assumes "\<And>i. fst (readings (Suc i)) = 0 \<or> snd (readings i) + 50 \<le> snd (readings (Suc i))"
    and "t0 \<le> snd (readings 0)"
  shows "\<exists>k. drain (t0 + timeout) readings 0 = Some k \<and> int k \<le> max 0 ((timeout + 49) div 50) \<and>
    (fst (readings k) = 0 \<or> t0 + timeout \<le> snd (readings k))"
proof -
  let ?done = "\<lambda>k. fst (readings k) = 0 \<or> t0 + timeout \<le> snd (readings k)"
  define m where "m = nat ((timeout + 49) div 50)"
  have late: "t0 + 50 * int j \<le> snd (readings j)" if "\<And>i. i < j \<Longrightarrow> \<not> ?done i" "fst (readings j) \<noteq> 0" for j
    using that
  proof (induction j)
    case 0
    then show ?case using assms(2) by simp
  next
    case (Suc j)
    then have "t0 + 50 * int j \<le> snd (readings j)" by auto
    then show ?case using assms(1) [of j] Suc.prems(2) by simp
  qed
  have "\<exists>k \<le> m. ?done k"
  proof (rule ccontr)
    assume no: "\<not> (\<exists>k \<le> m. ?done k)"
    then have "t0 + 50 * int m \<le> snd (readings m)" using late [of m] by simp
    moreover have "timeout \<le> 50 * int m"
      using div_mult_mod_eq [of "timeout + 49" 50] pos_mod_bound [of 50 "timeout + 49"] unfolding m_def by linarith
    ultimately show False using no by auto
  qed
  then obtain k where k: "?done k" "k \<le> m" and least: "\<And>i. i < k \<Longrightarrow> \<not> ?done i"
    using first_such [of m ?done] by blast
  have "drain (t0 + timeout) readings 0 = Some k"
    using k(1) least by (intro drain_reaches) (simp_all add: not_le)
  then show ?thesis using k by (auto simp: m_def)
qed

section \<open>The process\<close>

text \<open>The factory of \<open>main.ts\<close>: \<open>session\<close> is what opening a Browserbase session ends with.\<close>

definition browser_factory :: "environ \<Rightarrow> string \<Rightarrow> string + string option \<Rightarrow> string + string option" where
  "browser_factory env affinityKey session =
     (if \<not> truthy (env ''BROWSERBASE_API_KEY'')
      then Inl (''BROWSERBASE_API_KEY is not set on this worker; cannot open a browser session for '' @ affinityKey)
      else session)"

datatype process_call =
    LogSignal string
  | StopWorker
  | DisconnectPublisher
  | CloseLeaseStore
  | ExitProcess int
  | ConnectPublisher
  | LogRunning
  | LogStartFailed string

text \<open>
  \<open>shutdown\<close>: the calls of one signal and the flag; what disconnecting the publisher and closing the store throw is
  dropped.  A second signal does nothing.
\<close>

definition shutdown :: "string \<Rightarrow> bool \<times> process_call list \<Rightarrow> bool \<times> process_call list" where
  "shutdown signal = (\<lambda>(shuttingDown, calls).
     if shuttingDown then (shuttingDown, calls)
     else (True, calls @ [LogSignal signal, StopWorker, DisconnectPublisher, CloseLeaseStore, ExitProcess 0]))"

definition started :: "string option \<Rightarrow> process_call list" where
  "started failure =
     (case failure of
        None \<Rightarrow> [ConnectPublisher, LogRunning]
      | Some err \<Rightarrow> [LogStartFailed err, ExitProcess 1])"

text \<open>However many signals arrive, the process shuts down once.\<close>

lemma one_shutdown:
  "fold shutdown (s # signals) (False, calls) =
     (True, calls @ [LogSignal s, StopWorker, DisconnectPublisher, CloseLeaseStore, ExitProcess 0])"
proof -
  have "fold shutdown signals (True, cs) = (True, cs)" for cs
    by (induction signals) (simp_all add: shutdown_def)
  then show ?thesis by (simp add: shutdown_def)
qed

end
