(* ===== verification/Logger.thy ===== *)
theory Logger
  imports Json
begin

text \<open>
  The structured logger of the worker, \<open>worker/src/logger.ts\<close>: how a log line becomes a record, and what is
  redacted.  A record is the list of its fields; that \<open>JSON.stringify\<close> writes fields with integer names
  first is left out.
\<close>

section \<open>Secret keys\<close>

definition SECRET_KEY_PATTERNS :: "string list" where
  "SECRET_KEY_PATTERNS =
     [''password'', ''secret'', ''token'', ''credential'', ''authorization'', ''api_key'', ''apikey'', ''private_key'']"

definition isSecretKey :: "string \<Rightarrow> bool" where
  "isSecretKey key = list_ex (str_includes (to_lower key)) SECRET_KEY_PATTERNS"

definition REDACTED :: string where "REDACTED = ''[REDACTED]''"

section \<open>Redacting free text\<close>

text \<open>
  The three regular expressions, each as a matcher at one position: no part of them can match in two ways,
  so the longest runs are the only candidates.
\<close>

definition is_letter :: "char \<Rightarrow> bool" where
  "is_letter c \<longleftrightarrow> (let n = (of_char c :: nat) in 65 \<le> n \<and> n \<le> 90 \<or> 97 \<le> n \<and> n \<le> 122)"

definition is_alnum :: "char \<Rightarrow> bool" where
  "is_alnum c \<longleftrightarrow> is_letter c \<or> (let n = (of_char c :: nat) in 48 \<le> n \<and> n \<le> 57)"

definition key_char :: "char \<Rightarrow> bool" where
  "key_char c \<longleftrightarrow> is_alnum c \<or> c \<in> set ''_.-''"

definition quote_mark :: char where "quote_mark = CHR 0x22"

text \<open>A quoted value, or else the characters up to the next white space.\<close>

definition match_value :: "string \<Rightarrow> (string \<times> string) option" where
  "match_value s =
     (case s of
        [] \<Rightarrow> None
      | c # cs \<Rightarrow>
          (case dropWhile (\<lambda>x. x \<noteq> quote_mark) cs of
             q # rest \<Rightarrow>
               if c = quote_mark then Some (c # takeWhile (\<lambda>x. x \<noteq> quote_mark) cs @ [q], rest)
               else if js_space c then None else Some (takeWhile (\<lambda>x. \<not> js_space x) s, dropWhile (\<lambda>x. \<not> js_space x) s)
           | [] \<Rightarrow> if js_space c then None else Some (takeWhile (\<lambda>x. \<not> js_space x) s, dropWhile (\<lambda>x. \<not> js_space x) s)))"

definition match_pair :: "string \<Rightarrow> (string \<times> string \<times> string) option" where
  "match_pair s =
     (case (takeWhile key_char s, dropWhile key_char s) of
        (k # ks, e # cs) \<Rightarrow>
          if e = CHR ''='' then map_option (\<lambda>(v, rest). (k # ks, v, rest)) (match_value cs) else None
      | _ \<Rightarrow> None)"

definition match_bearer :: "string \<Rightarrow> string option" where
  "match_bearer s =
     (let rest = drop 6 s;
          rest2 = dropWhile js_space rest;
          token_char = (\<lambda>c. is_alnum c \<or> c \<in> set ''._~+/=-'')
      in if to_lower (take 6 s) = ''bearer'' \<and> rest2 \<noteq> rest \<and> takeWhile token_char rest2 \<noteq> []
         then Some (dropWhile token_char rest2) else None)"

definition match_url :: "string \<Rightarrow> (string \<times> string) option" where
  "match_url s =
     (let scheme_char = (\<lambda>c. is_alnum c \<or> c \<in> set ''+.-'');
          user_char = (\<lambda>c. c \<notin> set '':/@'' \<and> \<not> js_space c);
          pass_char = (\<lambda>c. c \<noteq> CHR ''@'' \<and> \<not> js_space c);
          rest = dropWhile scheme_char s;
          rest2 = dropWhile user_char (drop 3 rest);
          rest3 = dropWhile pass_char (drop 1 rest2)
      in if s \<noteq> [] \<and> is_letter (hd s) \<and> take 3 rest = ''://'' \<and> takeWhile user_char (drop 3 rest) \<noteq> [] \<and>
            take 1 rest2 = '':'' \<and> takeWhile pass_char (drop 1 rest2) \<noteq> [] \<and> take 1 rest3 = ''@''
         then Some (takeWhile scheme_char s @ ''://'' @ takeWhile user_char (drop 3 rest) @ '':'', drop 1 rest3) else None)"

text \<open>\<open>text.replace(re, f)\<close> with the global flag.\<close>

lemma dropWhile_shorter: "length (dropWhile p xs) \<le> length xs"
  by (rule length_dropWhile_le)

lemma match_value_shorter: "match_value s = Some (v, rest) \<Longrightarrow> length rest < length s"
proof -
  assume m: "match_value s = Some (v, rest)"
  then obtain c cs where s: "s = c # cs" by (cases s) (auto simp: match_value_def)
  show ?thesis
    using m dropWhile_shorter [of "\<lambda>x. x \<noteq> quote_mark" cs] dropWhile_shorter [of "\<lambda>x. \<not> js_space x" cs]
    by (auto simp: match_value_def s split: list.splits if_splits)
qed

lemma match_pair_shorter: "match_pair s = Some (k, v, rest) \<Longrightarrow> length rest < length s"
proof -
  assume m: "match_pair s = Some (k, v, rest)"
  then obtain x xs cs where p: "takeWhile key_char s = x # xs" "dropWhile key_char s = CHR ''='' # cs" "match_value cs = Some (v, rest)"
    by (auto simp: match_pair_def split: list.splits if_splits)
  then show ?thesis using match_value_shorter [OF p(3)] dropWhile_shorter [of key_char s] by simp
qed

function redact_pairs :: "string \<Rightarrow> string" where
  "redact_pairs s =
     (case match_pair s of
        Some (key, v, rest) \<Rightarrow> key @ ''='' @ (if isSecretKey key then REDACTED else v) @ redact_pairs rest
      | None \<Rightarrow> (case s of [] \<Rightarrow> [] | c # cs \<Rightarrow> c # redact_pairs cs))"
  by pat_completeness auto

termination
  by (relation "measure length") (auto dest: match_pair_shorter)

lemma match_bearer_shorter: "match_bearer s = Some rest \<Longrightarrow> length rest < length s"
proof -
  assume m: "match_bearer s = Some rest"
  have le: "length (dropWhile p (dropWhile q (drop 6 s))) \<le> length s - 6" for p q
    using dropWhile_shorter [of p "dropWhile q (drop 6 s)"] dropWhile_shorter [of q "drop 6 s"] by simp
  have "length (to_lower (take 6 s)) = 6" using m by (auto simp: match_bearer_def Let_def split: if_splits)
  then have "6 \<le> length s" by (simp add: to_lower_def)
  moreover have "length rest \<le> length s - 6"
    using m le by (auto simp: match_bearer_def Let_def split: if_splits)
  ultimately show ?thesis by simp
qed

function redact_bearer :: "string \<Rightarrow> string" where
  "redact_bearer s =
     (case match_bearer s of
        Some rest \<Rightarrow> ''Bearer '' @ REDACTED @ redact_bearer rest
      | None \<Rightarrow> (case s of [] \<Rightarrow> [] | c # cs \<Rightarrow> c # redact_bearer cs))"
  by pat_completeness auto

termination
  by (relation "measure length") (auto dest: match_bearer_shorter)

lemma match_url_shorter: "match_url s = Some (p, rest) \<Longrightarrow> length rest < length s"
proof -
  assume m: "match_url s = Some (p, rest)"
  have le: "length (drop 1 (dropWhile f (drop 1 (dropWhile g (drop 3 (dropWhile h s)))))) \<le> length s - 3" for f g h
    using dropWhile_shorter [of f "drop 1 (dropWhile g (drop 3 (dropWhile h s)))"]
      dropWhile_shorter [of g "drop 3 (dropWhile h s)"] dropWhile_shorter [of h s] by simp
  have "s \<noteq> [] \<and> length rest \<le> length s - 3"
    using m le by (auto simp: match_url_def Let_def split: if_splits)
  then show ?thesis by (cases s) auto
qed

function redact_urls :: "string \<Rightarrow> string" where
  "redact_urls s =
     (case match_url s of
        Some (p, rest) \<Rightarrow> p @ REDACTED @ ''@'' @ redact_urls rest
      | None \<Rightarrow> (case s of [] \<Rightarrow> [] | c # cs \<Rightarrow> c # redact_urls cs))"
  by pat_completeness auto

termination
  by (relation "measure length") (auto dest: match_url_shorter)

declare redact_pairs.simps [simp del] redact_bearer.simps [simp del] redact_urls.simps [simp del]

definition redactSecrets :: "string \<Rightarrow> string" where
  "redactSecrets s = redact_urls (redact_bearer (redact_pairs s))"

section \<open>Parsing a line\<close>

text \<open>The non-empty parts of \<open>s.split(/\s+/)\<close>.\<close>

function split_words :: "string \<Rightarrow> string list" where
  "split_words s =
     (case dropWhile js_space s of
        [] \<Rightarrow> []
      | c # cs \<Rightarrow> takeWhile (\<lambda>x. \<not> js_space x) (c # cs) # split_words (dropWhile (\<lambda>x. \<not> js_space x) (c # cs)))"
  by pat_completeness auto

termination
proof (relation "measure length")
  fix s :: string and c cs
  assume d: "dropWhile js_space s = c # cs"
  then have "\<not> js_space c" by (simp add: dropWhile_eq_Cons_conv)
  then have "length (dropWhile (\<lambda>x. \<not> js_space x) (c # cs)) \<le> length cs" using dropWhile_shorter by auto
  also have "\<dots> < length s" using dropWhile_shorter [of js_space s] d by simp
  finally show "(dropWhile (\<lambda>x. \<not> js_space x) (c # cs), s) \<in> measure length" by simp
qed simp

declare split_words.simps [simp del]

text \<open>\<open>/^\[([^\]]+)\]\s*/\<close>: the bracketed prefix and what follows it.\<close>

definition match_bracket :: "string \<Rightarrow> (string \<times> string) option" where
  "match_bracket s =
     (case s of
        c # cs \<Rightarrow>
          (case (takeWhile (\<lambda>x. x \<noteq> CHR '']'') cs, dropWhile (\<lambda>x. x \<noteq> CHR '']'') cs) of
             (i # is, e # rest) \<Rightarrow> if c = CHR ''['' then Some (i # is, dropWhile js_space rest) else None
           | _ \<Rightarrow> None)
      | [] \<Rightarrow> None)"

text \<open>\<open>obj[k] = v\<close> with a value that is not an object.\<close>

definition put_field :: "string \<Rightarrow> 'v \<Rightarrow> (string \<times> 'v) list \<Rightarrow> (string \<times> 'v) list" where
  "put_field k v fs = (if k = ''__proto__'' then fs else AList.update k v fs)"

definition unquoted :: "string \<Rightarrow> string" where
  "unquoted v = (if starts_with v [quote_mark] \<and> ends_with v [quote_mark] \<and> length v \<ge> 2 then butlast (tl v) else v)"

definition take_token :: "string \<Rightarrow> string list \<times> (string \<times> string) list \<Rightarrow> string list \<times> (string \<times> string) list" where
  "take_token tok = (\<lambda>(parts, fields).
     (case (takeWhile (\<lambda>c. c \<noteq> CHR ''='') tok, dropWhile (\<lambda>c. c \<noteq> CHR ''='') tok) of
        (k # ks, e # value) \<Rightarrow>
          if list_all key_char (k # ks) then (parts, put_field (k # ks) (unquoted value) fields)
          else (parts @ [tok], fields)
      | _ \<Rightarrow> (if tok \<noteq> [] then parts @ [tok] else parts, fields)))"

definition parseWorkerLine :: "string \<Rightarrow> string option \<times> string \<times> (string \<times> string) list" where
  "parseWorkerLine line =
     (let (workerId, rest) =
        (case match_bracket line of
           Some (i, rest) \<Rightarrow> (if i \<noteq> ''worker'' then Some i else None, rest)
         | None \<Rightarrow> (None, line));
          (parts, fields) = fold take_token (split_words rest) ([], [])
      in (workerId, join '' '' parts, fields))"

section \<open>Records\<close>

definition emit_field :: "string \<Rightarrow> jsval \<Rightarrow> jsval" where
  "emit_field k v = (case v of JStr s \<Rightarrow> if isSecretKey k then JStr REDACTED else v | _ \<Rightarrow> v)"

definition emit :: "string \<Rightarrow> int \<Rightarrow> string \<Rightarrow> (string \<times> jsval) list \<Rightarrow> (string \<times> jsval) list" where
  "emit service now level fields =
     fold (\<lambda>(k, v). put_field k (emit_field k v)) fields
       [(''ts_ms'', JNum (int_text now)), (''level'', JStr level), (''service'', JStr service)]"

definition log_line :: "string \<Rightarrow> int \<Rightarrow> string \<Rightarrow> (string \<times> jsval) list" where
  "log_line service now line =
     (case parseWorkerLine line of
        (workerId, t, fields) \<Rightarrow>
          let merged = map (\<lambda>(k, v). (k, JStr v)) fields;
              merged = (if truthy workerId then AList.update ''worker_id'' (JStr (nullish workerId [])) merged else merged);
              merged = AList.update ''msg'' (JStr (redactSecrets t)) merged
          in emit service now ''info'' merged)"

definition logEvent :: "string \<Rightarrow> int \<Rightarrow> string \<Rightarrow> string \<Rightarrow> (string \<times> jsval) list \<Rightarrow> (string \<times> jsval) list" where
  "logEvent service now level event fields =
     emit service now level (fold (\<lambda>(k, v). AList.update k v) fields [(''event'', JStr event)])"

section \<open>What a line cannot show\<close>

definition is_word :: "string \<Rightarrow> bool" where
  "is_word t \<longleftrightarrow> t \<noteq> [] \<and> list_all (\<lambda>c. \<not> js_space c) t"

lemma space_is_space [simp]: "js_space CHR '' ''"
  by (simp add: js_space_def)

lemma word_split:
  assumes "is_word t"
  shows "takeWhile (\<lambda>x. \<not> js_space x) (t @ CHR '' '' # s) = t" "dropWhile (\<lambda>x. \<not> js_space x) (t @ CHR '' '' # s) = CHR '' '' # s"
    "takeWhile (\<lambda>x. \<not> js_space x) t = t" "dropWhile (\<lambda>x. \<not> js_space x) t = []" "\<exists>c cs. t = c # cs \<and> \<not> js_space c"
  using assms by (auto simp: is_word_def list_all_iff takeWhile_append neq_Nil_conv)

lemma split_words_space [simp]: "split_words (CHR '' '' # s) = split_words s"
  by (simp add: split_words.simps [of "CHR '' '' # s"] split_words.simps [of s])

lemma split_words_drop [simp]: "split_words (dropWhile js_space s) = split_words s"
  by (simp add: split_words.simps [of s] split_words.simps [of "dropWhile js_space s"] dropWhile_idem)

lemma split_words_step:
  assumes "dropWhile js_space s = s" and "s \<noteq> []"
  shows "split_words s = takeWhile (\<lambda>x. \<not> js_space x) s # split_words (dropWhile (\<lambda>x. \<not> js_space x) s)"
  using assms by (subst split_words.simps) (simp split: list.split)

lemma split_word:
  assumes "is_word t"
  shows "split_words t = [t]" and "split_words (t @ CHR '' '' # s) = t # split_words s"
proof -
  have d: "dropWhile js_space (t @ x) = t @ x" "t @ x \<noteq> []" for x using word_split(5) [OF assms] by auto
  show "split_words t = [t]"
    using split_words_step [of t] d [of "[]"] word_split(3,4) [OF assms] by (simp add: split_words.simps [of "[]"])
  show "split_words (t @ CHR '' '' # s) = t # split_words s"
    using split_words_step [OF d, of "CHR '' '' # s"] word_split(1,2) [OF assms] by simp
qed

lemma split_words_join: "list_all is_word ts \<Longrightarrow> split_words (join '' '' ts) = ts"
proof (induction "'' ''" ts rule: join.induct)
  case 1
  then show ?case by (simp add: split_words.simps)
next
  case (2 t)
  then show ?case by (simp add: split_word)
next
  case (3 t u us)
  then show ?case using split_word(2) [of t "join '' '' (u # us)"] by simp
qed

text \<open>Fields that agree but for the values of secret keys.\<close>

definition same_shown :: "(string \<times> string) list \<Rightarrow> (string \<times> string) list \<Rightarrow> bool" where
  "same_shown = list_all2 (\<lambda>(k, v) (k', v'). k = k' \<and> (v = v' \<or> isSecretKey k))"

lemma same_shown_put:
  assumes "same_shown fs gs" and "v = v' \<or> isSecretKey k"
  shows "same_shown (put_field k v fs) (put_field k v' gs)"
proof -
  have "same_shown (AList.update k v fs) (AList.update k v' gs)"
    using assms(1) unfolding same_shown_def by (induction rule: list_all2_induct) (use assms(2) in auto)
  then show ?thesis using assms(1) by (simp add: put_field_def)
qed

text \<open>Two words that are the same secret key with different values.\<close>

definition hidden_pair :: "string \<Rightarrow> string \<Rightarrow> bool" where
  "hidden_pair a b \<longleftrightarrow> (\<exists>key v v'. a = key @ ''='' @ v \<and> b = key @ ''='' @ v' \<and> key \<noteq> [] \<and> list_all key_char key \<and> isSecretKey key)"

lemma take_pair:
  assumes "key \<noteq> []" and "list_all key_char key"
  shows "take_token (key @ ''='' @ v) (parts, fields) = (parts, put_field key (unquoted v) fields)"
proof -
  have "\<not> key_char CHR ''=''" by code_simp
  then have ne: "\<forall>c \<in> set key. c \<noteq> CHR ''=''" using assms(2) by (auto simp: list_all_iff)
  then have "takeWhile (\<lambda>c. c \<noteq> CHR ''='') (key @ ''='' @ v) = key"
    "dropWhile (\<lambda>c. c \<noteq> CHR ''='') (key @ ''='' @ v) = CHR ''='' # v"
    by (induction key) auto
  then show ?thesis using assms by (cases key) (simp_all add: take_token_def)
qed

lemma take_token_cases:
  "(\<exists>q. \<forall>fs. take_token t (parts, fs) = (q, fs)) \<or> (\<exists>k v. \<forall>fs. take_token t (parts, fs) = (parts, put_field k v fs))"
proof -
  consider (pair) k ks e v where "takeWhile (\<lambda>c. c \<noteq> CHR ''='') t = k # ks" "dropWhile (\<lambda>c. c \<noteq> CHR ''='') t = e # v"
      "list_all key_char (k # ks)"
    | (word) "takeWhile (\<lambda>c. c \<noteq> CHR ''='') t = [] \<or> dropWhile (\<lambda>c. c \<noteq> CHR ''='') t = [] \<or>
        \<not> list_all key_char (takeWhile (\<lambda>c. c \<noteq> CHR ''='') t)"
    by (metis list.exhaust)
  then show ?thesis
  proof cases
    case pair
    then have "take_token t (parts, fs) = (parts, put_field (k # ks) (unquoted v) fs)" for fs
      by (simp add: take_token_def)
    then show ?thesis by blast
  next
    case word
    then have "take_token t (parts, fs) = (if t \<noteq> [] then parts @ [t] else parts, fs)" for fs
    proof -
      obtain k e where ke: "takeWhile (\<lambda>c. c \<noteq> CHR ''='') t = k" "dropWhile (\<lambda>c. c \<noteq> CHR ''='') t = e" by simp
      have "k = [] \<or> e = [] \<or> \<not> list_all key_char k" using word unfolding ke .
      moreover have "t = [] \<Longrightarrow> k = []" using ke(1) by auto
      ultimately show ?thesis unfolding take_token_def ke by (cases k; cases e) auto
    qed
    then show ?thesis by blast
  qed
qed

lemma same_shown_words:
  "list_all2 (\<lambda>a b. a = b \<or> hidden_pair a b) ts us \<Longrightarrow> same_shown fs gs \<Longrightarrow>
   \<exists>parts' fs' gs'. fold take_token ts (parts, fs) = (parts', fs') \<and> fold take_token us (parts, gs) = (parts', gs') \<and>
     same_shown fs' gs'"
proof (induction arbitrary: parts fs gs rule: list_all2_induct)
  case (Cons t ts u us)
  have "\<exists>parts' fs' gs'. take_token t (parts, fs) = (parts', fs') \<and> take_token u (parts, gs) = (parts', gs') \<and>
      same_shown fs' gs'"
  proof (cases "t = u")
    case True
    then show ?thesis using take_token_cases [of t parts] Cons.prems same_shown_put [OF Cons.prems] by (metis (no_types))
  next
    case False
    then obtain key v v' where "t = key @ ''='' @ v" "u = key @ ''='' @ v'" "key \<noteq> []" "list_all key_char key" "isSecretKey key"
      using Cons.hyps(1) by (auto simp: hidden_pair_def)
    then show ?thesis using take_pair [of key] same_shown_put [OF Cons.prems] by simp
  qed
  then show ?case using Cons.IH by auto
qed simp

lemma bracket_line:
  assumes "w \<noteq> []" and "CHR '']'' \<notin> set w"
  shows "match_bracket (''['' @ w @ ''] '' @ s) = Some (w, dropWhile js_space s)"
proof -
  have "takeWhile (\<lambda>x. x \<noteq> CHR '']'') (w @ ''] '' @ s) = w" "dropWhile (\<lambda>x. x \<noteq> CHR '']'') (w @ ''] '' @ s) = ''] '' @ s"
    using assms(2) by (induction w) auto
  then show ?thesis using assms(1) by (cases w) (simp_all add: match_bracket_def)
qed

lemma same_shown_fields:
  "same_shown fs gs \<Longrightarrow> map (\<lambda>(k, v). (k, emit_field k (JStr v))) fs = map (\<lambda>(k, v). (k, emit_field k (JStr v))) gs"
  unfolding same_shown_def by (induction rule: list_all2_induct) (auto simp: emit_field_def)

lemma fold_emit:
  "fold (\<lambda>(k, v). put_field k (emit_field k v)) fs r = fold (\<lambda>(k, v). put_field k v) (map (\<lambda>(k, v). (k, emit_field k v)) fs) r"
  by (induction fs arbitrary: r) auto

lemma map_update: "map (\<lambda>(k, v). (k, f k v)) (AList.update j x fs) = AList.update j (f j x) (map (\<lambda>(k, v). (k, f k v)) fs)"
  by (induction fs) auto

text \<open>
  C34. A logged line never depends on a secret: two lines of a worker that differ only in the values of words
  \<open>key=value\<close> with a secret key give the very same record.
\<close>

theorem log_hides_secrets:
  assumes "w \<noteq> []" and "CHR '']'' \<notin> set w" and "list_all is_word ts" and "list_all is_word us"
    and "list_all2 (\<lambda>a b. a = b \<or> hidden_pair a b) ts us"
  shows "log_line service now (''['' @ w @ ''] '' @ join '' '' ts) = log_line service now (''['' @ w @ ''] '' @ join '' '' us)"
proof -
  obtain parts fs gs where f: "fold take_token ts ([], []) = (parts, fs)" "fold take_token us ([], []) = (parts, gs)" "same_shown fs gs"
    using same_shown_words [OF assms(5), of "[]" "[]" "[]"] by (auto simp: same_shown_def)
  have e: "map (\<lambda>(k, v). (k, emit_field k v)) (map (\<lambda>(k, v). (k, JStr v)) fs) =
      map (\<lambda>(k, v). (k, emit_field k v)) (map (\<lambda>(k, v). (k, JStr v)) gs)"
    using same_shown_fields [OF f(3)] by (simp add: comp_def case_prod_unfold)
  have p: "parseWorkerLine (''['' @ w @ ''] '' @ join '' '' ts) = (if w \<noteq> ''worker'' then Some w else None, join '' '' parts, fs)"
    "parseWorkerLine (''['' @ w @ ''] '' @ join '' '' us) = (if w \<noteq> ''worker'' then Some w else None, join '' '' parts, gs)"
    unfolding parseWorkerLine_def bracket_line [OF assms(1,2)] using f assms(3,4)
    by (simp_all add: split_words_join Let_def)
  show ?thesis
    unfolding log_line_def p emit_def fold_emit by (simp add: Let_def map_update e del: map_map)
qed


lemma emit_keeps:
  assumes "\<And>k s. (k, JStr s) \<in> set r \<Longrightarrow> isSecretKey k \<Longrightarrow> s = REDACTED"
  shows "(k, JStr s) \<in> set (fold (\<lambda>(k, v). put_field k (emit_field k v)) fs r) \<Longrightarrow> isSecretKey k \<Longrightarrow> s = REDACTED"
  using assms
proof (induction fs arbitrary: r)
  case (Cons f fs)
  obtain j v where f: "f = (j, v)" by (cases f)
  have sub: "set (put_field j (emit_field j v) r) \<subseteq> insert (j, emit_field j v) (set r)"
    using set_update_subset [of j "emit_field j v" r] by (auto simp: put_field_def)
  have "x = REDACTED" if "(i, JStr x) \<in> set (put_field j (emit_field j v) r)" "isSecretKey i" for i x
  proof (cases "(i, JStr x) \<in> set r")
    case True
    then show ?thesis using Cons.prems(3) that(2) by blast
  next
    case False
    then have "i = j" "emit_field j v = JStr x" using sub that(1) by auto
    then show ?thesis using that(2) by (cases v) (auto simp: emit_field_def)
  qed
  then show ?case using Cons.IH [of "put_field j (emit_field j v) r"] Cons.prems(1,2) by (simp add: f)
qed simp

lemma secret_examples:
  "\<not> isSecretKey ''ts_ms''" "\<not> isSecretKey ''level''" "\<not> isSecretKey ''service''"
  by code_simp+

lemma emit_redacts:
  "(k, JStr s) \<in> set (emit service now level fields) \<Longrightarrow> isSecretKey k \<Longrightarrow> s = REDACTED"
  unfolding emit_def
  by (rule emit_keeps [of "[(''ts_ms'', JNum (int_text now)), (''level'', JStr level), (''service'', JStr service)]"])
    (auto simp: secret_examples)

text \<open>
  No record ever carries the text of a field with a secret key, whether the line was parsed or the fields
  were given.
\<close>

theorem secret_fields_redacted:
  assumes "(k, JStr s) \<in> set (log_line service now line) \<union> set (logEvent service now level event fields)"
    and "isSecretKey k"
  shows "s = REDACTED"
  using assms emit_redacts by (auto simp: log_line_def logEvent_def Let_def split: prod.splits)

section \<open>Lines\<close>

theorem log_hides_secrets_witness:
  "log_line ''evo-worker'' 0 ''[w1] connect redis_password=abc'' = log_line ''evo-worker'' 0 ''[w1] connect redis_password=xyz''"
proof -
  have "log_line ''evo-worker'' 0 (''['' @ ''w1'' @ ''] '' @ join '' '' [''connect'', ''redis_password=abc'']) =
      log_line ''evo-worker'' 0 (''['' @ ''w1'' @ ''] '' @ join '' '' [''connect'', ''redis_password=xyz''])"
  proof (rule log_hides_secrets)
    have "isSecretKey ''redis_password''" "list_all key_char ''redis_password''" by code_simp+
    then have "hidden_pair ''redis_password=abc'' ''redis_password=xyz''"
      unfolding hidden_pair_def
      by (intro exI [of _ "''redis_password''"] exI [of _ "''abc''"] exI [of _ "''xyz''"]) simp
    then show "list_all2 (\<lambda>a b. a = b \<or> hidden_pair a b) [''connect'', ''redis_password=abc''] [''connect'', ''redis_password=xyz'']"
      by simp
  qed (simp_all add: is_word_def js_space_def)
  then show ?thesis by simp
qed

lemma token_redacted: "(''api_token'', JStr REDACTED) \<in> set (logEvent ''evo-worker'' 0 ''error'' ''e'' [(''api_token'', JStr ''t'')])"
  by code_simp

theorem secret_fields_redacted_witness: "\<exists>s. (''api_token'', JStr s) \<in> set (logEvent ''evo-worker'' 0 ''error'' ''e'' [(''api_token'', JStr ''t'')]) \<and> s = REDACTED"
proof -
  have "isSecretKey ''api_token''" by code_simp
  then show ?thesis
    using secret_fields_redacted [of "''api_token''" REDACTED "''evo-worker''" 0 "[]" "''error''" "''e''" "[(''api_token'', JStr ''t'')]"]
      token_redacted by blast
qed

lemma leak_quoted: "map_of (log_line ''s'' 0 (''[w] password='' @ [quote_mark] @ ''a b'' @ [quote_mark])) ''msg'' = Some (JStr (''b'' @ [quote_mark]))"
  by code_simp

lemma leak_bearer: "map_of (log_line ''s'' 0 ''[w] authorization=Bearer x'') ''msg'' = Some (JStr ''x'')"
  by code_simp

lemma leak_url: "map_of (log_line ''s'' 0 ''[w] e=pg://u:p@h'') ''e'' = Some (JStr ''pg://u:p@h'')"
  by code_simp

lemma text_url: "redactSecrets ''pg://u:p@h'' = ''pg://u:[REDACTED]@h''"
  by code_simp

text \<open>
  What still gets out: the rest of a quoted value with a space in it, the token of an
  \<open>authorization=Bearer\<close> pair, and the password of a URL in a field of its own, which the text would hide.
\<close>

theorem log_still_shows:
  "map_of (log_line ''s'' 0 (''[w] password='' @ [quote_mark] @ ''a b'' @ [quote_mark])) ''msg'' = Some (JStr (''b'' @ [quote_mark])) \<and>
   map_of (log_line ''s'' 0 ''[w] authorization=Bearer x'') ''msg'' = Some (JStr ''x'') \<and>
   map_of (log_line ''s'' 0 ''[w] e=pg://u:p@h'') ''e'' = Some (JStr ''pg://u:p@h'') \<and>
   redactSecrets ''pg://u:p@h'' = ''pg://u:[REDACTED]@h''"
  using leak_quoted leak_bearer leak_url text_url by blast

end
