(* ===== verification/StepView.thy ===== *)
theory StepView
  imports Executors
begin

text \<open>
  The readable view of a step's result, \<open>features/workflows/components/step-output-view.tsx\<close>: for each node
  type what is shown of the executor's output, without the markup.  \<open>JSON.parse\<close> and the indented
  \<open>JSON.stringify\<close> are parameters.
\<close>

section \<open>Parts of a view\<close>

datatype part =
    Badge bool string
  | TextField string string
  | LinkField string string
  | BlockField string string
  | ItemsField string "(string option \<times> string option) list"
  | NoteField string string
  | Note string

section \<open>Reading an output\<close>

fun isRecord :: "jsval \<Rightarrow> bool" where
  "isRecord (JObj ps) = True"
| "isRecord _ = False"

definition asString :: "jsval \<Rightarrow> string option" where
  "asString v = (case v of JStr s \<Rightarrow> if length s > 0 then Some s else None | _ \<Rightarrow> None)"

definition asBoolean :: "jsval \<Rightarrow> bool option" where
  "asBoolean v = (case v of JBool b \<Rightarrow> Some b | _ \<Rightarrow> None)"

text \<open>A property none of whose names is inherited from \<open>Object.prototype\<close>.\<close>

fun prop_of :: "jsval \<Rightarrow> string \<Rightarrow> jsval" where
  "prop_of (JObj ps) k = nullish (map_of ps k) JUndef"
| "prop_of _ k = JUndef"

fun field_if :: "(string \<Rightarrow> part) \<Rightarrow> string option \<Rightarrow> part list" where
  "field_if f None = []"
| "field_if f (Some s) = [f s]"

fun badge_if :: "bool option \<Rightarrow> string \<Rightarrow> string \<Rightarrow> part list" where
  "badge_if None yes no = []"
| "badge_if (Some b) yes no = [Badge b (if b then yes else no)]"

definition OpenUrlOutput :: "jsval \<Rightarrow> part list" where
  "OpenUrlOutput output =
     (let url = (if isRecord output then asString (prop_of output ''url'') else None);
          title = (if isRecord output then asString (prop_of output ''title'') else None)
      in field_if (TextField ''Page title'') title @ field_if (LinkField ''Opened URL'') url)"

definition ActOutput :: "jsval \<Rightarrow> part list" where
  "ActOutput output =
     (let success = (if isRecord output then asBoolean (prop_of output ''success'') else None);
          message = (if isRecord output then asString (prop_of output ''message'') else None);
          url = (if isRecord output then asString (prop_of output ''url'') else None)
      in badge_if success ''Action succeeded'' ''Action failed'' @ field_if (TextField ''What happened'') message
         @ field_if (LinkField ''Page after action'') url)"

section \<open>Extracted data\<close>

definition PRIMARY_KEYS :: "string list" where
  "PRIMARY_KEYS =
     [''title'', ''name'', ''headline'', ''subject'', ''text'', ''description'', ''content'', ''summary'', ''label'',
      ''question'', ''answer'', ''value'', ''url'', ''link'', ''email'', ''price'']"

definition toDisplayString :: "jsval \<Rightarrow> string" where
  "toDisplayString v =
     (case v of
        JStr s \<Rightarrow> s
      | JNum t \<Rightarrow> t
      | JBool b \<Rightarrow> if b then ''true'' else ''false''
      | _ \<Rightarrow> nullish (stringify v) ''undefined'')"

definition parseMaybeJson :: "(string \<Rightarrow> jsval option) \<Rightarrow> string \<Rightarrow> jsval" where
  "parseMaybeJson parse text0 =
     (let trimmed = trim text0 in
      if \<not> (starts_with trimmed ''['' \<and> ends_with trimmed '']'') \<and> \<not> (starts_with trimmed ''{'' \<and> ends_with trimmed ''}'')
      then JUndef else nullish (parse trimmed) JUndef)"

definition headline :: "jsval \<Rightarrow> string option" where
  "headline v = (case v of JStr s \<Rightarrow> if length (trim s) > 0 then Some s else None | _ \<Rightarrow> None)"

fun first_headline :: "(string \<times> jsval) list \<Rightarrow> (string \<times> string) option" where
  "first_headline [] = None"
| "first_headline ((key, v) # entries) =
     (case headline v of Some s \<Rightarrow> Some (key, s) | None \<Rightarrow> first_headline entries)"

definition pickPrimary :: "(string \<times> jsval) list \<Rightarrow> (string \<times> string) option" where
  "pickPrimary item =
     (case first_headline (map (\<lambda>key. (key, nullish (map_of item key) JUndef)) PRIMARY_KEYS) of
        Some p \<Rightarrow> Some p
      | None \<Rightarrow> first_headline item)"

text \<open>The separator is two spaces, a middle dot (in UTF-8) and two spaces.\<close>

definition rest_of_item :: "(string \<times> jsval) list \<Rightarrow> (string \<times> jsval) list" where
  "rest_of_item item =
     filter (\<lambda>(key, v). v \<noteq> JUndef \<and> v \<noteq> JNull \<and> v \<noteq> JStr [] \<and>
       (case pickPrimary item of None \<Rightarrow> True | Some (k, _) \<Rightarrow> key \<noteq> k)) item"

definition ExtractedItem :: "jsval \<Rightarrow> string option \<times> string option" where
  "ExtractedItem item =
     (case item of
        JObj ps \<Rightarrow>
          (map_option snd (pickPrimary ps),
           if rest_of_item ps \<noteq> []
           then Some (join (''  '' @ [CHR 0xC2, CHR 0xB7] @ ''  '')
                  (map (\<lambda>(key, v). key @ '': '' @ toDisplayString v) (rest_of_item ps)))
           else None)
      | _ \<Rightarrow> (None, Some (toDisplayString item)))"

definition extracted :: "(string \<Rightarrow> jsval option) \<Rightarrow> jsval \<Rightarrow> jsval" where
  "extracted parse output =
     (let extraction = (if isRecord output then prop_of output ''extraction'' else JUndef);
          extraction = (case extraction of
             JStr s \<Rightarrow> if parseMaybeJson parse s \<noteq> JUndef then parseMaybeJson parse s else extraction
           | _ \<Rightarrow> extraction)
      in case extraction of JObj [(key, JArr xs)] \<Rightarrow> JArr xs | _ \<Rightarrow> extraction)"

definition ExtractOutput :: "(string \<Rightarrow> jsval option) \<Rightarrow> (jsval \<Rightarrow> string) \<Rightarrow> jsval \<Rightarrow> part list" where
  "ExtractOutput parse pretty output =
     (case extracted parse output of
        JStr s \<Rightarrow> [BlockField ''Extracted data'' s]
      | JArr xs \<Rightarrow>
          if length xs = 0 then [NoteField ''Extracted data'' ''Nothing was extracted.'']
          else [ItemsField ''Extracted data'' (map ExtractedItem xs)]
      | JUndef \<Rightarrow> [NoteField ''Extracted data'' ''Nothing was extracted.'']
      | v \<Rightarrow> [BlockField ''Extracted data'' (pretty v)])"

section \<open>The other types\<close>

text \<open>A property that is rendered when it is truthy; the executor only writes strings.\<close>

definition shown_prop :: "jsval \<Rightarrow> string \<Rightarrow> string option" where
  "shown_prop v k = asString (prop_of v k)"

definition ObserveOutput :: "jsval \<Rightarrow> part list" where
  "ObserveOutput output =
     (let matches = (if isRecord output then (case prop_of output ''matches'' of JArr xs \<Rightarrow> xs | _ \<Rightarrow> []) else []);
          label = ''Elements found ('' @ nat_text (length matches) @ '')''
      in if length matches = 0 then [NoteField label ''No matching elements.'']
         else [ItemsField label (map (\<lambda>m. (shown_prop m ''description'', shown_prop m ''selector'')) matches)])"

definition AgentOutput :: "jsval \<Rightarrow> part list" where
  "AgentOutput output =
     (let success = (if isRecord output then asBoolean (prop_of output ''success'') else None);
          completed = (if isRecord output then asBoolean (prop_of output ''completed'') else None);
          message = (if isRecord output then asString (prop_of output ''message'') else None)
      in badge_if (map_option (\<lambda>b. b \<and> completed \<noteq> Some False) success) ''Agent finished'' ''Agent did not finish''
         @ field_if (TextField ''Agent summary'') message)"

definition SendEmailOutput :: "jsval \<Rightarrow> part list" where
  "SendEmailOutput output =
     (let i = (if isRecord output then asString (prop_of output ''id'') else None)
      in Badge True ''Email sent'' # field_if (TextField ''Delivery ID'') i)"

section \<open>The view of a step\<close>

text \<open>The types with an icon and their captions; other names may still be inherited.\<close>

definition TYPE_ICONS :: "(string \<times> string) list" where
  "TYPE_ICONS =
     [(''open-url'', ''Opened a page''), (''act'', ''Performed an action''), (''extract'', ''Extracted data from the page''),
      (''observe'', ''Located elements on the page''), (''agent'', ''Autonomous agent result''),
      (''send-email'', ''Sent an email'')]"

definition typed_output :: "(string \<Rightarrow> jsval option) \<Rightarrow> (jsval \<Rightarrow> string) \<Rightarrow> string \<Rightarrow> jsval \<Rightarrow> part list" where
  "typed_output parse pretty ty output =
     (if ty = ''open-url'' then OpenUrlOutput output
      else if ty = ''act'' then ActOutput output
      else if ty = ''extract'' then ExtractOutput parse pretty output
      else if ty = ''observe'' then ObserveOutput output
      else if ty = ''agent'' then AgentOutput output
      else if ty = ''send-email'' then SendEmailOutput output
      else if js_lookup TYPE_ICONS ty = Missing then [BlockField [] (pretty output)]
      else [])"

definition StepOutputView :: "(string \<Rightarrow> jsval option) \<Rightarrow> (jsval \<Rightarrow> string) \<Rightarrow> run_step \<Rightarrow> part list" where
  "StepOutputView parse pretty step =
     (if truthy (st_error step) then [Badge False ''Step failed'', TextField ''Error'' (nullish (st_error step) [])]
      else case st_output step of
        None \<Rightarrow> [Note ''This step produced no output.'']
      | Some output \<Rightarrow>
          (case map_of TYPE_ICONS (st_type step) of Some caption \<Rightarrow> [Note caption] | None \<Rightarrow> [])
          @ typed_output parse pretty (st_type step) output)"

section \<open>Properties\<close>

text \<open>An output as the step that carries it.\<close>

definition done_step :: "string \<Rightarrow> jsval \<Rightarrow> run_step" where
  "done_step ty output =
     \<lparr>st_nodeId = [], st_type = ty, st_title = [], st_status = SDone, st_durationMs = None, st_output = Some output,
      st_error = None\<rparr>"

text \<open>Text is shown when there is any.\<close>

definition some_text :: "(string \<Rightarrow> part) \<Rightarrow> string \<Rightarrow> part list" where
  "some_text f s = (if s = [] then [] else [f s])"

lemma field_if_text [simp]: "field_if f (asString (JStr s)) = some_text f s"
  by (simp add: asString_def some_text_def)

lemmas view_defs = StepOutputView_def done_step_def TYPE_ICONS_def typed_output_def OpenUrlOutput_def ActOutput_def
  ObserveOutput_def AgentOutput_def SendEmailOutput_def Let_def asBoolean_def shown_prop_def

lemma openUrl_viewed:
  assumes "openUrl sh u w = (Inr result, w')"
  shows "\<exists>w1 w2 url title. sh_goto sh u w = (Inr (), w1) \<and> sh_url sh w1 = (Inr url, w2) \<and> sh_title sh w2 = (Inr title, w') \<and>
      StepOutputView parse pretty (done_step ''open-url'' result) =
        Note ''Opened a page'' # some_text (TextField ''Page title'') title @ some_text (LinkField ''Opened URL'') url"
proof -
  from assms obtain w1 w2 url title where "sh_goto sh u w = (Inr (), w1)" "sh_url sh w1 = (Inr url, w2)" "sh_title sh w2 = (Inr title, w')"
    and r: "result = JObj [(''url'', JStr url), (''title'', JStr title)]"
    by (auto simp: openUrl_def act_defs split: prod.splits sum.splits)
  moreover have "StepOutputView parse pretty (done_step ''open-url'' result) =
      Note ''Opened a page'' # some_text (TextField ''Page title'') title @ some_text (LinkField ''Opened URL'') url"
    by (simp add: r view_defs)
  ultimately show ?thesis
    by blast
qed

lemma act_viewed:
  assumes "act_node sh i w = (Inr result, w')"
  shows "\<exists>success message url w1. sh_act sh i w = (Inr (success, message), w1) \<and> sh_url sh w1 = (Inr url, w') \<and>
      StepOutputView parse pretty (done_step ''act'' result) =
        [Note ''Performed an action'', Badge success (if success then ''Action succeeded'' else ''Action failed'')]
        @ some_text (TextField ''What happened'') message @ some_text (LinkField ''Page after action'') url"
proof -
  from assms obtain success message url w1 where "sh_act sh i w = (Inr (success, message), w1)" "sh_url sh w1 = (Inr url, w')"
    and r: "result = JObj [(''success'', JBool success), (''message'', JStr message), (''url'', JStr url)]"
    by (auto simp: act_node_def act_defs split: prod.splits sum.splits)
  moreover have "StepOutputView parse pretty (done_step ''act'' result) =
        [Note ''Performed an action'', Badge success (if success then ''Action succeeded'' else ''Action failed'')]
        @ some_text (TextField ''What happened'') message @ some_text (LinkField ''Page after action'') url"
    by (simp add: r view_defs)
  ultimately show ?thesis
    by blast
qed

lemma agent_viewed:
  assumes "agent_node sh i w = (Inr result, w')"
  shows "\<exists>success message completed. sh_agent sh i w = (Inr (success, message, completed), w') \<and>
      StepOutputView parse pretty (done_step ''agent'' result) =
        [Note ''Autonomous agent result'',
         Badge (success \<and> completed) (if success \<and> completed then ''Agent finished'' else ''Agent did not finish'')]
        @ some_text (TextField ''Agent summary'') message"
proof -
  from assms obtain success message completed where "sh_agent sh i w = (Inr (success, message, completed), w')"
    and r: "result = JObj [(''success'', JBool success), (''message'', JStr message), (''completed'', JBool completed)]"
    by (auto simp: agent_node_def act_defs split: prod.splits sum.splits)
  moreover have "StepOutputView parse pretty (done_step ''agent'' result) =
        [Note ''Autonomous agent result'',
         Badge (success \<and> completed) (if success \<and> completed then ''Agent finished'' else ''Agent did not finish'')]
        @ some_text (TextField ''Agent summary'') message"
    by (simp add: r view_defs)
  ultimately show ?thesis
    by blast
qed

lemma observe_viewed:
  assumes "observe_node sh i w = (Inr result, w')"
  shows "\<exists>found. sh_observe sh i w = (Inr found, w') \<and>
      StepOutputView parse pretty (done_step ''observe'' result) =
        [Note ''Located elements on the page'',
         if found = [] then NoteField ''Elements found (0)'' ''No matching elements.''
         else ItemsField (''Elements found ('' @ nat_text (length found) @ '')'')
           (map (\<lambda>(selector, description). (or_undef description, or_undef selector)) found)]"
proof -
  from assms obtain found where "sh_observe sh i w = (Inr found, w')" and r: "result = JObj [(''matches'', JArr (map (\<lambda>(selector, description).
         JObj [(''selector'', JStr selector), (''description'', JStr description)]) found))]"
    by (auto simp: observe_node_def act_defs split: prod.splits sum.splits)
  moreover have "nat_text 0 = ''0''" by code_simp
  then have "StepOutputView parse pretty (done_step ''observe'' result) =
        [Note ''Located elements on the page'',
         if found = [] then NoteField ''Elements found (0)'' ''No matching elements.''
         else ItemsField (''Elements found ('' @ nat_text (length found) @ '')'')
           (map (\<lambda>(selector, description). (or_undef description, or_undef selector)) found)]"
    by (auto simp: r view_defs asString_def or_undef_def)
  ultimately show ?thesis
    by blast
qed

lemma sendEmail_viewed:
  assumes "sendEmail resend to subject body key w = (Inr result, w')"
  shows "\<exists>m error i. resend m (if truthy key then key else None) w = (Inr (Some i, error), w') \<and> error = None \<and>
      em_to m = to \<and> em_html m = body \<and>
      StepOutputView parse pretty (done_step ''send-email'' result) =
        [Note ''Sent an email'', Badge True ''Email sent''] @ some_text (TextField ''Delivery ID'') i"
proof -
  from assms obtain i where "resend \<lparr>em_from = ''onboarding@resend.dev'', em_to = to, em_subject = subject, em_html = body\<rparr>
      (if truthy key then key else None) w = (Inr (Some i, None), w')" and r: "result = JObj [(''id'', JStr i)]"
    by (auto simp: sendEmail_def act_defs split: prod.splits sum.splits option.splits)
  moreover have "StepOutputView parse pretty (done_step ''send-email'' result) =
        [Note ''Sent an email'', Badge True ''Email sent''] @ some_text (TextField ''Delivery ID'') i"
    by (simp add: r view_defs)
  ultimately show ?thesis
    by (intro exI [of _ "\<lparr>em_from = ''onboarding@resend.dev'', em_to = to, em_subject = subject, em_html = body\<rparr>"]
      exI [of _ None] exI [of _ i]) simp
qed

text \<open>
  The view tells what the executor did: whatever a step returns, its view shows just what Stagehand or the
  provider reported in the calls the executor made; an agent reads as finished exactly when it reports both
  success and completion.
\<close>

theorem view_tells_what_happened:
  "(openUrl sh u w = (Inr result, w') \<longrightarrow> (\<exists>w1 w2 url title. sh_goto sh u w = (Inr (), w1) \<and> sh_url sh w1 = (Inr url, w2) \<and>
      sh_title sh w2 = (Inr title, w') \<and>
      StepOutputView parse pretty (done_step ''open-url'' result) =
        Note ''Opened a page'' # some_text (TextField ''Page title'') title @ some_text (LinkField ''Opened URL'') url)) \<and>
   (act_node sh i w = (Inr result, w') \<longrightarrow> (\<exists>success message url w1. sh_act sh i w = (Inr (success, message), w1) \<and>
      sh_url sh w1 = (Inr url, w') \<and>
      StepOutputView parse pretty (done_step ''act'' result) =
        [Note ''Performed an action'', Badge success (if success then ''Action succeeded'' else ''Action failed'')]
        @ some_text (TextField ''What happened'') message @ some_text (LinkField ''Page after action'') url)) \<and>
   (agent_node sh i w = (Inr result, w') \<longrightarrow> (\<exists>success message completed. sh_agent sh i w = (Inr (success, message, completed), w') \<and>
      StepOutputView parse pretty (done_step ''agent'' result) =
        [Note ''Autonomous agent result'',
         Badge (success \<and> completed) (if success \<and> completed then ''Agent finished'' else ''Agent did not finish'')]
        @ some_text (TextField ''Agent summary'') message)) \<and>
   (observe_node sh i w = (Inr result, w') \<longrightarrow> (\<exists>found. sh_observe sh i w = (Inr found, w') \<and>
      StepOutputView parse pretty (done_step ''observe'' result) =
        [Note ''Located elements on the page'',
         if found = [] then NoteField ''Elements found (0)'' ''No matching elements.''
         else ItemsField (''Elements found ('' @ nat_text (length found) @ '')'')
           (map (\<lambda>(selector, description). (or_undef description, or_undef selector)) found)])) \<and>
   (sendEmail resend to subject body key w = (Inr result, w') \<longrightarrow> (\<exists>m error i. resend m (if truthy key then key else None) w =
        (Inr (Some i, error), w') \<and> error = None \<and> em_to m = to \<and> em_html m = body \<and>
      StepOutputView parse pretty (done_step ''send-email'' result) =
        [Note ''Sent an email'', Badge True ''Email sent''] @ some_text (TextField ''Delivery ID'') i))"
  by (intro conjI impI openUrl_viewed act_viewed agent_viewed observe_viewed sendEmail_viewed)

lemma first_headline_Some:
  "first_headline es = Some (k, s) \<Longrightarrow> \<exists>v. (k, v) \<in> set es \<and> headline v = Some s"
  by (induction es) (auto split: option.splits)

lemma first_headline_None: "first_headline es = None \<longleftrightarrow> (\<forall>(k, v) \<in> set es. headline v = None)"
  by (induction es) (auto split: option.splits)

lemma headline_Some: "headline v = Some s \<longleftrightarrow> v = JStr s \<and> trim s \<noteq> []"
  by (auto simp: headline_def split: jsval.splits)

lemma pickPrimary_Some:
  assumes "pickPrimary ps = Some (k, s)" and "distinct (map fst ps)"
  shows "(k, JStr s) \<in> set ps"
proof (cases "first_headline (map (\<lambda>key. (key, nullish (map_of ps key) JUndef)) PRIMARY_KEYS)")
  case None
  then show ?thesis using assms first_headline_Some [of ps k s] by (auto simp: pickPrimary_def headline_Some)
next
  case (Some p)
  then have "p = (k, s)" using assms(1) by (simp add: pickPrimary_def)
  then obtain v where "v = nullish (map_of ps k) JUndef" "v = JStr s"
    using first_headline_Some Some by (fastforce simp: headline_Some)
  then show ?thesis by (cases "map_of ps k") (auto dest: map_of_SomeD)
qed

lemma pickPrimary_None: "pickPrimary ps = None \<Longrightarrow> (k, JStr s) \<in> set ps \<Longrightarrow> trim s = []"
proof -
  assume "pickPrimary ps = None" "(k, JStr s) \<in> set ps"
  then have "headline (JStr s) = None" using first_headline_None [of ps] by (auto simp: pickPrimary_def split: option.splits)
  then show "trim s = []" by (simp add: headline_def split: if_splits)
qed

text \<open>
  Nothing of an extracted item is lost: its headline is one of its own fields, which is there as soon as any
  field has readable text, and every other field with a value is listed, in order and once.
\<close>

theorem extracted_item_complete:
  assumes "distinct (map fst ps)"
  shows "(case pickPrimary ps of
       None \<Rightarrow> (\<forall>(k, v) \<in> set ps. \<forall>s. v = JStr s \<longrightarrow> trim s = [])
     | Some (k, s) \<Rightarrow> (k, JStr s) \<in> set ps \<and> k \<notin> fst ` set (rest_of_item ps)) \<and>
   (\<forall>(k, v) \<in> set ps. v \<notin> {JUndef, JNull, JStr []} \<longrightarrow>
      (k, v) \<in> set (rest_of_item ps) \<or> (\<exists>s. v = JStr s \<and> pickPrimary ps = Some (k, s))) \<and>
   distinct (rest_of_item ps) \<and> set (rest_of_item ps) \<subseteq> set ps"
proof -
  have dist: "distinct ps" using assms by (simp add: distinct_map)
  have uniq: "v = v'" if "(k, v) \<in> set ps" "(k, v') \<in> set ps" for k v v'
    using eq_key_imp_eq_value [OF assms that] .
  show ?thesis
  proof (cases "pickPrimary ps")
    case None
    then show ?thesis using pickPrimary_None [OF None] dist by (auto simp: rest_of_item_def)
  next
    case (Some p)
    obtain k s where p: "p = (k, s)" by (cases p)
    have k: "(k, JStr s) \<in> set ps" using pickPrimary_Some [OF _ assms] Some p by simp
    show ?thesis using Some p k dist uniq by (auto simp: rest_of_item_def)
  qed
qed

section \<open>A step and an item\<close>

definition demo_sh :: "int stagehand" where
  "demo_sh = \<lparr>sh_act = \<lambda>i w. (Inr (True, ''clicked''), w + 5), sh_extract = \<lambda>i w. (Inr JNull, w + 5),
     sh_observe = \<lambda>i w. (Inr [], w + 5), sh_agent = \<lambda>i w. (Inr (True, ''partly'', False), w + 5),
     sh_goto = \<lambda>u w. (Inr (), w + 5), sh_url = \<lambda>w. (Inr ''u'', w), sh_title = \<lambda>w. (Inr [], w)\<rparr>"

theorem view_tells_what_happened_witness:
  "\<exists>result. agent_node demo_sh (Some ''go'') 0 = (Inr result, 5) \<and>
     StepOutputView (\<lambda>s. None) (\<lambda>v. []) (done_step ''agent'' result) =
       [Note ''Autonomous agent result'', Badge False ''Agent did not finish'', TextField ''Agent summary'' ''partly'']"
proof -
  let ?r = "JObj [(''success'', JBool True), (''message'', JStr ''partly''), (''completed'', JBool False)]"
  have a: "agent_node demo_sh (Some ''go'') 0 = (Inr ?r, 5)"
    by (simp add: agent_node_def demo_sh_def act_defs)
  have "\<exists>success message completed. sh_agent demo_sh (Some ''go'') 0 = (Inr (success, message, completed), 5) \<and>
      StepOutputView (\<lambda>s. None) (\<lambda>v. []) (done_step ''agent'' ?r) =
        [Note ''Autonomous agent result'',
         Badge (success \<and> completed) (if success \<and> completed then ''Agent finished'' else ''Agent did not finish'')]
        @ some_text (TextField ''Agent summary'') message"
    using view_tells_what_happened [of demo_sh None 0 ?r 5 "\<lambda>s. None" "\<lambda>v. []" "Some ''go''" "\<lambda>m k w. (Inl [], w)" None None None None] a
    by blast
  then show ?thesis using a by (auto simp: demo_sh_def some_text_def)
qed

definition demo_item :: "(string \<times> jsval) list" where
  "demo_item = [(''url'', JStr ''u''), (''title'', JStr ''T''), (''stars'', JNum ''5''), (''note'', JNull)]"

theorem extracted_item_complete_witness:
  "pickPrimary demo_item = Some (''title'', ''T'') \<and> (''stars'', JNum ''5'') \<in> set (rest_of_item demo_item)"
proof -
  have d: "distinct (map fst demo_item)" by (simp add: demo_item_def)
  have p: "pickPrimary demo_item = Some (''title'', ''T'')" by code_simp
  have "(''stars'', JNum ''5'') \<in> set demo_item" by (simp add: demo_item_def)
  then have "(''stars'', JNum ''5'') \<in> set (rest_of_item demo_item)"
    using conjunct1 [OF conjunct2 [OF extracted_item_complete [OF d]]] p by fastforce
  with p show ?thesis by blast
qed

end
