(* ===== verification/Editor.thy ===== *)
theory Editor
  imports Actions
begin

text \<open>
  The editor of a workflow: the shared canvas (\<open>components/canvas.tsx\<close>), the toolbar, inspector and run button of
  \<open>components/right-sidebar.tsx\<close>, the planner start screen (\<open>components/planner-start.tsx\<close>) and the shell that
  turns a generated plan into the canvas (\<open>components/workflow-shell.tsx\<close>).

  The canvas lives in the Liveblocks room as two maps from ids, nodes and edges, which keep the order of insertion
  as JavaScript maps do; React Flow's \<open>getNodes\<close> and \<open>getEdges\<close> list their values.  Rendering is left out.  The
  point in the middle of the view at which a node is dropped is floating point arithmetic on the pane's size, and an
  argument here, like the random id of the new node.
\<close>

section \<open>The canvas\<close>

record room_flow =
  fl_nodes :: "(string \<times> step_node) list"
  fl_edges :: "(string \<times> edge) list"

definition canvas_graph :: "room_flow \<Rightarrow> workflow_graph" where
  "canvas_graph flow = \<lparr>wg_nodes = map snd (fl_nodes flow), wg_edges = map snd (fl_edges flow)\<rparr>"

definition initial_flow :: room_flow where
  "initial_flow =
     \<lparr>fl_nodes = [(''start'', \<lparr>sn_id = ''start'', sn_position = (0, 0),
        sn_data = \<lparr>sd_type = ''start'', sd_kind = Trigger, sd_title = ''Start'', sd_values = []\<rparr>\<rparr>)],
      fl_edges = []\<rparr>"

definition clear_map :: "(string \<times> 'a) list \<Rightarrow> (string \<times> 'a) list" where
  "clear_map m = fold AList.delete (map fst m) m"

definition applyWorkflowGraph :: "workflow_graph \<Rightarrow> room_flow option \<Rightarrow> room_flow" where
  "applyWorkflowGraph g root =
     (let flow = nullish root \<lparr>fl_nodes = [], fl_edges = []\<rparr>
      in \<lparr>fl_nodes = fold (\<lambda>n. AList.update (sn_id n) n) (wg_nodes g) (clear_map (fl_nodes flow)),
          fl_edges = fold (\<lambda>e. AList.update (eg_id e) e) (wg_edges g) (clear_map (fl_edges flow))\<rparr>)"

section \<open>The inspector\<close>

text \<open>React Flow's \<open>updateNodeData\<close> merges the given keys, here the values, into the node's data.\<close>

definition updateNodeValues :: "string \<Rightarrow> (string \<times> string) list \<Rightarrow> room_flow \<Rightarrow> room_flow" where
  "updateNodeValues i values flow =
     flow\<lparr>fl_nodes := map (\<lambda>(k, n). (k, if k = i then n\<lparr>sn_data := (sn_data n)\<lparr>sd_values := values\<rparr>\<rparr> else n))
        (fl_nodes flow)\<rparr>"

definition field_change :: "step_node \<Rightarrow> string \<Rightarrow> string \<Rightarrow> room_flow \<Rightarrow> room_flow" where
  "field_change node key v = updateNodeValues (sn_id node) (AList.update key v (sd_values (sn_data node)))"

definition targetKey :: "string option \<Rightarrow> node_definition \<Rightarrow> string option" where
  "targetKey activeFieldKey def =
     (case activeFieldKey of
        Some k \<Rightarrow> Some k
      | None \<Rightarrow> (case nd_fields def of [] \<Rightarrow> None | f # _ \<Rightarrow> Some (nf_key f)))"

definition insertToken ::
    "step_node \<Rightarrow> string option \<Rightarrow> node_definition \<Rightarrow> string \<Rightarrow> room_flow \<Rightarrow> room_flow" where
  "insertToken node activeFieldKey def token flow =
     (if \<not> truthy (targetKey activeFieldKey def) then flow
      else let key = nullish (targetKey activeFieldKey def) []; values = sd_values (sn_data node)
        in updateNodeValues (sn_id node) (AList.update key (nullish (map_of values key) [] @ token) values) flow)"

section \<open>The toolbar\<close>

definition premiumNodes :: "string list" where "premiumNodes = [''agent'']"

definition isLocked :: "bool \<Rightarrow> bool \<Rightarrow> string \<Rightarrow> bool" where
  "isLocked isLoaded isPro type \<longleftrightarrow> type \<in> set premiumNodes \<and> isLoaded \<and> \<not> isPro"

datatype palette_outcome = GoToUpgrade | OneTriggerOnly | NodeAdded

text \<open>\<open>Palette.add\<close>, for a type of the registry.\<close>

definition palette_add ::
    "bool \<Rightarrow> bool \<Rightarrow> string \<Rightarrow> int \<times> int \<Rightarrow> string \<times> node_definition \<Rightarrow> room_flow \<Rightarrow> palette_outcome \<times> room_flow" where
  "palette_add isLoaded isPro uuid position = (\<lambda>(type, def) flow.
     let nodes = map snd (fl_nodes flow) in
     if isLocked isLoaded isPro type then (GoToUpgrade, flow)
     else if nd_kind def = Trigger \<and> (\<exists>n \<in> set nodes. sd_kind (sn_data n) = Trigger) then (OneTriggerOnly, flow)
     else let count = count_if (\<lambda>n. sd_type (sn_data n) = type) nodes;
              title = nd_label def @ '' '' @ nat_text (count + 1)
       in (NodeAdded, flow\<lparr>fl_nodes := AList.update uuid
             \<lparr>sn_id = uuid, sn_position = position,
              sn_data = \<lparr>sd_type = type, sd_kind = nd_kind def, sd_title = title, sd_values = []\<rparr>\<rparr> (fl_nodes flow)\<rparr>))"

section \<open>The sidebar and the run button\<close>

record sidebar =
  sb_tab :: string
  sb_prevSelectedId :: "string option"

definition sidebar_render :: "string option \<Rightarrow> sidebar \<Rightarrow> sidebar" where
  "sidebar_render selected sb =
     (if selected \<noteq> None \<and> selected \<noteq> sb_prevSelectedId sb
      then sb\<lparr>sb_prevSelectedId := selected, sb_tab := ''editor''\<rparr> else sb)"

text \<open>
  A click on the run button: a stop of the live run, a problem of the canvas shown instead of running, or the
  run action with its answer.  \<open>Started\<close> also calls \<open>onRunStart\<close>, which drops the preview banner.
\<close>

datatype click =
  StopAsked bool | ProblemShown string | RunRefused action_error | Started engine_run_handle

definition run_click ::
    "topo \<Rightarrow> 's action_env \<Rightarrow> string \<Rightarrow> string option \<Rightarrow> room_flow \<Rightarrow> 's sys \<Rightarrow> click \<times> 's sys" where
  "run_click toposort ax workflowId liveRun flow st =
     (case liveRun of
        Some r \<Rightarrow>
          (case cancelWorkflowRunAction ax r st of
             (Inl _, st') \<Rightarrow> (StopAsked False, st')
           | (Inr _, st') \<Rightarrow> (StopAsked True, st'))
      | None \<Rightarrow>
          (case validateGraph toposort (canvas_graph flow) of
             p # _ \<Rightarrow> (ProblemShown p, st)
           | [] \<Rightarrow>
               (case runWorkflowAction ax workflowId (canvas_graph flow) st of
                  (Inl e, st') \<Rightarrow> (RunRefused e, st')
                | (Inr h, st') \<Rightarrow> (Started h, st'))))"

text \<open>\<open>Run Again\<close> in the console, with no live run: the canvas as it is now goes the same way.\<close>

definition handleRunAgain ::
    "topo \<Rightarrow> 's action_env \<Rightarrow> string \<Rightarrow> room_flow \<Rightarrow> 's sys \<Rightarrow> click \<times> 's sys" where
  "handleRunAgain toposort ax workflowId flow st =
     (case validateGraph toposort (canvas_graph flow) of
        p # _ \<Rightarrow> (ProblemShown p, st)
      | [] \<Rightarrow>
          (case runWorkflowAction ax workflowId (canvas_graph flow) st of
             (Inl e, st') \<Rightarrow> (RunRefused e, st')
           | (Inr h, st') \<Rightarrow> (Started h, st')))"

text \<open>What the toolbar offers: per section the types with their labels and locks.\<close>

definition sections :: "(step_kind \<times> string) list" where
  "sections = [(Trigger, ''Triggers''), (Action, ''Actions'')]"

definition palette_view :: "bool \<Rightarrow> bool \<Rightarrow> (string \<times> (string \<times> string \<times> bool) list) list" where
  "palette_view isLoaded isPro =
     map (\<lambda>(kind, label). (label,
       map (\<lambda>(type, def). (type, nd_label def, isLocked isLoaded isPro type))
         (filter (\<lambda>(type, def). nd_kind def = kind) nodeRegistry))) sections"

text \<open>
  What the inspector shows of the selected node: its fields with their values, or a note, and the tokens of the nodes
  upstream.  The outer option is the registry lookup, which fails for a type that is not in it.
\<close>

record field_input =
  fi_key :: string
  fi_label :: string
  fi_required :: bool
  fi_multiline :: bool
  fi_value :: string

datatype inspector = NothingSelected | NodeEditor string "field_input list" "upstream_connection list"

definition inspector_view :: "step_node option \<Rightarrow> upstream_connection list \<Rightarrow> inspector option" where
  "inspector_view selected connections =
     (case selected of
        None \<Rightarrow> Some NothingSelected
      | Some node \<Rightarrow>
          map_option (\<lambda>def.
            NodeEditor (sd_title (sn_data node))
              (map (\<lambda>f. \<lparr>fi_key = nf_key f, fi_label = nf_label f, fi_required = nullish (nf_required f) False,
                        fi_multiline = nullish (nf_multiline f) False,
                        fi_value = nullish (map_of (sd_values (sn_data node)) (nf_key f)) []\<rparr>) (nd_fields def))
              connections)
            (map_of nodeRegistry (sd_type (sn_data node))))"

section \<open>The planner start screen\<close>

definition MAX_PROMPT_LENGTH :: nat where "MAX_PROMPT_LENGTH = 2000"

record planner_start =
  pl_prompt :: string
  pl_isGenerating :: bool
  pl_shownError :: "string option"

definition canGenerate :: "planner_start \<Rightarrow> bool" where
  "canGenerate p \<longleftrightarrow> \<not> length (trim (pl_prompt p)) = 0 \<and> \<not> MAX_PROMPT_LENGTH < length (pl_prompt p) \<and> \<not> pl_isGenerating p"

text \<open>The goal handed to \<open>onGenerate\<close>, if any, and what happens when it settles with an error message or not.\<close>

definition submit_goal :: "planner_start \<Rightarrow> string option \<times> planner_start" where
  "submit_goal p =
     (if \<not> canGenerate p then (None, p)
      else (Some (trim (pl_prompt p)), p\<lparr>pl_isGenerating := True, pl_shownError := None\<rparr>))"

definition goal_settled :: "string option \<Rightarrow> planner_start \<Rightarrow> planner_start" where
  "goal_settled err p =
     (p\<lparr>pl_shownError := (case err of Some m \<Rightarrow> Some m | None \<Rightarrow> pl_shownError p), pl_isGenerating := False\<rparr>)"

definition prompt_changed :: "string \<Rightarrow> planner_start \<Rightarrow> planner_start" where
  "prompt_changed t p = p\<lparr>pl_prompt := t, pl_shownError := (if truthy (pl_shownError p) then None else pl_shownError p)\<rparr>"

section \<open>The shell\<close>

datatype view_mode = PlannerView | CanvasView

record shell =
  wh_viewMode :: view_mode
  wh_isPreview :: bool
  wh_newInUrl :: bool
  wh_flow :: "room_flow option"

definition new_shell :: "bool \<Rightarrow> room_flow option \<Rightarrow> shell" where
  "new_shell isNew flow =
     \<lparr>wh_viewMode = (if isNew then PlannerView else CanvasView), wh_isPreview = False, wh_newInUrl = isNew, wh_flow = flow\<rparr>"

definition handleBuildManually :: "shell \<Rightarrow> shell" where
  "handleBuildManually s = s\<lparr>wh_viewMode := CanvasView, wh_isPreview := False, wh_newInUrl := False\<rparr>"

text \<open>
  What can go wrong between the goal and the canvas: the action throws, it reports no plan or one that cannot be
  built, the conversion throws, or the storage of the room does not load.
\<close>

datatype generate_error =
  ActionThrew action_error | NoPlan string | ConversionThrew convert_error | StorageThrew string

text \<open>\<open>planned\<close> is what \<open>planWorkflowAction\<close> answers, \<open>storage\<close> what \<open>room.getStorage\<close> does.\<close>

definition handleGenerate ::
    "topo \<Rightarrow> action_error + plan_result \<Rightarrow> string + unit \<Rightarrow> shell \<Rightarrow> ((generate_error + unit) \<times> shell) option" where
  "handleGenerate toposort planned storage s =
     (case planned of
        Inl e \<Rightarrow> Some (Inl (ActionThrew e), s)
      | Inr result \<Rightarrow>
          let err = (if pl_success result then None else pl_text result) in
          (case (pl_success result, pl_plan result) of
             (True, Some plan) \<Rightarrow>
               if \<not> wp_canBuild plan
               then Some (Inl (NoPlan (or_default (wp_unsupportedReason plan)
                      ''This goal cannot be automated with the available workflow nodes.'')), s)
               else map_option (\<lambda>converted.
                 case converted of
                   Inl e \<Rightarrow> (Inl (ConversionThrew e), s)
                 | Inr g \<Rightarrow>
                     (case storage of
                        Inl m \<Rightarrow> (Inl (StorageThrew m), s)
                      | Inr _ \<Rightarrow> (Inr (), s\<lparr>wh_flow := Some (applyWorkflowGraph g (wh_flow s)), wh_isPreview := True,
                          wh_viewMode := CanvasView, wh_newInUrl := False\<rparr>)))
                 (convertWorkflowPlanToGraph toposort plan)
           | _ \<Rightarrow> Some (Inl (NoPlan (or_default err ''Failed to generate workflow plan.'')), s)))"

definition showPreview :: "bool \<Rightarrow> shell \<Rightarrow> bool" where
  "showPreview isRunLive s \<longleftrightarrow> wh_isPreview s \<and> \<not> isRunLive"

section \<open>The maps of the room\<close>

lemma deletes: "fold AList.delete ks m = filter (\<lambda>p. fst p \<notin> set ks) m"
  by (induction ks arbitrary: m) (auto simp: AList.delete_eq intro!: filter_cong)

lemma clear_map_empty [simp]: "clear_map m = []"
  by (auto simp: clear_map_def deletes filter_empty_conv)

abbreviation by_key :: "('a \<Rightarrow> string) \<Rightarrow> 'a list \<Rightarrow> (string \<times> 'a) list" where
  "by_key f xs \<equiv> fold (\<lambda>x. AList.update (f x) x) xs []"

lemma updates_fresh:
  "distinct (map fst m @ map f xs) \<Longrightarrow> fold (\<lambda>x. AList.update (f x) x) xs m = m @ map (\<lambda>x. (f x, x)) xs"
proof (induction xs arbitrary: m)
  case (Cons x xs)
  have "AList.update (f x) x m = m @ [(f x, x)]" using Cons.prems by (induction m) auto
  with Cons show ?case by simp
qed simp

lemma by_key_distinct: "distinct (map f xs) \<Longrightarrow> map snd (by_key f xs) = xs"
  using updates_fresh [of "[]" f xs] by (simp add: comp_def)

lemma update_subset: "set (AList.update k v m) \<subseteq> insert (k, v) (set m)"
  by (induction m) auto

lemma updates_keyed:
  "distinct (map fst m) \<Longrightarrow> \<forall>(k, v) \<in> set m. k = f v \<and> v \<in> A \<Longrightarrow>
   distinct (map fst (fold (\<lambda>x. AList.update (f x) x) xs m)) \<and>
   (\<forall>(k, v) \<in> set (fold (\<lambda>x. AList.update (f x) x) xs m). k = f v \<and> v \<in> A \<union> set xs) \<and>
   fst ` set (fold (\<lambda>x. AList.update (f x) x) xs m) = fst ` set m \<union> f ` set xs"
proof (induction xs arbitrary: m A)
  case (Cons x xs)
  have d: "distinct (map fst (AList.update (f x) x m))" using Cons.prems(1) by (simp add: distinct_update)
  have e: "\<forall>(k, v) \<in> set (AList.update (f x) x m). k = f v \<and> v \<in> insert x A"
    using Cons.prems(2) update_subset [of "f x" x m] by fastforce
  have k: "fst ` set (AList.update (f x) x m) = insert (f x) (fst ` set m)" by (simp add: dom_update)
  from Cons.IH [OF d e] show ?case by (simp add: k)
qed force

lemma keys_of_values: "\<forall>(k, v) \<in> set m. k = f v \<and> v \<in> A \<Longrightarrow> map f (map snd m) = map fst m \<and> set (map snd m) \<subseteq> A"
  by (induction m) auto

lemma by_key_entries:
  "distinct (map fst (by_key f xs)) \<and> set (map snd (by_key f xs)) \<subseteq> set xs \<and> map f (map snd (by_key f xs)) = map fst (by_key f xs) \<and>
   f ` set (map snd (by_key f xs)) = f ` set xs"
proof -
  have e: "distinct (map fst (by_key f xs))" "\<forall>(k, v) \<in> set (by_key f xs). k = f v \<and> v \<in> set xs" "set (map fst (by_key f xs)) = f ` set xs"
    using updates_keyed [of "[]" f "{}" xs] by simp_all
  from keys_of_values [OF e(2)] have m: "map f (map snd (by_key f xs)) = map fst (by_key f xs)" and s: "set (map snd (by_key f xs)) \<subseteq> set xs"
    by blast+
  have "f ` set (map snd (by_key f xs)) = f ` set xs"
    using arg_cong [OF m, of set] e(3) by (simp only: set_map)
  with e(1) m s show ?thesis by blast
qed

lemma applied_nodes:
  "distinct (map sn_id (wg_nodes g)) \<Longrightarrow> wg_nodes (canvas_graph (applyWorkflowGraph g root)) = wg_nodes g"
  by (simp add: canvas_graph_def applyWorkflowGraph_def Let_def by_key_distinct)

lemma applied_edges:
  "wg_edges (canvas_graph (applyWorkflowGraph g root)) = map snd (by_key eg_id (wg_edges g))"
  by (simp add: canvas_graph_def applyWorkflowGraph_def Let_def)

section \<open>From a goal to the canvas\<close>

lemma validated_distinct:
  assumes "validate_plan toposort plan = Inr p" and "wp_canBuild p"
  shows "distinct (map pn_id (wp_nodes p))"
proof -
  have "length (remdups (map pn_id (wp_nodes p))) = length (map pn_id (wp_nodes p))"
    using assms by (auto simp: validate_plan_def Let_def split: if_splits option.splits)
  then show ?thesis by (simp only: length_remdups_eq remdups_id_iff_distinct)
qed

lemma converted_graph:
  assumes "convertWorkflowPlanToGraph toposort p = Some (Inr g)"
  shows "map sn_id (wg_nodes g) = map pn_id (wp_nodes p)" and "wg_edges g = map convert_edge (wp_edges p)"
    and "validateGraph toposort g = []" and "\<exists>ps. map_res (convert_node ps) (wp_nodes p) = Inr (wg_nodes g)"
proof -
  obtain ps nodes where "map_res (convert_node ps) (wp_nodes p) = Inr nodes"
    "g = \<lparr>wg_nodes = nodes, wg_edges = map convert_edge (wp_edges p)\<rparr>" "validateGraph toposort g = []"
    using assms
    by (auto simp: convertWorkflowPlanToGraph_def Let_def split: if_splits sum.splits)
  then show "map sn_id (wg_nodes g) = map pn_id (wp_nodes p)" "wg_edges g = map convert_edge (wp_edges p)"
    "validateGraph toposort g = []" "\<exists>ps. map_res (convert_node ps) (wp_nodes p) = Inr (wg_nodes g)"
    using converted_nodes(1) [of ps "wp_nodes p" nodes] by auto
qed

lemma planned_plan:
  assumes "planWorkflowAction ax parse_plan apiKey replies w goal = Inr result" and "pl_plan result = Some plan"
    and "wp_canBuild plan"
  shows "distinct (map pn_id (wp_nodes plan))"
proof -
  have "generateWorkflowPlan (ax_toposort ax) parse_plan apiKey replies = Inr plan"
    using assms(1,2) by (auto simp: planWorkflowAction_def split: sum.splits)
  then show ?thesis using generate_Inr validated_distinct assms(3) by blast
qed

lemma conversion_returns: "\<exists>c. convertWorkflowPlanToGraph toposort plan = Some c"
proof -
  obtain ps where "layoutPlanNodes (wp_nodes plan) (wp_edges plan) = Some ps" using layout_total by blast
  then show ?thesis by (simp add: convertWorkflowPlanToGraph_def)
qed

lemma handleGenerate_cases:
  "\<exists>r s'. handleGenerate toposort planned storage s = Some (r, s') \<and>
    ((\<exists>e. r = Inl e) \<and> s' = s \<or>
     (\<exists>result plan g. r = Inr () \<and> planned = Inr result \<and> pl_plan result = Some plan \<and> wp_canBuild plan \<and>
        convertWorkflowPlanToGraph toposort plan = Some (Inr g) \<and>
        s' = s\<lparr>wh_flow := Some (applyWorkflowGraph g (wh_flow s)), wh_isPreview := True, wh_viewMode := CanvasView,
          wh_newInUrl := False\<rparr>))"
proof (cases "\<exists>result plan. planned = Inr result \<and> pl_success result \<and> pl_plan result = Some plan \<and> wp_canBuild plan")
  case False
  then show ?thesis by (auto simp: handleGenerate_def Let_def split: sum.splits option.splits)
next
  case True
  then obtain result plan where p: "planned = Inr result" "pl_success result" "pl_plan result = Some plan" "wp_canBuild plan"
    by blast
  obtain c where "convertWorkflowPlanToGraph toposort plan = Some c" using conversion_returns by blast
  with p show ?thesis by (cases c; cases storage) (simp_all add: handleGenerate_def)
qed

lemma no_problems:
  assumes "toposort_lib toposort"
  shows "validateGraph toposort g = [] \<longleftrightarrow> runnable g"
  using toposort_lib.throws_on_cycle [OF assms, of "edge_pairs (wg_edges g)"] runnable_eq [of g]
  by (auto simp: validateGraph_def Let_def split: option.splits)

lemma applied_runnable:
  assumes "toposort_lib toposort" and "convertWorkflowPlanToGraph toposort plan = Some (Inr g)"
    and "distinct (map pn_id (wp_nodes plan))"
  shows "runnable (canvas_graph (applyWorkflowGraph g root)) \<and>
    map sn_id (wg_nodes (canvas_graph (applyWorkflowGraph g root))) = map pn_id (wp_nodes plan) \<and>
    set (edge_pairs (wg_edges (canvas_graph (applyWorkflowGraph g root)))) \<subseteq> set (plan_pairs (wp_edges plan)) \<and>
    (distinct (map (eg_id \<circ> convert_edge) (wp_edges plan)) \<longrightarrow>
       edge_pairs (wg_edges (canvas_graph (applyWorkflowGraph g root))) = plan_pairs (wp_edges plan))"
proof -
  let ?c = "canvas_graph (applyWorkflowGraph g root)"
  note c = converted_graph [OF assms(2)]
  have nodes: "wg_nodes ?c = wg_nodes g" using c(1) assms(3) applied_nodes by simp
  have ok: "runnable g" using c(3) no_problems [OF assms(1)] by simp
  have e: "set (wg_edges ?c) \<subseteq> set (wg_edges g)" "eg_id ` set (wg_edges ?c) = eg_id ` set (wg_edges g)"
    unfolding applied_edges using by_key_entries [of eg_id "wg_edges g"] by blast+
  then have sub: "set (edge_pairs (wg_edges ?c)) \<subseteq> set (edge_pairs (wg_edges g))" by (auto simp: edge_pairs_def)
  have "wg_edges ?c \<noteq> []" using e(2) ok runnable_eq by fastforce
  moreover have "acyclic (set (edge_pairs (wg_edges ?c)))"
    using ok runnable_eq sub acyclic_subset by blast
  ultimately have "runnable ?c" using ok nodes runnable_eq by simp
  moreover have "set (edge_pairs (wg_edges ?c)) \<subseteq> set (plan_pairs (wp_edges plan))"
    using sub c(2) converted_edges by simp
  moreover have "edge_pairs (wg_edges ?c) = plan_pairs (wp_edges plan)" if "distinct (map (eg_id \<circ> convert_edge) (wp_edges plan))"
    using that c(2) by (simp add: applied_edges by_key_distinct converted_edges)
  ultimately show ?thesis using nodes c(1) by simp
qed

section \<open>Properties\<close>


section \<open>Edits keep the canvas typed\<close>

abbreviation is_trigger :: "step_node \<Rightarrow> bool" where
  "is_trigger n \<equiv> sd_kind (sn_data n) = Trigger"

text \<open>A node of the registry, of the registry's kind, with values for its own fields only.\<close>

definition typed_node :: "step_node \<Rightarrow> bool" where
  "typed_node n \<longleftrightarrow> (\<exists>def. map_of nodeRegistry (sd_type (sn_data n)) = Some def \<and> sd_kind (sn_data n) = nd_kind def \<and>
     fst ` set (sd_values (sn_data n)) \<subseteq> nf_key ` set (nd_fields def) \<and> distinct (map fst (sd_values (sn_data n))))"

definition canvas_ok :: "room_flow \<Rightarrow> bool" where
  "canvas_ok flow \<longleftrightarrow> distinct (map fst (fl_nodes flow)) \<and> (\<forall>(k, n) \<in> set (fl_nodes flow). sn_id n = k \<and> typed_node n) \<and>
     count_if is_trigger (map snd (fl_nodes flow)) \<le> 1"

text \<open>
  One change of the shared canvas by any of its editors: a click in the toolbar, with a fresh id, a field or a token
  of the inspector, a generated plan, and what React Flow does by itself: moving and removing nodes, and any change
  of the connections.
\<close>

inductive edit ::
    "topo \<Rightarrow> 's action_env \<Rightarrow> plan_parser \<Rightarrow> string option \<Rightarrow> (nat \<Rightarrow> reply) \<Rightarrow> string \<Rightarrow> room_flow \<Rightarrow> room_flow \<Rightarrow> bool"
  for toposort ax parse_plan apiKey replies w where
  add: "(t, d) \<in> set nodeRegistry \<Longrightarrow> uuid \<notin> fst ` set (fl_nodes f) \<Longrightarrow>
    edit toposort ax parse_plan apiKey replies w f (snd (palette_add loaded pro uuid pos (t, d) f))"
| field: "(k, n) \<in> set (fl_nodes f) \<Longrightarrow> map_of nodeRegistry (sd_type (sn_data n)) = Some d \<Longrightarrow> key \<in> nf_key ` set (nd_fields d) \<Longrightarrow>
    edit toposort ax parse_plan apiKey replies w f (field_change n key v f)"
| token: "(k, n) \<in> set (fl_nodes f) \<Longrightarrow> map_of nodeRegistry (sd_type (sn_data n)) = Some d \<Longrightarrow>
    active \<in> insert None (Some ` nf_key ` set (nd_fields d)) \<Longrightarrow>
    edit toposort ax parse_plan apiKey replies w f (insertToken n active d tok f)"
| generated: "wh_flow s \<in> {None, Some f} \<Longrightarrow>
    handleGenerate toposort (planWorkflowAction ax parse_plan apiKey replies w goal) storage s = Some (Inr (), s') \<Longrightarrow>
    wh_flow s' = Some f' \<Longrightarrow> edit toposort ax parse_plan apiKey replies w f f'"
| arranged: "edit toposort ax parse_plan apiKey replies w f
    (f\<lparr>fl_nodes := map (\<lambda>(k, n). (k, n\<lparr>sn_position := pos k\<rparr>)) (filter (keep \<circ> fst) (fl_nodes f)), fl_edges := es\<rparr>)"

lemma typed_values:
  assumes "typed_node n" and "map_of nodeRegistry (sd_type (sn_data n)) = Some d" and "key \<in> nf_key ` set (nd_fields d)"
  shows "typed_node (n\<lparr>sn_data := (sn_data n)\<lparr>sd_values := AList.update key v (sd_values (sn_data n))\<rparr>\<rparr>)"
  using assms by (auto simp: typed_node_def distinct_update dom_update)

lemma kept_triggers:
  "(\<And>k n. (k, n) \<in> set ns \<Longrightarrow> is_trigger (h k n) = is_trigger n) \<Longrightarrow>
   count_if is_trigger (map snd (map (\<lambda>(k, n). (k, h k n)) ns)) = count_if is_trigger (map snd ns)"
  by (induction ns) auto

lemma updateNodeValues_ok:
  assumes "canvas_ok f" and "(k, n) \<in> set (fl_nodes f)" and "typed_node (n\<lparr>sn_data := (sn_data n)\<lparr>sd_values := vs\<rparr>\<rparr>)"
  shows "canvas_ok (updateNodeValues (sn_id n) vs f)"
proof -
  have same: "m = n" if "(sn_id n, m) \<in> set (fl_nodes f)" for m
    using assms(1,2) that eq_key_imp_eq_value [of "fl_nodes f"] by (fastforce simp: canvas_ok_def)
  have "count_if is_trigger (map snd (fl_nodes (updateNodeValues (sn_id n) vs f))) = count_if is_trigger (map snd (fl_nodes f))"
    using kept_triggers [of "fl_nodes f" "\<lambda>k m. if k = sn_id n then m\<lparr>sn_data := (sn_data m)\<lparr>sd_values := vs\<rparr>\<rparr> else m"]
    by (simp add: updateNodeValues_def del: map_map)
  moreover have "map fst (fl_nodes (updateNodeValues (sn_id n) vs f)) = map fst (fl_nodes f)"
    by (simp add: updateNodeValues_def comp_def case_prod_unfold)
  moreover have "\<forall>(j, m) \<in> set (fl_nodes (updateNodeValues (sn_id n) vs f)). sn_id m = j \<and> typed_node m"
    using assms(1,3) same by (fastforce simp: updateNodeValues_def canvas_ok_def)
  ultimately show ?thesis using assms(1) by (simp add: canvas_ok_def)
qed

lemma converted_typed: "convert_node ps x = Inr y \<Longrightarrow> typed_node y"
proof -
  assume c: "convert_node ps x = Inr y"
  obtain d where d: "map_of nodeRegistry (pn_type x) = Some d"
    and y: "sn_data y = \<lparr>sd_type = pn_type x, sd_kind = nd_kind d, sd_title = (if pn_title x = [] then nd_label d else pn_title x),
      sd_values = List.map_filter (\<lambda>f. map_option (Pair (nf_key f)) (map_of (pn_values x) (nf_key f))) (nd_fields d)\<rparr>"
    using c by (auto simp: convert_node_def js_lookup_Own_iff split: lookup.splits)
  have "map fst (List.map_filter (\<lambda>f. map_option (Pair (nf_key f)) (map_of (pn_values x) (nf_key f))) fs) =
      map nf_key (filter (\<lambda>f. map_of (pn_values x) (nf_key f) \<noteq> None) fs)" for fs
    by (induction fs) (auto simp: List.map_filter_def)
  then have keys: "map fst (sd_values (sn_data y)) = map nf_key (filter (\<lambda>f. map_of (pn_values x) (nf_key f) \<noteq> None) (nd_fields d))"
    by (simp only: y step_node_data.simps)
  have "distinct (map nf_key (nd_fields d))" using registry_entry [OF d] by blast
  then have "distinct (map fst (sd_values (sn_data y)))" unfolding keys by (rule distinct_map_filter)
  moreover have "set (map fst (sd_values (sn_data y))) \<subseteq> nf_key ` set (nd_fields d)" unfolding keys by auto
  ultimately show "typed_node y" unfolding typed_node_def set_map using d by (simp add: y)
qed

lemma added_ok:
  assumes "canvas_ok f" and "(t, d) \<in> set nodeRegistry" and "uuid \<notin> fst ` set (fl_nodes f)"
  shows "canvas_ok (snd (palette_add loaded pro uuid pos (t, d) f))"
proof -
  have d: "map_of nodeRegistry t = Some d" using assms(2) distinct_registry by simp
  have "AList.update uuid n (fl_nodes f) = fl_nodes f @ [(uuid, n)]" for n
    using updates_fresh [of "fl_nodes f" "\<lambda>_. uuid" "[n]"] assms(1,3) by (simp add: canvas_ok_def)
  then show ?thesis using assms(1,3) d
    by (auto simp: palette_add_def canvas_ok_def typed_node_def Let_def filter_empty_conv)
qed

lemma generated_ok:
  assumes "convertWorkflowPlanToGraph toposort plan = Some (Inr g)" and "distinct (map pn_id (wp_nodes plan))"
    and "toposort_lib toposort"
  shows "canvas_ok (applyWorkflowGraph g root)"
proof -
  note c = converted_graph [OF assms(1)]
  obtain ps where "map_res (convert_node ps) (wp_nodes plan) = Inr (wg_nodes g)" using c(4) by blast
  then have "list_all2 (\<lambda>x y. convert_node ps x = Inr y) (wp_nodes plan) (wg_nodes g)" by (simp add: map_res_Inr)
  then have t: "\<forall>n \<in> set (wg_nodes g). typed_node n"
    by (induction rule: list_all2_induct) (auto simp: converted_typed)
  have d: "distinct (map sn_id (wg_nodes g))" using c(1) assms(2) by simp
  have n: "fl_nodes (applyWorkflowGraph g root) = map (\<lambda>n. (sn_id n, n)) (wg_nodes g)"
    using updates_fresh [of "[]" sn_id "wg_nodes g"] d by (simp add: applyWorkflowGraph_def Let_def)
  have "count_if is_trigger (wg_nodes g) = 1"
    using c(3) no_problems [OF assms(3)] runnable_eq by simp
  then show ?thesis using t d by (auto simp: canvas_ok_def n comp_def)
qed

lemma kept_fewer: "count_if p (map snd (filter q ns)) \<le> count_if p (map snd ns)"
  by (induction ns) auto

lemma at_least_one: "count_if p xs \<le> 1 \<Longrightarrow> count_if p xs = 1 \<longleftrightarrow> (\<exists>x \<in> set xs. p x)"
proof (cases "filter p xs = []")
  case True
  then show ?thesis by (auto simp: filter_empty_conv)
next
  case False
  moreover assume "count_if p xs \<le> 1"
  moreover have "count_if p xs \<noteq> 0" using False by simp
  ultimately have "count_if p xs = 1" by linarith
  then show ?thesis using False by (auto simp: filter_empty_conv)
qed

lemma arranged_ok:
  assumes "canvas_ok f"
  shows "canvas_ok (f\<lparr>fl_nodes := map (\<lambda>(k, n). (k, n\<lparr>sn_position := pos k\<rparr>)) (filter (keep \<circ> fst) (fl_nodes f)), fl_edges := es\<rparr>)"
proof -
  let ?ns = "filter (keep \<circ> fst) (fl_nodes f)" and ?move = "\<lambda>(k, n). (k, n\<lparr>sn_position := pos k\<rparr>)"
  have "map fst (map ?move ns) = map fst ns" for ns :: "(string \<times> step_node) list" by (induction ns) auto
  moreover have "distinct (map fst ?ns)" using assms by (simp add: canvas_ok_def distinct_map_filter)
  ultimately have keys: "distinct (map fst (map ?move ?ns))" by (simp only:)
  have "count_if is_trigger (map snd (map ?move ?ns)) = count_if is_trigger (map snd ?ns)"
    by (rule kept_triggers) simp
  also have "\<dots> \<le> count_if is_trigger (map snd (fl_nodes f))" by (rule kept_fewer)
  also have "\<dots> \<le> 1" using assms by (simp add: canvas_ok_def)
  finally have one: "count_if is_trigger (map snd (map ?move ?ns)) \<le> 1" .
  have "\<forall>(k, n) \<in> set (map ?move ?ns). sn_id n = k \<and> typed_node n"
    using assms by (auto simp: canvas_ok_def typed_node_def)
  moreover have "fl_nodes (f\<lparr>fl_nodes := ns, fl_edges := es\<rparr>) = ns" for ns by simp
  ultimately show ?thesis using keys one by (simp only: canvas_ok_def)
qed

lemma edit_ok:
  assumes "toposort_lib toposort" and "edit toposort ax parse_plan apiKey replies w f f'" and "canvas_ok f"
  shows "canvas_ok f'"
  using assms(2,3)
proof cases
  case (field k n d key v)
  moreover from this have "typed_node n" using assms(3) by (auto simp: canvas_ok_def)
  ultimately show ?thesis
    unfolding field_change_def using updateNodeValues_ok [OF assms(3)] typed_values by simp
next
  case (token k n d active tok)
  have n: "typed_node n" using assms(3) token(2) by (auto simp: canvas_ok_def)
  show ?thesis
  proof (cases "truthy (targetKey active d)")
    case True
    then have "nullish (targetKey active d) [] \<in> nf_key ` set (nd_fields d)"
      using token(4) by (auto simp: targetKey_def split: option.splits list.splits)
    from updateNodeValues_ok [OF assms(3) token(2) typed_values [OF n token(3) this]] True
    show ?thesis unfolding token(1) by (simp add: insertToken_def Let_def)
  qed (use assms(3) token(1) in \<open>simp add: insertToken_def\<close>)
next
  case (generated s goal storage s')
  from handleGenerate_cases [of toposort "planWorkflowAction ax parse_plan apiKey replies w goal" storage s] generated(2)
  obtain result plan g where p: "planWorkflowAction ax parse_plan apiKey replies w goal = Inr result" "pl_plan result = Some plan"
    "wp_canBuild plan" "convertWorkflowPlanToGraph toposort plan = Some (Inr g)" "wh_flow s' = Some (applyWorkflowGraph g (wh_flow s))"
    by auto
  have "f' = applyWorkflowGraph g (wh_flow s)" using generated(3) p(5) by simp
  with generated_ok [OF p(4) planned_plan [OF p(1-3)] assms(1)] show ?thesis by blast
qed (use assms(3) in \<open>simp_all add: added_ok arranged_ok\<close>)


section \<open>Witnesses\<close>

definition sample_answers :: "nat \<Rightarrow> reply" where
  "sample_answers i = Content (Some (fence @ ''{}'' @ fence))"

lemma sample_answered: "generateWorkflowPlan kahn_sort sample_parser (Some ''key'') sample_answers = Inr sample_plan"
  unfolding sample_answers_def [abs_def] by (rule sample_generated)

lemma sample_planned:
  "planWorkflowAction (demo_ax []) sample_parser (Some ''key'') sample_answers ''w'' ''goal'' =
     Inr \<lparr>pl_success = True, pl_text = Some ''Workflow plan generated successfully.'', pl_plan = Some sample_plan\<rparr>"
proof -
  have "goalSchema z ''goal'' = Inr ''goal''" for z by (simp add: goalSchema_def trim_def Let_def) code_simp
  moreover have "wp_canBuild sample_plan" by (simp add: sample_plan_def)
  ultimately show ?thesis
    by (simp add: planWorkflowAction_def parseActionInput_def at_path_def workflowIdSchema_def demo_fields demo_org sample_answered)
qed

lemma sample_shown:
  "\<exists>g. convertWorkflowPlanToGraph kahn_sort sample_plan = Some (Inr g) \<and>
     handleGenerate kahn_sort (planWorkflowAction (demo_ax []) sample_parser (Some ''key'')
       sample_answers ''w'' ''goal'') (Inr ()) (new_shell True flow) =
     Some (Inr (), (new_shell True flow)\<lparr>wh_flow := Some (applyWorkflowGraph g flow), wh_isPreview := True,
       wh_viewMode := CanvasView, wh_newInUrl := False\<rparr>)"
proof -
  obtain g where "convertWorkflowPlanToGraph kahn_sort sample_plan = Some (Inr g)"
    using planned_convertible [OF kahn.toposort_lib_axioms sample_answered] by (auto simp: sample_plan_def object_proto_names_def)
  moreover have "wp_canBuild sample_plan" by (simp add: sample_plan_def)
  ultimately show ?thesis by (simp add: sample_planned handleGenerate_def new_shell_def)
qed

lemma sample_ids: "map pn_id (wp_nodes sample_plan) = [''s'', ''u'']"
  by (simp add: sample_plan_def)



text \<open>
  On a typed canvas the inspector always opens, with one input per field of the node's type, and after a change the
  input shows what was typed, the other inputs of the node are as before.
\<close>

theorem typed_field_shown:
  assumes "canvas_ok f" and "(k, n) \<in> set (fl_nodes f)" and "inspector_view (Some n) cs = Some (NodeEditor title inputs cs)"
    and "i \<in> set inputs"
  shows "\<exists>n'. (k, n') \<in> set (fl_nodes (field_change n (fi_key i) v f)) \<and>
    inspector_view (Some n') cs =
      Some (NodeEditor title (map (\<lambda>j. if fi_key j = fi_key i then j\<lparr>fi_value := v\<rparr> else j) inputs) cs)"
proof -
  let ?n = "n\<lparr>sn_data := (sn_data n)\<lparr>sd_values := AList.update (fi_key i) v (sd_values (sn_data n))\<rparr>\<rparr>"
  have "sn_id n = k" using assms(1,2) by (auto simp: canvas_ok_def)
  then have "(k, ?n) \<in> set (fl_nodes (field_change n (fi_key i) v f))"
    using assms(2) by (force simp: field_change_def updateNodeValues_def)
  moreover obtain d where "map_of nodeRegistry (sd_type (sn_data n)) = Some d" "title = sd_title (sn_data n)"
    "inputs = map (\<lambda>f. \<lparr>fi_key = nf_key f, fi_label = nf_label f, fi_required = nullish (nf_required f) False,
       fi_multiline = nullish (nf_multiline f) False, fi_value = nullish (map_of (sd_values (sn_data n)) (nf_key f)) []\<rparr>) (nd_fields d)"
    using assms(3) by (auto simp: inspector_view_def)
  then have "inspector_view (Some ?n) cs =
      Some (NodeEditor title (map (\<lambda>j. if fi_key j = fi_key i then j\<lparr>fi_value := v\<rparr> else j) inputs) cs)"
    by (simp add: inspector_view_def update_conv)
  ultimately show ?thesis by blast
qed

text \<open>
  The planner checks that the node ids of a plan differ, but not the ids of its edges.  Two edges with the same id
  become one entry of the map, the last one: the canvas lacks a connection of the plan, here the one from the start
  node, and the run button still accepts it.
\<close>

definition same_id_plan :: workflow_plan where
  "same_id_plan = sample_plan\<lparr>
     wp_nodes := wp_nodes sample_plan @ [\<lparr>pn_id = ''v'', pn_type = ''act'', pn_title = ''Act'', pn_values = []\<rparr>],
     wp_edges := [\<lparr>pe_id = ''e1'', pe_source = ''s'', pe_target = ''u''\<rparr>, \<lparr>pe_id = ''e1'', pe_source = ''u'', pe_target = ''v''\<rparr>]\<rparr>"

theorem same_id_edges_lost:
  "validate_plan kahn_sort same_id_plan = Inr same_id_plan \<and>
   (\<exists>g. convertWorkflowPlanToGraph kahn_sort same_id_plan = Some (Inr g) \<and>
      edge_pairs (wg_edges (canvas_graph (applyWorkflowGraph g None))) = [(''u'', ''v'')] \<and>
      validateGraph kahn_sort (canvas_graph (applyWorkflowGraph g None)) = [])"
proof -
  have types: "check_types (wp_nodes same_id_plan) = None"
    unfolding check_types_None by (simp add: same_id_plan_def sample_plan_def nodeRegistry_def)
  have valid: "validate_plan kahn_sort same_id_plan = Inr same_id_plan"
    using types by (simp add: validate_plan_def same_id_plan_def sample_plan_def plan_pairs_def kahn_sort_def is_source_def)
  have "case convertWorkflowPlanToGraph kahn_sort same_id_plan of
      Some (Inr g) \<Rightarrow> edge_pairs (wg_edges (canvas_graph (applyWorkflowGraph g None))) = [(''u'', ''v'')] \<and>
        validateGraph kahn_sort (canvas_graph (applyWorkflowGraph g None)) = []
    | _ \<Rightarrow> False" by code_simp
  then show ?thesis using valid by (auto split: option.splits sum.splits)
qed

end
