(* ===== verification/Console.thy ===== *)
theory Console
  imports Monitor StepView
begin

text \<open>
  The run console below the canvas: what is selected and which results popup is open
  (\<open>components/console-panel.tsx\<close>), the list of runs (\<open>logs-panel.tsx\<close>), the pane of the selection
  (\<open>inspector-panel.tsx\<close>) and the results popup (\<open>run-results-dialog.tsx\<close>), each as the texts, parts and actions it
  shows; the markup is left out.  The \<open>pretty-ms\<close> package and the local time text are arguments.
\<close>

section \<open>The selection\<close>

datatype console_selection = StepSel string string | ReplaySel string | SummarySel string

fun sel_run :: "console_selection \<Rightarrow> string" where
  "sel_run (StepSel runId nodeId) = runId"
| "sel_run (ReplaySel runId) = runId"
| "sel_run (SummarySel runId) = runId"

fun isSameSelection :: "console_selection \<Rightarrow> console_selection \<Rightarrow> bool" where
  "isSameSelection (StepSel r n) (StepSel r' n') = (r = r' \<and> n = n')"
| "isSameSelection (ReplaySel r) (ReplaySel r') = (r = r')"
| "isSameSelection (SummarySel r) (SummarySel r') = (r = r')"
| "isSameSelection a b = False"

record console =
  cn_selected :: "console_selection option"
  cn_resultsRunId :: "string option"
  cn_runId :: "string option"
  cn_terminalOnFirstSight :: bool
  cn_notifiedRunId :: "string option"

definition new_console :: console where
  "new_console =
     \<lparr>cn_selected = None, cn_resultsRunId = None, cn_runId = None, cn_terminalOnFirstSight = False, cn_notifiedRunId = None\<rparr>"

text \<open>The effect of a newest run: tracking it, and opening its results once.\<close>

definition track :: "console_run \<Rightarrow> console \<Rightarrow> console" where
  "track latestRun c =
     (if cn_runId c \<noteq> Some (cr_id latestRun)
      then c\<lparr>cn_runId := Some (cr_id latestRun), cn_terminalOnFirstSight := cr_isTerminal latestRun\<rparr> else c)"

definition opens :: "console_run \<Rightarrow> console \<Rightarrow> bool" where
  "opens latestRun c \<longleftrightarrow>
     \<not> cn_terminalOnFirstSight c \<and> cr_isTerminal latestRun \<and> cn_notifiedRunId c \<noteq> Some (cr_id latestRun)"

definition show_results :: "string \<Rightarrow> console \<Rightarrow> console" where
  "show_results runId c = c\<lparr>cn_selected := Some (SummarySel runId), cn_resultsRunId := Some runId\<rparr>"

definition on_runs :: "console_run list \<Rightarrow> console \<Rightarrow> console" where
  "on_runs runs c =
     (case useLatestRun runs of
        None \<Rightarrow> c
      | Some latestRun \<Rightarrow>
          let c = track latestRun c
          in if opens latestRun c then show_results (cr_id latestRun) (c\<lparr>cn_notifiedRunId := Some (cr_id latestRun)\<rparr>) else c)"

definition toggle :: "console_selection \<Rightarrow> console \<Rightarrow> console" where
  "toggle selection c =
     c\<lparr>cn_selected :=
        (if (case cn_selected c of Some prev \<Rightarrow> isSameSelection prev selection | None \<Rightarrow> False) then None else Some selection)\<rparr>"

definition close_results :: "console \<Rightarrow> console" where
  "close_results c = c\<lparr>cn_resultsRunId := None\<rparr>"

definition handleWatchReplay :: "string \<Rightarrow> console \<Rightarrow> console" where
  "handleWatchReplay runId c = toggle (ReplaySel runId) (close_results c)"

section \<open>The list of runs\<close>

record step_row =
  sw_nodeId :: string
  sw_title :: string
  sw_duration :: "string option"
  sw_running :: bool
  sw_failed :: bool
  sw_inactive :: bool
  sw_isSelected :: bool

definition StepRow :: "(int \<Rightarrow> string) \<Rightarrow> console_selection option \<Rightarrow> console_run \<Rightarrow> run_step \<Rightarrow> step_row" where
  "StepRow prettyMs selected run step =
     \<lparr>sw_nodeId = st_nodeId step, sw_title = st_title step, sw_duration = map_option prettyMs (st_durationMs step),
      sw_running = (st_status step = SRunning \<and> cr_isLive run), sw_failed = (st_status step = SFailed),
      sw_inactive = (st_status step = SPending \<or> st_status step = SCanceled),
      sw_isSelected = (selected = Some (StepSel (cr_id run) (st_nodeId step)))\<rparr>"

text \<open>The replay row of a run, if it has one: whether it is locked and whether it is selected.\<close>

definition ReplayRow :: "bool \<Rightarrow> bool \<Rightarrow> console_selection option \<Rightarrow> console_run \<Rightarrow> (bool \<times> bool) option" where
  "ReplayRow isLoaded isPro selected run =
     (if truthy (cr_session run) \<and> \<not> cr_isLive run
      then Some (isLoaded \<and> \<not> isPro, selected = Some (ReplaySel (cr_id run))) else None)"

text \<open>A click on the replay row selects the recording, or leads to the billing page (\<open>None\<close>).\<close>

definition replay_clicked :: "bool \<Rightarrow> bool \<Rightarrow> string \<Rightarrow> console \<Rightarrow> console option" where
  "replay_clicked isLoaded isPro runId c = (if isLoaded \<and> \<not> isPro then None else Some (toggle (ReplaySel runId) c))"

record run_rows =
  rn_label :: string
  rn_progress :: string
  rn_duration :: "string option"
  rn_summarySelected :: bool
  rn_steps :: "step_row list"
  rn_replay :: "(bool \<times> bool) option"

definition LogsPanel ::
    "(int \<Rightarrow> string) \<Rightarrow> bool \<Rightarrow> bool \<Rightarrow> console_selection option \<Rightarrow> console_run list \<Rightarrow> run_rows list" where
  "LogsPanel prettyMs isLoaded isPro selected runs =
     map (\<lambda>run.
       \<lparr>rn_label = consoleRunStatusLabel run,
        rn_progress = nat_text (cr_completedCount run) @ ''/'' @ nat_text (cr_totalCount run) @ '' steps'',
        rn_duration = map_option prettyMs (cr_durationMs run),
        rn_summarySelected = (selected = Some (SummarySel (cr_id run))),
        rn_steps = map (StepRow prettyMs selected run) (cr_steps run),
        rn_replay = ReplayRow isLoaded isPro selected run\<rparr>) runs"

section \<open>The canvas\<close>

text \<open>What a node on the canvas shows of the latest run, and of its own values.\<close>

record node_badges =
  nb_running :: bool
  nb_done :: bool
  nb_failed :: bool
  nb_canceled :: bool
  nb_pending :: bool
  nb_hasTarget :: bool
  nb_fields :: "(string \<times> string) list"

definition StepNode :: "console_run list \<Rightarrow> string \<Rightarrow> step_node_data \<Rightarrow> node_badges option" where
  "StepNode runs i d =
     map_option (\<lambda>def.
       let (steps, isLive) = useLatestRunSteps runs;
           status = map_option st_status (List.find (\<lambda>s. st_nodeId s = i) steps)
       in \<lparr>nb_running = (status = Some SRunning \<and> isLive), nb_done = (status = Some SDone), nb_failed = (status = Some SFailed),
           nb_canceled = (status = Some SCanceled), nb_pending = (status = Some SPending \<and> isLive),
           nb_hasTarget = (sd_kind d \<noteq> Trigger),
           nb_fields = map (\<lambda>f. (nf_label f, nullish (map_of (sd_values d) (nf_key f)) []))
             (filter (\<lambda>f. truthy (map_of (sd_values d) (nf_key f))) (nd_fields def))\<rparr>)
       (map_of nodeRegistry (sd_type d))"

section \<open>The pane of the selection\<close>

definition dash :: string where "dash = [CHR 0xE2, CHR 0x80, CHR 0x94]"

definition ellipsis :: string where "ellipsis = [CHR 0xE2, CHR 0x80, CHR 0xA6]"

datatype run_button = ViewFullResults | WatchSessionReplay | RunAgain

record run_summary =
  su_title :: string
  su_duration :: string
  su_nodes :: string
  su_failed :: "string option"
  su_finalUrl :: "string option"
  su_buttons :: "run_button list"
  su_steps :: "(string \<times> string \<times> string option \<times> step_status) list"

definition counts_text :: "console_run \<Rightarrow> string" where
  "counts_text run = nat_text (cr_completedCount run) @ ''/'' @ nat_text (cr_totalCount run) @ '' completed''"

definition failed_text :: "console_run \<Rightarrow> string option" where
  "failed_text run = (if 0 < cr_failedCount run then Some (''('' @ nat_text (cr_failedCount run) @ '' failed)'') else None)"

definition RunSummary :: "(int \<Rightarrow> string) \<Rightarrow> console_run \<Rightarrow> run_summary" where
  "RunSummary prettyMs run =
     \<lparr>su_title = (if cr_isLive run then ''Workflow Executing'' else if cr_isCompleted run then ''Workflow Completed''
        else if cr_isFailed run then ''Workflow Failed'' else if cr_isCanceled run then ''Workflow Stopped''
        else ''Workflow '' @ to_lower (console_status_text (cr_status run))),
      su_duration = (case cr_durationMs run of Some d \<Rightarrow> prettyMs d
        | None \<Rightarrow> if cr_isLive run then ''In progress'' @ ellipsis else dash),
      su_nodes = counts_text run, su_failed = failed_text run,
      su_finalUrl = (if truthy (cr_finalUrl run) then cr_finalUrl run else None),
      su_buttons = (if cr_isLive run then []
        else [ViewFullResults] @ (if truthy (cr_session run) then [WatchSessionReplay] else []) @ [RunAgain]),
      su_steps = map (\<lambda>s. (st_nodeId s, st_title s, map_option prettyMs (st_durationMs s), st_status s)) (cr_steps run)\<rparr>"

datatype pane =
  PaneNote string | SummaryPane run_summary | ReplayPane string string | StepPane string "part list"

text \<open>What the pane says about a step, by its status.\<close>

definition step_pane ::
    "(string \<Rightarrow> jsval option) \<Rightarrow> (jsval \<Rightarrow> string) \<Rightarrow> run_step \<Rightarrow> part list" where
  "step_pane parse pretty step =
     (case st_status step of
        SPending \<Rightarrow> [Note (''This step hasn'' @ [CHR 0x27] @ ''t run yet.'')]
      | SRunning \<Rightarrow> [Note (''Waiting for this step to finish'' @ ellipsis)]
      | SCanceled \<Rightarrow> [Note ''This step was canceled before it ran.'']
      | _ \<Rightarrow> StepOutputView parse pretty step)"

definition InspectorPanel ::
    "(int \<Rightarrow> string) \<Rightarrow> (string \<Rightarrow> jsval option) \<Rightarrow> (jsval \<Rightarrow> string) \<Rightarrow> console_run list \<Rightarrow> console_selection \<Rightarrow> pane" where
  "InspectorPanel prettyMs parse pretty runs selection =
     (let run = List.find (\<lambda>r. cr_id r = sel_run selection) runs in
      case selection of
        SummarySel runId \<Rightarrow>
          (case run of None \<Rightarrow> PaneNote ''This run is no longer available.'' | Some r \<Rightarrow> SummaryPane (RunSummary prettyMs r))
      | ReplaySel runId \<Rightarrow>
          if \<not> truthy (Option.bind run cr_session) then PaneNote ''This recording is no longer available.''
          else ReplayPane (nullish (Option.bind run cr_session) []) runId
      | StepSel runId nodeId \<Rightarrow>
          (case Option.bind run (\<lambda>r. List.find (\<lambda>s. st_nodeId s = nodeId) (cr_steps r)) of
             None \<Rightarrow> PaneNote ''This step is no longer available.''
           | Some step \<Rightarrow> StepPane (st_title step) (step_pane parse pretty step)))"

section \<open>The results popup\<close>

record results =
  re_title :: string
  re_duration :: string
  re_counts :: string
  re_failed :: "string option"
  re_screenshot :: "string option"
  re_finalUrl :: "string option"
  re_steps :: "(string \<times> string option \<times> step_status \<times> part list) list"
  re_watchReplay :: bool

text \<open>What the popup says about a step.\<close>

definition step_result ::
    "(string \<Rightarrow> jsval option) \<Rightarrow> (jsval \<Rightarrow> string) \<Rightarrow> run_step \<Rightarrow> part list" where
  "step_result parse pretty step =
     (if st_status step = SDone \<or> st_status step = SFailed then StepOutputView parse pretty step
      else [Note (if st_status step = SPending then ''Didn'' @ [CHR 0x27] @ ''t run.''
                  else if st_status step = SCanceled then ''Canceled before it ran.'' else ''Still running'' @ ellipsis)])"

definition RunResultsDialog ::
    "(int \<Rightarrow> string) \<Rightarrow> (string \<Rightarrow> jsval option) \<Rightarrow> (jsval \<Rightarrow> string) \<Rightarrow> console_run option \<Rightarrow> results option" where
  "RunResultsDialog prettyMs parse pretty r =
     map_option (\<lambda>run.
       \<lparr>re_title = (if cr_isCompleted run then ''Workflow completed'' else if cr_isFailed run then ''Workflow failed''
          else if cr_isCanceled run then ''Workflow stopped'' else ''Workflow results''),
        re_duration = (case cr_durationMs run of Some d \<Rightarrow> prettyMs d | None \<Rightarrow> dash),
        re_counts = counts_text run, re_failed = failed_text run,
        re_screenshot = (if truthy (cr_session run) then Some (''/api/runs/'' @ cr_id run @ ''/screenshot'') else None),
        re_finalUrl = (if truthy (cr_finalUrl run) then cr_finalUrl run else None),
        re_steps = map (\<lambda>s. (st_title s, map_option prettyMs (st_durationMs s), st_status s, step_result parse pretty s)) (cr_steps run),
        re_watchReplay = truthy (cr_session run)\<rparr>) r"

text \<open>The panel: the pane of the selection, if any, and the popup of the run whose results are open.\<close>

definition ConsolePanel ::
    "(int \<Rightarrow> string) \<Rightarrow> (string \<Rightarrow> jsval option) \<Rightarrow> (jsval \<Rightarrow> string) \<Rightarrow> console_run list \<Rightarrow> console \<Rightarrow>
     pane option \<times> results option" where
  "ConsolePanel prettyMs parse pretty runs c =
     (map_option (InspectorPanel prettyMs parse pretty runs) (cn_selected c),
      Option.bind (cn_resultsRunId c) (\<lambda>i. RunResultsDialog prettyMs parse pretty (List.find (\<lambda>r. cr_id r = i) runs)))"

section \<open>The popup opens once per watched run\<close>

text \<open>The runs whose popup opens by itself, over the lists the console sees one after the other.\<close>

fun popups :: "console \<Rightarrow> console_run list list \<Rightarrow> string list" where
  "popups c [] = []"
| "popups c (runs # rest) =
     (case useLatestRun runs of
        Some l \<Rightarrow> if opens l (track l c) then [cr_id l] else [] | None \<Rightarrow> []) @ popups (on_runs runs c) rest"

definition newest :: "console_run list list \<Rightarrow> console_run list" where
  "newest seen = List.map_filter useLatestRun seen"

text \<open>The runs that end while they are watched: newest and not ended, and in the next list newest and ended.\<close>

fun finishes :: "console_run list \<Rightarrow> string list" where
  "finishes (r # q # rest) =
     (if cr_id r = cr_id q \<and> \<not> cr_isTerminal r \<and> cr_isTerminal q then [cr_id q] else []) @ finishes (q # rest)"
| "finishes _ = []"

text \<open>A run that has ended stays ended.\<close>

fun stays_ended :: "console_run list \<Rightarrow> bool" where
  "stays_ended [] = True"
| "stays_ended (r # rest) =
     ((cr_isTerminal r \<longrightarrow> list_all (\<lambda>q. cr_id q = cr_id r \<longrightarrow> cr_isTerminal q) rest) \<and> stays_ended rest)"

lemma newest_simps [simp]:
  "newest [] = []"
  "newest (runs # rest) = (case useLatestRun runs of None \<Rightarrow> newest rest | Some l \<Rightarrow> l # newest rest)"
  by (auto simp: newest_def List.map_filter_simps split: option.splits)

text \<open>What the console remembers of the newest run it saw last.\<close>

definition remembers :: "console_run \<Rightarrow> console \<Rightarrow> bool" where
  "remembers l c \<longleftrightarrow> cn_runId c = Some (cr_id l) \<and>
     (if cr_isTerminal l then cn_terminalOnFirstSight c \<or> cn_notifiedRunId c = Some (cr_id l) else \<not> cn_terminalOnFirstSight c)"

text \<open>The run notified last, and the one seen last, do not revive.\<close>

definition ended_kept :: "console \<Rightarrow> console_run list \<Rightarrow> bool" where
  "ended_kept c ls \<longleftrightarrow> (\<forall>q \<in> set ls. cn_notifiedRunId c = Some (cr_id q) \<longrightarrow> cr_isTerminal q)"

lemma track_fields:
  "cn_runId (track q c) = Some (cr_id q)" "cn_notifiedRunId (track q c) = cn_notifiedRunId c"
  "cn_terminalOnFirstSight (track q c) =
     (if cn_runId c = Some (cr_id q) then cn_terminalOnFirstSight c else cr_isTerminal q)"
  by (simp_all add: track_def)

lemma on_runs_fields:
  assumes "useLatestRun runs = Some q"
  shows "cn_runId (on_runs runs c) = Some (cr_id q)"
    and "cn_notifiedRunId (on_runs runs c) = (if opens q (track q c) then Some (cr_id q) else cn_notifiedRunId c)"
    and "cn_terminalOnFirstSight (on_runs runs c) = cn_terminalOnFirstSight (track q c)"
  using assms by (simp_all add: on_runs_def show_results_def track_fields Let_def)

lemma popup_decision:
  assumes "remembers l c" and "cr_isTerminal l \<longrightarrow> cr_id q = cr_id l \<longrightarrow> cr_isTerminal q"
    and "\<not> cr_isTerminal l \<longrightarrow> cn_notifiedRunId c \<noteq> Some (cr_id l)"
  shows "opens q (track q c) \<longleftrightarrow> cr_id l = cr_id q \<and> \<not> cr_isTerminal l \<and> cr_isTerminal q"
proof (cases "cr_id l = cr_id q")
  case True
  with assms show ?thesis by (auto simp: opens_def track_fields remembers_def split: if_splits)
next
  case False
  with assms(1) show ?thesis by (simp add: opens_def track_fields remembers_def)
qed

lemma popup_remembered:
  assumes "useLatestRun runs = Some q" and "remembers l c" and "cr_isTerminal l \<longrightarrow> cr_id q = cr_id l \<longrightarrow> cr_isTerminal q"
    and "\<not> cr_isTerminal l \<longrightarrow> cn_notifiedRunId c \<noteq> Some (cr_id l)" and "ended_kept c (q # qs)"
  shows "remembers q (on_runs runs c)" and "\<not> cr_isTerminal q \<longrightarrow> cn_notifiedRunId (on_runs runs c) \<noteq> Some (cr_id q)"
proof -
  note o = popup_decision [OF assms(2-4)]
  show "remembers q (on_runs runs c)"
  proof (cases "cr_id l = cr_id q")
    case True
    with assms(2,3) show ?thesis by (auto simp: remembers_def on_runs_fields [OF assms(1)] track_fields o split: if_splits)
  next
    case False
    with assms(2) show ?thesis by (auto simp: remembers_def on_runs_fields [OF assms(1)] track_fields o)
  qed
  show "\<not> cr_isTerminal q \<longrightarrow> cn_notifiedRunId (on_runs runs c) \<noteq> Some (cr_id q)"
    using assms(5) by (auto simp: on_runs_fields [OF assms(1)] o ended_kept_def)
qed

lemma popup_kept:
  assumes "useLatestRun runs = Some q" and "ended_kept c (q # qs)"
    and "cr_isTerminal q \<longrightarrow> list_all (\<lambda>p. cr_id p = cr_id q \<longrightarrow> cr_isTerminal p) qs"
  shows "ended_kept (on_runs runs c) qs"
  using assms(2,3) by (auto simp: ended_kept_def on_runs_fields [OF assms(1)] opens_def list_all_iff)

lemma popups_after:
  "remembers l c \<Longrightarrow> ended_kept c (newest seen) \<Longrightarrow> \<not> cr_isTerminal l \<longrightarrow> cn_notifiedRunId c \<noteq> Some (cr_id l) \<Longrightarrow>
   stays_ended (l # newest seen) \<Longrightarrow> popups c seen = finishes (l # newest seen)"
proof (induction seen arbitrary: l c)
  case (Cons runs rest)
  show ?case
  proof (cases "useLatestRun runs")
    case None
    with Cons show ?thesis by (simp add: on_runs_def)
  next
    case (Some q)
    have ended: "cr_isTerminal l \<longrightarrow> cr_id q = cr_id l \<longrightarrow> cr_isTerminal q" and tail: "stays_ended (q # newest rest)"
      using Cons.prems(4) Some by simp_all
    have kept: "ended_kept c (q # newest rest)" using Cons.prems(2) Some by simp
    note r = popup_remembered [OF Some Cons.prems(1) ended Cons.prems(3) kept]
    have "popups (on_runs runs c) rest = finishes (q # newest rest)"
      using Cons.IH [OF r(1) popup_kept [OF Some kept] r(2) tail] tail by simp
    then show ?thesis using Some popup_decision [OF Cons.prems(1) ended Cons.prems(3)] by simp
  qed
qed simp

lemma finishes_once:
  "stays_ended ls \<Longrightarrow> distinct (finishes ls) \<and> (\<forall>i \<in> set (finishes ls). \<exists>r \<in> set ls. cr_id r = i \<and> \<not> cr_isTerminal r)"
proof (induction ls rule: finishes.induct)
  case (1 r q rest)
  have tail: "stays_ended (q # rest)" using "1.prems" by simp
  note ih = "1.IH" [OF tail]
  have "cr_id q \<notin> set (finishes (q # rest))" if "cr_isTerminal q"
  proof
    assume "cr_id q \<in> set (finishes (q # rest))"
    then obtain x where "x \<in> set (q # rest)" "cr_id x = cr_id q" "\<not> cr_isTerminal x" using ih by blast
    with tail that show False by (auto simp: list_all_iff)
  qed
  then have "distinct (finishes (r # q # rest))"
    using ih by (cases "cr_id r = cr_id q \<and> \<not> cr_isTerminal r \<and> cr_isTerminal q") (auto split: if_splits)
  moreover have "\<exists>x \<in> set (r # q # rest). cr_id x = i \<and> \<not> cr_isTerminal x" if "i \<in> set (finishes (r # q # rest))" for i
  proof (cases "i \<in> set (finishes (q # rest))")
    case True
    then show ?thesis using ih by (meson list.set_intros(2))
  next
    case False
    with that have "cr_id r = i" "\<not> cr_isTerminal r" by (auto split: if_splits)
    then show ?thesis by simp
  qed
  ultimately show ?case by blast
qed simp_all

text \<open>
  C39. The results popup opens by itself exactly for the runs that end while they are watched, in that order, and once
  for each, provided an ended run stays ended.  A run that has already ended when it is first seen never opens it.
\<close>

theorem popup_once_per_watched_run:
  assumes "stays_ended (newest seen)"
  shows "popups new_console seen = finishes (newest seen) \<and> distinct (popups new_console seen)"
proof -
  have "popups new_console seen = finishes (newest seen)" using assms
  proof (induction seen)
    case (Cons runs rest)
    show ?case
    proof (cases "useLatestRun runs")
      case None
      with Cons show ?thesis by (simp add: on_runs_def)
    next
      case (Some q)
      have first: "\<not> opens q (track q new_console)" by (simp add: opens_def track_fields new_console_def)
      then have "remembers q (on_runs runs new_console)" "cn_notifiedRunId (on_runs runs new_console) = None"
        by (simp_all add: remembers_def on_runs_fields [OF Some] track_fields) (simp_all add: new_console_def)
      then show ?thesis
        using popups_after [of q "on_runs runs new_console" rest] Cons.prems Some first by (simp add: ended_kept_def)
    qed
  qed simp
  then show ?thesis using finishes_once [OF assms] by simp
qed

section \<open>The popup and the selection\<close>

text \<open>What can happen while the page is open; the popup is modal, so that the panes behind it take no clicks.\<close>

inductive console_step :: "console \<Rightarrow> console \<Rightarrow> bool" where
  "console_step c (on_runs runs c)"
| "cn_resultsRunId c = None \<Longrightarrow> console_step c (toggle selection c)"
| "cn_resultsRunId c = None \<Longrightarrow> console_step c (show_results runId c)"
| "console_step c (close_results c)"
| "cn_resultsRunId c = Some runId \<Longrightarrow> console_step c (handleWatchReplay runId c)"

definition popup_over_summary :: "console \<Rightarrow> bool" where
  "popup_over_summary c \<longleftrightarrow> (\<forall>r. cn_resultsRunId c = Some r \<longrightarrow> cn_selected c = Some (SummarySel r))"

lemma console_step_summary: "console_step c c' \<Longrightarrow> popup_over_summary c \<Longrightarrow> popup_over_summary c'"
  by (induction rule: console_step.induct)
    (auto simp: popup_over_summary_def on_runs_def show_results_def toggle_def close_results_def handleWatchReplay_def track_def Let_def
       split: option.splits)

text \<open>
  The popup always lies over the summary of its run.  So its replay button, which toggles the selection, shows the
  recording of the run of the popup, never hides it, when the run has a session.
\<close>

theorem watch_replay_shows:
  assumes "console_step\<^sup>*\<^sup>* new_console c" and "cn_resultsRunId c = Some r"
    and "List.find (\<lambda>q. cr_id q = r) runs = Some run" and "cr_session run = Some sid" and "sid \<noteq> []"
  shows "ConsolePanel prettyMs parse pretty runs (handleWatchReplay r c) = (Some (ReplayPane sid r), None)"
proof -
  have "popup_over_summary new_console" by (simp add: popup_over_summary_def new_console_def)
  with assms(1) have "popup_over_summary c" by (induction rule: rtranclp_induct) (auto intro: console_step_summary)
  then have "cn_selected (handleWatchReplay r c) = Some (ReplaySel r)" "cn_resultsRunId (handleWatchReplay r c) = None"
    using assms(2) by (simp_all add: popup_over_summary_def handleWatchReplay_def toggle_def close_results_def)
  then show ?thesis using assms(3-5) by (simp add: ConsolePanel_def InspectorPanel_def)
qed

text \<open>
  A step a dead run left running.  The list stops its spinner, as a comment there asks for, but the pane of the step
  waits for it to finish, and the results of the ended run say it is still running.
\<close>

theorem dead_step_waits:
  assumes "run \<in> set runs" and "distinct (map cr_id runs)" and "\<not> cr_isLive run"
    and "step \<in> set (cr_steps run)" and "distinct (map st_nodeId (cr_steps run))" and "st_status step = SRunning"
  shows "\<not> sw_running (StepRow prettyMs selected run step) \<and>
    InspectorPanel prettyMs parse pretty runs (StepSel (cr_id run) (st_nodeId step)) =
      StepPane (st_title step) [Note (''Waiting for this step to finish'' @ ellipsis)] \<and>
    step_result parse pretty step = [Note (''Still running'' @ ellipsis)]"
proof -
  have find: "List.find (\<lambda>y. f y = f x) xs = Some x" if "x \<in> set xs" "distinct (map f xs)" for f :: "'b \<Rightarrow> string" and x xs
    using that by (induction xs) auto
  have "List.find (\<lambda>r. cr_id r = cr_id run) runs = Some run" using find [OF assms(1,2)] .
  moreover have "List.find (\<lambda>s. st_nodeId s = st_nodeId step) (cr_steps run) = Some step" using find [OF assms(4,5)] .
  ultimately show ?thesis
    using assms(3,6) by (simp add: StepRow_def InspectorPanel_def step_pane_def step_result_def Let_def)
qed

section \<open>Witnesses\<close>

definition seen_run :: "string \<Rightarrow> string \<Rightarrow> console_run" where
  "seen_run i status = toConsoleRunFromLegacy
     \<lparr>lr_id = i, lr_status = status, lr_createdAt = 0, lr_output = None, lr_metadata = None\<rparr>"

theorem popup_once_per_watched_run_witness:
  "popups new_console [[], [seen_run ''a'' ''COMPLETED''], [seen_run ''b'' ''QUEUED'', seen_run ''a'' ''COMPLETED''],
     [seen_run ''b'' ''EXECUTING''], [seen_run ''b'' ''FAILED''], [seen_run ''b'' ''FAILED'']] = [''b'']"
  (is "popups _ ?seen = _")
proof -
  have "stays_ended (newest ?seen) \<and> finishes (newest ?seen) = [''b'']"
    by (simp add: useLatestRun_def seen_run_def toConsoleRunFromLegacy_def isLegacyRunTerminal_def Let_def)
  then show ?thesis using popup_once_per_watched_run [of ?seen] by simp
qed

end
