(* ===== verification/LiveBrowser.thy ===== *)
theory LiveBrowser
  imports Monitor Access
begin

text \<open>
  The live browser pane next to the canvas (\<open>components/live-browser.tsx\<close>) and the player of a finished session
  (\<open>components/session-replay.tsx\<close>), as state machines: React renders until no state changes any more, then runs the
  effects whose dependencies changed, cancelling their previous run.  The answers of the two routes arrive as inputs.
\<close>

section \<open>The live browser\<close>

definition MAX_RETRIES :: nat where "MAX_RETRIES = 30"

datatype live_status = Waiting | Connecting | Live | Unavailable | Ended

record live_props =
  bp_sessionId :: "string option"
  bp_runId :: "string option"
  bp_isRunLive :: bool

text \<open>
  \<open>lv_deps\<close> are the dependencies the connecting effect ran with last, \<open>lv_attempt\<close> its run that is not cancelled:
  session, run and retries.
\<close>

record live_browser =
  lv_debugUrl :: "string option"
  lv_status :: live_status
  lv_connectElapsed :: nat
  lv_trackedSessionId :: "string option"
  lv_notified :: "string option"
  lv_deps :: "(string option \<times> string option \<times> string option \<times> bool \<times> live_status) option"
  lv_attempt :: "(string \<times> string \<times> nat) option"

definition new_live_browser :: live_browser where
  "new_live_browser =
     \<lparr>lv_debugUrl = None, lv_status = Waiting, lv_connectElapsed = 0, lv_trackedSessionId = None, lv_notified = None,
      lv_deps = None, lv_attempt = None\<rparr>"

text \<open>
  One render: both conditions read the state the render started with, and their updates are applied in order.  Two
  renders reach a state that needs no other.
\<close>

definition render_pass :: "live_props \<Rightarrow> live_browser \<Rightarrow> live_browser" where
  "render_pass p s =
     (let s1 = (if bp_sessionId p \<noteq> lv_trackedSessionId s
          then s\<lparr>lv_trackedSessionId := bp_sessionId p, lv_debugUrl := None, lv_connectElapsed := 0,
                 lv_status := (if \<not> truthy (bp_sessionId p) then Waiting else Connecting)\<rparr>
          else s)
      in if \<not> bp_isRunLive p \<and> (lv_status s = Live \<or> lv_status s = Connecting) \<and> truthy (lv_trackedSessionId s)
         then s1\<lparr>lv_status := Ended\<rparr> else s1)"

definition render :: "live_props \<Rightarrow> live_browser \<Rightarrow> live_browser" where
  "render p s = render_pass p (render_pass p s)"

definition tick :: "live_browser \<Rightarrow> live_browser" where
  "tick s = (if lv_status s \<noteq> Connecting then s else s\<lparr>lv_connectElapsed := lv_connectElapsed s + 1\<rparr>)"

definition connect_effect :: "live_props \<Rightarrow> live_browser \<Rightarrow> live_browser" where
  "connect_effect p s =
     (let deps = (bp_sessionId p, bp_runId p, lv_debugUrl s, bp_isRunLive p, lv_status s) in
      if lv_deps s = Some deps then s
      else s\<lparr>lv_deps := Some deps,
             lv_attempt :=
               (if \<not> truthy (bp_sessionId p) \<or> \<not> truthy (bp_runId p) \<or> truthy (lv_debugUrl s) \<or> \<not> bp_isRunLive p \<or>
                   lv_status s = Unavailable
                then None else Some (nullish (bp_sessionId p) [], nullish (bp_runId p) [], 0))\<rparr>)"

definition refresh :: "live_props \<Rightarrow> live_browser \<Rightarrow> live_browser" where
  "refresh p s = connect_effect p (render p s)"

text \<open>\<open>fetchDebugUrl\<close>: \<open>None\<close> is a failed request.\<close>

definition fetchDebugUrl :: "(string \<times> string) http option \<Rightarrow> string option" where
  "fetchDebugUrl res =
     (case res of
        None \<Rightarrow> None
      | Some h \<Rightarrow> if \<not> (200 \<le> h_status h \<and> h_status h < 300) then None
          else (case h_body h of Body urls \<Rightarrow> Some (snd urls) | _ \<Rightarrow> None))"

definition on_reply :: "bool \<Rightarrow> string option \<Rightarrow> live_browser \<Rightarrow> live_browser" where
  "on_reply cancelled url s =
     (if cancelled then s
      else case lv_attempt s of
        None \<Rightarrow> s
      | Some (sid, rid, retries) \<Rightarrow>
          if truthy url then s\<lparr>lv_debugUrl := url, lv_status := Live\<rparr>
          else if retries < MAX_RETRIES then s\<lparr>lv_attempt := Some (sid, rid, retries + 1)\<rparr>
          else s\<lparr>lv_status := Unavailable\<rparr>)"

text \<open>The frame, when it is shown, and the signal sent when its document has loaded.\<close>

definition iframe :: "live_browser \<Rightarrow> string option" where
  "iframe s = (if lv_status s = Live \<and> truthy (lv_debugUrl s) then lv_debugUrl s else None)"

definition handleIframeLoad :: "live_props \<Rightarrow> live_browser \<Rightarrow> (string \<times> string) option \<times> live_browser" where
  "handleIframeLoad p s =
     (if \<not> truthy (bp_sessionId p) \<or> \<not> truthy (bp_runId p) \<or> lv_notified s = bp_sessionId p then (None, s)
      else (Some (nullish (bp_sessionId p) [], nullish (bp_runId p) []), s\<lparr>lv_notified := bp_sessionId p\<rparr>))"

text \<open>The props the shell gives the pane while a run is live, and the step shown in its header.\<close>

definition live_browser_props :: "console_run list \<Rightarrow> live_props" where
  "live_browser_props runs =
     \<lparr>bp_sessionId = useLiveBrowserbaseSessionId runs, bp_runId = map_option cr_id (useLiveRun runs),
      bp_isRunLive = (useLiveRun runs \<noteq> None)\<rparr>"

definition activeStep :: "bool \<Rightarrow> console_run list \<Rightarrow> run_step option" where
  "activeStep isRunLive runs =
     (if isRunLive then List.find (\<lambda>s. st_status s = SRunning) (fst (useLatestRunSteps runs)) else None)"

section \<open>The recording\<close>

datatype player_status = PLoading | PReady | PError | PUnsupported

definition play :: "bool \<Rightarrow> bool \<Rightarrow> player_status" where
  "play hlsSupported nativeHls = (if hlsSupported then PReady else if nativeHls then PReady else PUnsupported)"

text \<open>The polls until an answer other than 202; \<open>None\<close> is a request that failed, the end of the list is now.\<close>

fun waitForPlaylist :: "bool \<Rightarrow> bool \<Rightarrow> nat option list \<Rightarrow> player_status" where
  "waitForPlaylist hls native [] = PLoading"
| "waitForPlaylist hls native (None # _) = PError"
| "waitForPlaylist hls native (Some status # rest) =
     (if status = 202 then waitForPlaylist hls native rest
      else if \<not> (200 \<le> status \<and> status < 300) then PError
      else play hls native)"

section \<open>Rendering settles\<close>

lemma render_stable: "render_pass p (render p s) = render p s"
  by (cases "truthy (bp_sessionId p)"; cases "lv_status s")
    (auto simp: render_def render_pass_def Let_def)

lemma render_fields:
  "lv_trackedSessionId (render p s) = bp_sessionId p" "lv_notified (render p s) = lv_notified s"
  "lv_attempt (render p s) = lv_attempt s" "lv_deps (render p s) = lv_deps s"
  "lv_debugUrl (render p s) = (if bp_sessionId p = lv_trackedSessionId s then lv_debugUrl s else None)"
  by (simp_all add: render_def render_pass_def Let_def)

section \<open>What the pane shows\<close>

text \<open>
  A pane with its props over time: new props, answers of the live-view route to the current or to a cancelled
  request, ticks, and loads of the frame.  \<open>served\<close> are the answers the route gives for a session and a run.
\<close>

inductive pane_step ::
    "(string \<Rightarrow> string \<Rightarrow> (string \<times> string) http option \<Rightarrow> bool) \<Rightarrow> live_props \<times> live_browser \<Rightarrow> live_props \<times> live_browser \<Rightarrow> bool"
  for served where
  props: "pane_step served (p, s) (p', refresh p' s)"
| answer: "lv_attempt s = Some (sid, rid, n) \<Longrightarrow> served sid rid res \<Longrightarrow>
    pane_step served (p, s) (p, refresh p (on_reply False (fetchDebugUrl res) s))"
| stale: "pane_step served (p, s) (p, refresh p (on_reply True url s))"
| ticked: "pane_step served (p, s) (p, tick s)"
| loaded: "iframe s \<noteq> None \<Longrightarrow> pane_step served (p, s) (p, snd (handleIframeLoad p s))"

text \<open>The URL was served for the tracked session, and an attempt belongs to the dependencies of the effect.\<close>

definition url_ok :: "(string \<Rightarrow> string \<Rightarrow> (string \<times> string) http option \<Rightarrow> bool) \<Rightarrow> live_browser \<Rightarrow> bool" where
  "url_ok served s \<longleftrightarrow> (\<forall>u. lv_debugUrl s = Some u \<longrightarrow>
     (\<exists>sid rid res. lv_trackedSessionId s = Some sid \<and> served sid rid res \<and> fetchDebugUrl res = Some u))"

definition attempt_ok :: "live_browser \<Rightarrow> bool" where
  "attempt_ok s \<longleftrightarrow> (\<forall>sid rid n. lv_attempt s = Some (sid, rid, n) \<longrightarrow>
     n \<le> MAX_RETRIES \<and> (\<exists>url st. lv_deps s = Some (Some sid, Some rid, url, True, st) \<and> \<not> truthy url \<and> st \<noteq> Unavailable))"

definition settled :: "live_props \<Rightarrow> live_browser \<Rightarrow> bool" where
  "settled p s \<longleftrightarrow> lv_trackedSessionId s = bp_sessionId p \<and>
     lv_deps s = Some (bp_sessionId p, bp_runId p, lv_debugUrl s, bp_isRunLive p, lv_status s)"

lemma truthy_Some: "truthy x \<Longrightarrow> x = Some (nullish x [])"
  by (cases x) simp_all

lemma refresh_fields:
  "lv_trackedSessionId (refresh p s) = bp_sessionId p" "lv_notified (refresh p s) = lv_notified s"
  "lv_debugUrl (refresh p s) = (if bp_sessionId p = lv_trackedSessionId s then lv_debugUrl s else None)"
  by (simp_all add: refresh_def connect_effect_def render_fields Let_def)

lemma refresh_settled: "settled p (refresh p s)"
  by (simp add: settled_def refresh_fields) (simp add: refresh_def connect_effect_def render_fields Let_def)

lemma refresh_url: "url_ok served s \<Longrightarrow> url_ok served (refresh p s)"
  by (auto simp: url_ok_def refresh_fields split: if_splits)

lemma refresh_attempt:
  assumes "attempt_ok s"
  shows "attempt_ok (refresh p s)"
  using assms
  by (auto simp: attempt_ok_def refresh_def connect_effect_def render_fields Let_def dest: truthy_Some)

lemma pane_invariant:
  assumes "pane_step served (p, s) (p', s')" and "url_ok served s" and "attempt_ok s" and "settled p s"
  shows "url_ok served s' \<and> attempt_ok s' \<and> settled p' s'"
  using assms(1)
proof cases
  case (answer sid rid n res)
  have sid: "lv_trackedSessionId s = Some sid"
    using assms(3,4) answer(3) by (fastforce simp: attempt_ok_def settled_def)
  have "url_ok served (on_reply False (fetchDebugUrl res) s)"
    using assms(2) answer(3,4) sid by (auto simp: on_reply_def url_ok_def)
  moreover have "attempt_ok (on_reply False (fetchDebugUrl res) s)"
    using assms(3) answer(3) by (auto simp: on_reply_def attempt_ok_def)
  ultimately show ?thesis unfolding answer(1,2) using refresh_url refresh_attempt refresh_settled by blast
next
  case ticked
  then show ?thesis using assms(2-4) by (simp add: tick_def url_ok_def attempt_ok_def settled_def)
next
  case loaded
  then show ?thesis using assms(2-4) by (simp add: handleIframeLoad_def url_ok_def attempt_ok_def settled_def)
qed (use assms(2,3) refresh_url refresh_attempt refresh_settled in \<open>auto simp: on_reply_def\<close>)

lemma reachable_pane:
  assumes "(pane_step served)\<^sup>*\<^sup>* (p0, refresh p0 new_live_browser) (p, s)"
  shows "url_ok served s \<and> attempt_ok s \<and> settled p s"
  using assms
proof (induction rule: rtranclp_induct2)
  case refl
  have "url_ok served new_live_browser \<and> attempt_ok new_live_browser"
    by (simp add: url_ok_def attempt_ok_def new_live_browser_def)
  then show ?case using refresh_url refresh_attempt refresh_settled by blast
next
  case (step p s p' s')
  then show ?case using pane_invariant by blast
qed

section \<open>Properties\<close>

text \<open>The answers of the live-view route, in any of the given states of the application; an exception is a 500.\<close>

definition route_answers ::
    "(access_env \<times> (string \<Rightarrow> (string \<times> string) option)) set \<Rightarrow> string \<Rightarrow> string \<Rightarrow> (string \<times> string) http option \<Rightarrow> bool" where
  "route_answers envs sid rid res \<longleftrightarrow> res = None \<or>
     (\<exists>(env, debug) \<in> envs.
        res = Some (case live_view_GET env debug sid (Some rid) of Inl e \<Rightarrow> reply 500 NoBody | Inr h \<Rightarrow> h))"

lemma live_view_body:
  assumes "live_view_GET env debug sid (Some rid) = Inr h" and "h_body h = Body urls"
  shows "\<exists>user orgId e. signed_in (ae_sessions env) (ae_members env) = Some (user, orgId) \<and>
    authorize env orgId rid (Some sid) = Inr (Granted e) \<and> debug sid = Some urls"
  using assms
  by (auto simp: live_view_GET_def reply_def denied_json_def split: option.splits if_splits sum.splits access.splits)

lemma answered_url:
  assumes "route_answers envs sid rid res" and "fetchDebugUrl res = Some u"
  shows "\<exists>(env, debug) \<in> envs. \<exists>user orgId e d. signed_in (ae_sessions env) (ae_members env) = Some (user, orgId) \<and>
    authorize env orgId rid (Some sid) = Inr (Granted e) \<and> debug sid = Some (d, u)"
proof -
  obtain h urls where h: "res = Some h" "h_body h = Body urls" "snd urls = u"
    using assms(2) by (auto simp: fetchDebugUrl_def split: option.splits if_splits reply_body.splits)
  with assms(1) obtain env debug where e: "(env, debug) \<in> envs"
    "h = (case live_view_GET env debug sid (Some rid) of Inl e \<Rightarrow> reply 500 NoBody | Inr h \<Rightarrow> h)"
    by (auto simp: route_answers_def)
  with h(2) have "live_view_GET env debug sid (Some rid) = Inr h" by (auto simp: reply_def split: sum.splits)
  from live_view_body [OF this h(2)] e(1) h(3) show ?thesis by (cases urls) fastforce
qed


text \<open>The pane while it connects, and where it ends.\<close>

definition connecting :: "live_props \<Rightarrow> nat \<Rightarrow> live_browser" where
  "connecting p n =
     (refresh p new_live_browser)\<lparr>lv_attempt := Some (nullish (bp_sessionId p) [], nullish (bp_runId p) [], n)\<rparr>"

definition can_connect :: "live_props \<Rightarrow> bool" where
  "can_connect p \<longleftrightarrow> truthy (bp_sessionId p) \<and> truthy (bp_runId p) \<and> bp_isRunLive p"

lemma connecting_fields:
  assumes "can_connect p"
  shows "refresh p new_live_browser = connecting p 0"
    and "connecting p n = \<lparr>lv_debugUrl = None, lv_status = Connecting, lv_connectElapsed = 0, lv_trackedSessionId = bp_sessionId p,
      lv_notified = None, lv_deps = Some (bp_sessionId p, bp_runId p, None, True, Connecting),
      lv_attempt = Some (nullish (bp_sessionId p) [], nullish (bp_runId p) [], n)\<rparr>"
  using assms
  by (auto simp: connecting_def can_connect_def refresh_def render_def render_pass_def connect_effect_def new_live_browser_def Let_def
      dest: truthy_Some)

definition one_reply :: "live_props \<Rightarrow> string option \<Rightarrow> live_browser \<Rightarrow> live_browser" where
  "one_reply p url s = refresh p (on_reply False url s)"

lemma one_reply_connecting:
  assumes "can_connect p"
  shows "one_reply p url (connecting p n) =
    (if truthy url then (connecting p n)\<lparr>lv_debugUrl := url, lv_status := Live, lv_attempt := None,
        lv_deps := Some (bp_sessionId p, bp_runId p, url, True, Live)\<rparr>
     else if n < MAX_RETRIES then connecting p (n + 1)
     else (connecting p n)\<lparr>lv_status := Unavailable, lv_attempt := None,
        lv_deps := Some (bp_sessionId p, bp_runId p, None, True, Unavailable)\<rparr>)"
  using assms unfolding connecting_fields(2) [OF assms]
  by (auto simp: one_reply_def on_reply_def can_connect_def refresh_def render_def render_pass_def connect_effect_def Let_def)

lemma replies_done:
  assumes "lv_attempt s = None" and "refresh p s = s"
  shows "fold (one_reply p) urls s = s"
  using assms by (induction urls) (simp_all add: one_reply_def on_reply_def)

lemma done_refresh:
  assumes "can_connect p"
  shows "refresh p ((connecting p n)\<lparr>lv_debugUrl := Some u, lv_status := Live, lv_attempt := None,
      lv_deps := Some (bp_sessionId p, bp_runId p, Some u, True, Live)\<rparr>) =
    (connecting p n)\<lparr>lv_debugUrl := Some u, lv_status := Live, lv_attempt := None,
      lv_deps := Some (bp_sessionId p, bp_runId p, Some u, True, Live)\<rparr>"
    and "refresh p ((connecting p n)\<lparr>lv_status := Unavailable, lv_attempt := None,
      lv_deps := Some (bp_sessionId p, bp_runId p, None, True, Unavailable)\<rparr>) =
    (connecting p n)\<lparr>lv_status := Unavailable, lv_attempt := None,
      lv_deps := Some (bp_sessionId p, bp_runId p, None, True, Unavailable)\<rparr>"
  using assms unfolding connecting_fields(2) [OF assms]
  by (auto simp: can_connect_def refresh_def render_def render_pass_def connect_effect_def Let_def)

lemma replies_from:
  assumes "can_connect p" and "n \<le> MAX_RETRIES"
  shows "(case List.find truthy (take (31 - n) urls) of
      Some url \<Rightarrow> iframe (fold (one_reply p) urls (connecting p n)) = url
    | None \<Rightarrow>
        if length urls < 31 - n then fold (one_reply p) urls (connecting p n) = connecting p (n + length urls)
        else lv_status (fold (one_reply p) urls (connecting p n)) = Unavailable \<and>
          lv_attempt (fold (one_reply p) urls (connecting p n)) = None)"
  using assms(2)
proof (induction urls arbitrary: n)
  case (Cons url urls)
  have first: "take (31 - n) (url # urls) = url # take (30 - n) urls"
    using Cons.prems by (simp add: MAX_RETRIES_def take_Cons' numeral_eq_Suc Suc_diff_le)
  show ?case
  proof (cases "truthy url")
    case True
    then obtain u where u: "url = Some u" "u \<noteq> []" by (cases url) auto
    show ?thesis
      using True unfolding first by (simp add: one_reply_connecting [OF assms(1)] u replies_done done_refresh [OF assms(1)] iframe_def)
  next
    case False
    show ?thesis
    proof (cases "n < MAX_RETRIES")
      case True
      then have step: "fold (one_reply p) (url # urls) (connecting p n) = fold (one_reply p) urls (connecting p (n + 1))"
        using False by (simp add: one_reply_connecting [OF assms(1)])
      have e: "length (url # urls) < 31 - n \<longleftrightarrow> length urls < 31 - (n + 1)" "n + length (url # urls) = n + 1 + length urls"
        "30 - n = 31 - (n + 1)" by auto
      have "n + 1 \<le> MAX_RETRIES" using True by simp
      from Cons.IH [OF this] False show ?thesis unfolding first step e find.simps by (simp only: if_False)
    next
      case last: False
      then have n: "n = 30" using Cons.prems by (simp add: MAX_RETRIES_def)
      show ?thesis using False unfolding first
        by (simp add: one_reply_connecting [OF assms(1)] MAX_RETRIES_def n replies_done done_refresh [OF assms(1)])
    qed
  qed
qed (simp add: MAX_RETRIES_def)

text \<open>
  C40. Connecting ends.  A pane whose session and run stay the same shows the first URL among the answers to its first 31
  requests; without one it asks 31 times and then shows that the view is unavailable, and until then it is connecting.
\<close>

theorem connects_within_31_requests:
  assumes "truthy (bp_sessionId p)" and "truthy (bp_runId p)" and "bp_isRunLive p"
  shows "(case List.find truthy (take 31 urls) of
      Some url \<Rightarrow> iframe (fold (one_reply p) urls (refresh p new_live_browser)) = url
    | None \<Rightarrow>
        if length urls < 31
        then lv_status (fold (one_reply p) urls (refresh p new_live_browser)) = Connecting \<and>
          lv_attempt (fold (one_reply p) urls (refresh p new_live_browser)) =
            Some (nullish (bp_sessionId p) [], nullish (bp_runId p) [], length urls)
        else lv_status (fold (one_reply p) urls (refresh p new_live_browser)) = Unavailable \<and>
          lv_attempt (fold (one_reply p) urls (refresh p new_live_browser)) = None)"
proof -
  have c: "can_connect p" using assms by (simp add: can_connect_def)
  show ?thesis using replies_from [OF c, of 0 urls]
    unfolding connecting_fields(1) [OF c]
    by (auto simp: MAX_RETRIES_def connecting_fields(2) [OF c] split: option.splits if_splits)
qed

text \<open>
  The player is ready exactly when the first answer other than 202 is a success and the browser can play it.  With
  the replay route's answers that takes a member with the Pro plan whose organization owns the run.
\<close>

theorem recording_ready_exact:
  "(waitForPlaylist hls native answers = PReady \<longleftrightarrow>
      (\<exists>status. List.find (\<lambda>a. a \<noteq> Some 202) answers = Some (Some status) \<and> 200 \<le> status \<and> status < 300) \<and>
      (hls \<or> native)) \<and>
   (answers = map (\<lambda>(env, retrieve, page). case replay_GET env retrieve page sid runId of
        Inl e \<Rightarrow> Some 500 | Inr h \<Rightarrow> Some (h_status h)) polls \<and> waitForPlaylist hls native answers = PReady \<longrightarrow>
      (\<exists>(env, retrieve, page) \<in> set polls. \<exists>user orgId i e. signed_in (ae_sessions env) (ae_members env) = Some (user, orgId) \<and>
         runId = Some i \<and> has_pro user \<and> authorize env orgId i (Some sid) = Inr (Granted e)))"
proof -
  have exact: "waitForPlaylist hls native as = PReady \<longleftrightarrow>
      (\<exists>status. List.find (\<lambda>a. a \<noteq> Some 202) as = Some (Some status) \<and> 200 \<le> status \<and> status < 300) \<and>
      (hls \<or> native)" for as
  proof (induction as)
    case (Cons a as)
    then show ?case by (cases a) (auto simp: play_def)
  qed simp
  have "\<exists>(env, retrieve, page) \<in> set polls. \<exists>user orgId i e. signed_in (ae_sessions env) (ae_members env) = Some (user, orgId) \<and>
      runId = Some i \<and> has_pro user \<and> authorize env orgId i (Some sid) = Inr (Granted e)"
    if a: "answers = map (\<lambda>(env, retrieve, page). case replay_GET env retrieve page sid runId of
        Inl e \<Rightarrow> Some 500 | Inr h \<Rightarrow> Some (h_status h)) polls" and r: "waitForPlaylist hls native answers = PReady"
  proof -
    obtain status where f: "List.find (\<lambda>a. a \<noteq> Some 202) answers = Some (Some status)" "200 \<le> status" "status < 300"
      using r exact [of answers] by blast
    obtain n where "n < length answers" "answers ! n \<noteq> Some 202" "Some status = answers ! n"
      using f(1) unfolding find_Some_iff by blast
    then have s: "Some status \<in> set answers" "status \<noteq> 202" "200 \<le> status" "status < 300"
      using f(2,3) by (metis nth_mem, metis, simp_all)
    then obtain env retrieve page h where p: "(env, retrieve, page) \<in> set polls" "replay_GET env retrieve page sid runId = Inr h" "h_status h = status"
      unfolding a by (auto split: sum.splits)
    have "h_status h \<in> {200, 202}" using p(2,3) s(2-4)
      by (auto simp: replay_GET_def reply_def denied_text_def Let_def split: option.splits if_splits sum.splits access.splits
          browserbase_error.splits list.splits)
    from replay_ok [OF p(2) this] p(1) show ?thesis by fastforce
  qed
  with exact [of answers] show ?thesis by blast
qed

section \<open>Witnesses\<close>

definition watching :: live_props where
  "watching = \<lparr>bp_sessionId = Some ''s1'', bp_runId = Some ''evo_1'', bp_isRunLive = True\<rparr>"

theorem connects_within_31_requests_witness:
  "iframe (fold (one_reply watching) [None, Some ''url''] (refresh watching new_live_browser)) = Some ''url''"
  using connects_within_31_requests [of watching "[None, Some ''url'']"] by (simp add: watching_def)


end
