(* ===== verification/Pages.thy ===== *)
theory Pages
  imports Actions
begin

text \<open>
  The server-rendered pages: the page of a workflow (\<open>app/(dashboard)/workflows/[id]/page.tsx\<close>), the sidebar with
  the organization's workflows (\<open>components/app-sidebar.tsx\<close>, \<open>workflow-nav.tsx\<close>) and the button for a new workflow.
  Liveblocks and the Trigger.dev token service are parameters; the markup is left out.
\<close>

section \<open>The page of a workflow\<close>

record room_request =
  rq_id :: string
  rq_organizationId :: string
  rq_defaultAccesses :: "string list"
  rq_groupsAccesses :: "(string \<times> string list) list"
  rq_title :: string

record token_request =
  tq_tags :: "string list"
  tq_expirationTime :: string

record workflow_page =
  wp_roomId :: string
  wp_workflowId :: string
  wp_accessToken :: string
  wp_isNew :: bool

datatype page_result = NotFoundPage | PageThrew string | Page workflow_page

text \<open>\<open>store\<close> is what the workflow query finds; an error of it leaves the page, as one of either service does.\<close>

definition workflow_page_GET ::
    "(nat \<Rightarrow> session) \<Rightarrow> (string \<Rightarrow> string + string option list) \<Rightarrow> db_error + db \<Rightarrow>
     (room_request \<Rightarrow> 's \<Rightarrow> (string + unit) \<times> 's) \<Rightarrow> (token_request \<Rightarrow> 's \<Rightarrow> (string + string) \<times> 's) \<Rightarrow>
     string \<Rightarrow> string option \<Rightarrow> 's \<Rightarrow> page_result \<times> 's" where
  "workflow_page_GET sessions members store getOrCreateRoom createPublicToken i new s =
     (let isNew = (new = Some ''true'' \<or> new = Some ''1'') in
      case signed_in sessions members of
        None \<Rightarrow> (NotFoundPage, s)
      | Some (_, orgId) \<Rightarrow>
          (case store of
             Inl e \<Rightarrow> (PageThrew ''store'', s)
           | Inr d \<Rightarrow>
               (case getWorkflow orgId i d of
                  None \<Rightarrow> (NotFoundPage, s)
                | Some workflow \<Rightarrow>
                    (case getOrCreateRoom
                            \<lparr>rq_id = i, rq_organizationId = orgId, rq_defaultAccesses = [],
                             rq_groupsAccesses = [(orgId, [''room:write''])], rq_title = wf_name workflow\<rparr> s of
                       (Inl m, s) \<Rightarrow> (PageThrew m, s)
                     | (Inr _, s) \<Rightarrow>
                         (case createPublicToken \<lparr>tq_tags = [''workflow:'' @ i], tq_expirationTime = ''1hr''\<rparr> s of
                            (Inl m, s) \<Rightarrow> (PageThrew m, s)
                          | (Inr runsToken, s) \<Rightarrow>
                              (Page \<lparr>wp_roomId = i, wp_workflowId = i, wp_accessToken = runsToken, wp_isNew = isNew\<rparr>, s))))))"

section \<open>The sidebar\<close>

text \<open>The workflows of the organization, none when there is no organization; an error of the store leaves it.\<close>

definition AppSidebar ::
    "(nat \<Rightarrow> session) \<Rightarrow> (string \<Rightarrow> string + string option list) \<Rightarrow> db_error + db \<Rightarrow> db_error + workflow_row list" where
  "AppSidebar sessions members store =
     (let orgId = (case fst (resolveActiveOrgId sessions members 0) of Inl _ \<Rightarrow> None | Inr orgId \<Rightarrow> Some orgId) in
      if truthy orgId
      then (case store of Inl e \<Rightarrow> Inl e | Inr d \<Rightarrow> Inr (listWorkflows (nullish orgId []) d))
      else Inr [])"

text \<open>The links of the navigation: target, name and whether it is the page shown.\<close>

definition WorkflowNav :: "string \<Rightarrow> workflow_row list \<Rightarrow> (string \<times> string \<times> bool) list" where
  "WorkflowNav pathname workflows =
     map (\<lambda>w. (''/workflows/'' @ wf_id w, wf_name w, pathname = ''/workflows/'' @ wf_id w)) workflows"

definition handleCreateWorkflow :: "'s action_env \<Rightarrow> string \<Rightarrow> 's sys \<Rightarrow> (action_error + string) \<times> 's sys" where
  "handleCreateWorkflow ax slug st = createWorkflowAction ax slug st"

section \<open>Properties\<close>

text \<open>
  The page of a workflow is only rendered for a signed-in member of the organization that owns it.  The room is then
  opened for that organization alone, and the token reads the runs tagged with that workflow and no others; without a
  page neither service is called, but for an error of the service itself.
\<close>

theorem page_org_scoped:
  assumes "workflow_page_GET sessions members (Inr d) (\<lambda>q log. (room q, log @ [Inl q])) (\<lambda>q log. (token q, log @ [Inr q])) i new [] = (r, log)"
  shows "(r = NotFoundPage \<longrightarrow> log = []) \<and>
    (log \<noteq> [] \<longrightarrow> (\<exists>user orgId w. signed_in sessions members = Some (user, orgId) \<and> getWorkflow orgId i d = Some w \<and>
       wf_orgId w = orgId \<and> wf_id w = i \<and>
       (\<forall>q. Inl q \<in> set log \<longrightarrow> rq_id q = i \<and> rq_defaultAccesses q = [] \<and> map fst (rq_groupsAccesses q) = [orgId]) \<and>
       (\<forall>q. Inr q \<in> set log \<longrightarrow> tq_tags q = [''workflow:'' @ i]))) \<and>
    (\<forall>p. r = Page p \<longrightarrow> wp_roomId p = i \<and> length log = 2 \<and> (\<exists>q. token q = Inr (wp_accessToken p)))"
proof -
  have own: "wf_orgId w = orgId \<and> wf_id w = i" if "getWorkflow orgId i d = Some w" for orgId w
    using select_one_Some [OF that [unfolded getWorkflow_def]] by (simp add: owns_workflow_def)
  show ?thesis using assms own
    by (auto simp: workflow_page_GET_def Let_def split: option.splits sum.splits)
qed

text \<open>The sidebar lists every workflow of the caller's organization and no other, newest first.\<close>

theorem sidebar_org_scoped:
  assumes "AppSidebar sessions members (Inr d) = Inr ws"
  shows "set ws = {w \<in> set (db_workflows d). fst (resolveActiveOrgId sessions members 0) = Inr (wf_orgId w) \<and> wf_orgId w \<noteq> []} \<and>
    sorted (map (\<lambda>w. - wf_createdAt w) ws)"
  using assms
  by (auto simp: AppSidebar_def listWorkflows_def Let_def split: if_splits sum.splits)

end
