(* ===== verification/Overlays.thy ===== *)
theory Overlays
  imports Executors
begin

text \<open>
  The overlays drawn into the live view (\<open>lib/highlight-element.ts\<close>) and the executors of \<open>features/workflows/nodes/\<close>
  with the calls that draw them.  The driven page is a document with the overlay nodes in it and the timers that remove
  them; selectors are resolved by the browser, a parameter.
\<close>

section \<open>Payloads\<close>

datatype highlight_color = Blue | Amber | Green

record palette =
  pa_border :: string
  pa_fill :: string
  pa_glow :: string

definition PALETTES :: "highlight_color \<Rightarrow> palette" where
  "PALETTES c =
     (case c of
        Blue \<Rightarrow> \<lparr>pa_border = ''#3b82f6'', pa_fill = ''rgba(59, 130, 246, 0.16)'', pa_glow = ''rgba(59, 130, 246, 0.28)''\<rparr>
      | Amber \<Rightarrow> \<lparr>pa_border = ''#f59e0b'', pa_fill = ''rgba(245, 158, 11, 0.14)'', pa_glow = ''rgba(245, 158, 11, 0.25)''\<rparr>
      | Green \<Rightarrow> \<lparr>pa_border = ''#22c55e'', pa_fill = ''rgba(34, 197, 94, 0.14)'', pa_glow = ''rgba(34, 197, 94, 0.25)''\<rparr>)"

record highlight_options =
  ho_label :: "string option"
  ho_durationMs :: "int option"
  ho_color :: "highlight_color option"

record highlight_payload =
  hp_selectors :: "string list"
  hp_durationMs :: int
  hp_label :: string
  hp_palette :: palette

section \<open>In the page\<close>

text \<open>
  What the browser answers during one evaluation: the element an XPath or a CSS selector resolves to - nothing if it
  throws or matches no element -, the width and height of an element, and whether the document has an element to append
  to.
\<close>

record ('e, 'n) dom_env =
  de_xpath :: "string \<Rightarrow> 'e option"
  de_css :: "string \<Rightarrow> 'e option"
  de_size :: "'e \<Rightarrow> 'n \<times> 'n"
  de_parent :: bool

record 'e overlay =
  ov_id :: nat
  ov_boxes :: "'e list"
  ov_label :: string
  ov_colors :: palette

text \<open>
  The document: its overlay roots in document order, the timers that will remove one, each with its due time, the
  element last scrolled into view, the time, and the next overlay's identity.
\<close>

record 'e document =
  dc_roots :: "'e overlay list"
  dc_timers :: "(nat \<times> int) list"
  dc_scrolled :: "'e option"
  dc_now :: int
  dc_next :: nat

text \<open>The expression that tells XPath: an opening parenthesis, a slash, or a dot and a slash.\<close>

fun looks_like_xpath :: "string \<Rightarrow> bool" where
  "looks_like_xpath (c # cs) \<longleftrightarrow> c = CHR ''('' \<or> c = CHR ''/'' \<or> c = CHR ''.'' \<and> (\<exists>rest. cs = CHR ''/'' # rest)"
| "looks_like_xpath [] \<longleftrightarrow> False"

definition resolve :: "('e, 'n) dom_env \<Rightarrow> string \<Rightarrow> 'e option" where
  "resolve env sel =
     (if sel = [] then None
      else case (if looks_like_xpath sel then de_xpath env sel else None) of
        Some el \<Rightarrow> Some el
      | None \<Rightarrow> de_css env sel)"

text \<open>\<open>getElementById\<close> finds the first root only.\<close>

definition drop_first_root :: "'e document \<Rightarrow> 'e document" where
  "drop_first_root d = d\<lparr>dc_roots := tl (dc_roots d)\<rparr>"

definition visible_box :: "('e, 'n :: {zero, linorder}) dom_env \<Rightarrow> 'e \<Rightarrow> bool" where
  "visible_box env el \<longleftrightarrow> \<not> (fst (de_size env el) \<le> 0 \<and> snd (de_size env el) \<le> 0)"

definition highlightInPage ::
    "('e, 'n :: {zero, linorder}) dom_env \<Rightarrow> highlight_payload \<Rightarrow> 'e document \<Rightarrow> nat \<times> 'e document" where
  "highlightInPage env p d =
     (let els = List.map_filter (resolve env) (hp_selectors p)
      in if els = [] \<and> hp_label p = [] then (0, d)
         else
           let d = drop_first_root d;
               d = (case els of [] \<Rightarrow> d | el # _ \<Rightarrow> d\<lparr>dc_scrolled := Some el\<rparr>)
           in if \<not> de_parent env then (0, d)
              else
                let boxes = filter (visible_box env) els;
                    root = \<lparr>ov_id = dc_next d, ov_boxes = boxes, ov_label = hp_label p, ov_colors = hp_palette p\<rparr>
                in (length boxes,
                    d\<lparr>dc_roots := dc_roots d @ [root],
                      dc_timers := dc_timers d @ [(dc_next d, dc_now d + hp_durationMs p)],
                      dc_next := Suc (dc_next d)\<rparr>))"

text \<open>What happens in the page besides: time passes, the \<open>k\<close>-th timer fires if it is due, the page navigates.\<close>

datatype page_event =
    Elapse nat
  | FireTimer nat
  | Navigate

fun page_step :: "page_event \<Rightarrow> 'e document \<Rightarrow> 'e document" where
  "page_step (Elapse t) d = d\<lparr>dc_now := dc_now d + int t\<rparr>"
| "page_step (FireTimer k) d =
     (if k < length (dc_timers d) \<and> snd (dc_timers d ! k) \<le> dc_now d
      then d\<lparr>dc_roots := filter (\<lambda>r. ov_id r \<noteq> fst (dc_timers d ! k)) (dc_roots d),
             dc_timers := take k (dc_timers d) @ drop (Suc k) (dc_timers d)\<rparr>
      else d)"
| "page_step Navigate d = d\<lparr>dc_roots := [], dc_timers := [], dc_scrolled := None\<rparr>"

section \<open>Drawing from outside\<close>

text \<open>\<open>evaluate\<close> runs a payload in the page and may throw.\<close>

definition swallow :: "('s, 'a) act \<Rightarrow> ('s, unit) act" where
  "swallow f s = (Inr (), snd (f s))"

definition highlightElements ::
    "(highlight_payload \<Rightarrow> ('s, nat) act) \<Rightarrow> string list \<Rightarrow> highlight_options \<Rightarrow> ('s, unit) act" where
  "highlightElements evaluate selectors options =
     (let clean = filter (\<lambda>s. s \<noteq> []) selectors;
          label = nullish (ho_label options) [];
          durationMs = nullish (ho_durationMs options) 2500;
          color = nullish (ho_color options) Blue
      in if clean = [] \<and> label = [] then return ()
         else swallow (evaluate \<lparr>hp_selectors = clean, hp_durationMs = durationMs, hp_label = label,
                                 hp_palette = PALETTES color\<rparr>))"

definition highlightElement ::
    "(highlight_payload \<Rightarrow> ('s, nat) act) \<Rightarrow> string \<Rightarrow> highlight_options \<Rightarrow> ('s, unit) act" where
  "highlightElement evaluate selector options = highlightElements evaluate [selector] options"

definition showStatusChip ::
    "(highlight_payload \<Rightarrow> ('s, nat) act) \<Rightarrow> string \<Rightarrow> highlight_options \<Rightarrow> ('s, unit) act" where
  "showStatusChip evaluate label options = highlightElements evaluate [] (options\<lparr>ho_label := Some label\<rparr>)"

definition clearHighlight :: "('s, bool) act \<Rightarrow> ('s, unit) act" where
  "clearHighlight evaluate_clear = swallow evaluate_clear"

section \<open>Overlays never stack\<close>

text \<open>At most one overlay, with its own timer pending; identities are fresh.\<close>

definition overlay_ok :: "'e document \<Rightarrow> bool" where
  "overlay_ok d \<longleftrightarrow> length (dc_roots d) \<le> 1 \<and> distinct (map fst (dc_timers d)) \<and>
     (\<forall>k \<in> set (map fst (dc_timers d)). k < dc_next d) \<and>
     (\<forall>r \<in> set (dc_roots d). ov_id r \<in> set (map fst (dc_timers d)))"

lemma overlay_ok_draw: "overlay_ok d \<Longrightarrow> overlay_ok (snd (highlightInPage env p d))"
  by (cases "dc_roots d")
    (auto simp: overlay_ok_def highlightInPage_def drop_first_root_def Let_def split: list.splits)

lemma overlay_ok_clear: "overlay_ok d \<Longrightarrow> overlay_ok (drop_first_root d)"
  by (cases "dc_roots d") (auto simp: overlay_ok_def drop_first_root_def)

lemma fired_timers:
  assumes "k < length xs" and "distinct (map fst xs)"
  shows "distinct (map fst (take k xs @ drop (Suc k) xs))"
    and "set (map fst (take k xs @ drop (Suc k) xs)) = set (map fst xs) - {fst (xs ! k)}"
proof -
  have xs: "xs = take k xs @ xs ! k # drop (Suc k) xs" by (rule id_take_nth_drop [OF assms(1)])
  have d: "distinct (map fst (take k xs @ xs ! k # drop (Suc k) xs))"
    and s: "set (map fst xs) = set (map fst (take k xs @ xs ! k # drop (Suc k) xs))"
    using assms(2) xs by simp_all
  show "distinct (map fst (take k xs @ drop (Suc k) xs))" using d by auto
  show "set (map fst (take k xs @ drop (Suc k) xs)) = set (map fst xs) - {fst (xs ! k)}"
    unfolding s using d by auto
qed

lemma overlay_ok_step: "overlay_ok d \<Longrightarrow> overlay_ok (page_step ev d)"
proof (induction ev d rule: page_step.induct)
  case (2 k d)
  show ?case
  proof (cases "k < length (dc_timers d) \<and> snd (dc_timers d ! k) \<le> dc_now d")
    case True
    let ?ts = "take k (dc_timers d) @ drop (Suc k) (dc_timers d)"
    have t: "distinct (map fst ?ts)" "set (map fst ?ts) = set (map fst (dc_timers d)) - {fst (dc_timers d ! k)}"
      using fired_timers [of k "dc_timers d"] True 2 by (simp_all only: overlay_ok_def simp_thms)
    have "length (filter (\<lambda>r. ov_id r \<noteq> fst (dc_timers d ! k)) (dc_roots d)) \<le> 1"
      using 2 order_trans [OF length_filter_le] unfolding overlay_ok_def by blast
    then show ?thesis using True 2 t by (auto simp: overlay_ok_def simp del: map_append set_map set_append)
  next
    case False
    then show ?thesis using 2 by (simp only: page_step.simps if_False)
  qed
qed (simp_all add: overlay_ok_def)

lemma overlay_ok_steps: "overlay_ok d \<Longrightarrow> overlay_ok (fold page_step evs d)"
  by (induction evs arbitrary: d) (simp_all add: overlay_ok_step)

text \<open>An overlay that is still shown when no timer is due was drawn less than its duration ago.\<close>

lemma shown_is_fresh:
  assumes "overlay_ok d" and "r \<in> set (dc_roots d)" and "\<And>k due. (k, due) \<in> set (dc_timers d) \<Longrightarrow> dc_now d < due"
  shows "\<exists>due. (ov_id r, due) \<in> set (dc_timers d) \<and> dc_now d < due"
  using assms unfolding overlay_ok_def by force

section \<open>The executors with their overlays\<close>

text \<open>
  The calls on a session and its first page; \<open>br_act\<close> also answers the selector of the first action, if any, and
  \<open>br_evaluate\<close> runs a drawing in the page.
\<close>

record 's browser =
  br_act :: "string option \<Rightarrow> ('s, bool \<times> string \<times> string option) act"
  br_extract :: "string option \<Rightarrow> ('s, jsval) act"
  br_observe :: "string option \<Rightarrow> ('s, (string \<times> string) list) act"
  br_agent :: "string option \<Rightarrow> ('s, bool \<times> string \<times> bool) act"
  br_goto :: "string option \<Rightarrow> ('s, unit) act"
  br_url :: "('s, string) act"
  br_title :: "('s, string) act"
  br_evaluate :: "highlight_payload \<Rightarrow> ('s, nat) act"

definition act_shown :: "'s browser \<Rightarrow> string option \<Rightarrow> ('s, jsval) act" where
  "act_shown b instruction =
     then_do (br_act b instruction) (\<lambda>(success, message, target).
     then_do (if truthy target
              then highlightElement (br_evaluate b) (nullish target [])
                     \<lparr>ho_label = Some ''Acted here'', ho_durationMs = Some 3000, ho_color = Some Blue\<rparr>
              else return ()) (\<lambda>_.
     then_do (br_url b) (\<lambda>url.
       return (JObj [(''success'', JBool success), (''message'', JStr message), (''url'', JStr url)]))))"

definition observe_shown :: "'s browser \<Rightarrow> string option \<Rightarrow> ('s, jsval) act" where
  "observe_shown b instruction =
     then_do (br_observe b instruction) (\<lambda>matches.
     then_do (if matches \<noteq> []
              then highlightElements (br_evaluate b) (map fst matches)
                     \<lparr>ho_label = Some (''Found '' @ nat_text (length matches) @ '' match'' @
                                       (if length matches = 1 then [] else ''es'')),
                      ho_durationMs = Some 3500, ho_color = Some Amber\<rparr>
              else return ()) (\<lambda>_.
       return (JObj [(''matches'', JArr (map (\<lambda>(selector, description).
         JObj [(''selector'', JStr selector), (''description'', JStr description)]) matches))])))"

text \<open>\<open>hostname\<close> is \<open>new URL(url).hostname\<close>, or nothing when it throws.\<close>

definition openUrl_shown ::
    "(string option \<Rightarrow> string option) \<Rightarrow> (string option \<Rightarrow> string) \<Rightarrow> 's browser \<Rightarrow> string option \<Rightarrow> ('s, jsval) act" where
  "openUrl_shown hostname to_text b url =
     then_do (br_goto b url) (\<lambda>_.
     then_do (showStatusChip (br_evaluate b) (''Navigated to '' @ nullish (hostname url) (to_text url))
                \<lparr>ho_label = None, ho_durationMs = Some 2500, ho_color = Some Green\<rparr>) (\<lambda>_.
     then_do (br_url b) (\<lambda>u.
     then_do (br_title b) (\<lambda>t. return (JObj [(''url'', JStr u), (''title'', JStr t)])))))"

text \<open>The first chip ends in an ellipsis, here three dots.\<close>

definition extract_shown :: "'s browser \<Rightarrow> string option \<Rightarrow> ('s, jsval) act" where
  "extract_shown b instruction =
     then_do (showStatusChip (br_evaluate b) ''Extracting data...''
                \<lparr>ho_label = None, ho_durationMs = Some 20000, ho_color = Some Amber\<rparr>) (\<lambda>_.
     then_do (br_extract b instruction) (\<lambda>extraction.
     then_do (showStatusChip (br_evaluate b) ''Extraction complete''
                \<lparr>ho_label = None, ho_durationMs = Some 2500, ho_color = Some Green\<rparr>) (\<lambda>_.
       return (JObj [(''extraction'', extraction)]))))"

definition agent_shown :: "'s browser \<Rightarrow> string option \<Rightarrow> ('s, jsval) act" where
  "agent_shown b instruction =
     then_do (showStatusChip (br_evaluate b) ''Agent working...''
                \<lparr>ho_label = None, ho_durationMs = Some 20000, ho_color = Some Blue\<rparr>) (\<lambda>_.
     then_do (br_agent b instruction) (\<lambda>(success, message, completed).
       return (JObj [(''success'', JBool success), (''message'', JStr message), (''completed'', JBool completed)])))"

section \<open>Drawing is cosmetic\<close>

text \<open>Two calls agree when, from related states, they give the same and leave related states.\<close>

definition agree :: "('s \<Rightarrow> 't \<Rightarrow> bool) \<Rightarrow> ('s, 'a) act \<Rightarrow> ('t, 'a) act \<Rightarrow> bool" where
  "agree R f g \<longleftrightarrow> (\<forall>s t. R s t \<longrightarrow> fst (f s) = fst (g t) \<and> R (snd (f s)) (snd (g t)))"

lemma agree_return: "agree R (return x) (return x)"
  by (simp add: agree_def return_def)

lemma agree_then_do:
  assumes "agree R f g" and "\<And>x. agree R (h x) (k x)"
  shows "agree R (then_do f h) (then_do g k)"
  unfolding agree_def
proof (intro allI impI)
  fix s t
  assume "R s t"
  then have "fst (f s) = fst (g t)" "R (snd (f s)) (snd (g t))"
    using assms(1) by (simp_all add: agree_def)
  then show "fst (then_do f h s) = fst (then_do g k t) \<and> R (snd (then_do f h s)) (snd (then_do g k t))"
    using assms(2) by (cases "f s"; cases "g t"; cases "fst (f s)") (auto simp: then_do_def agree_def)
qed

lemma agree_then_map:
  assumes "agree R (then_do f (\<lambda>x. return (p x))) g" and "\<And>x. agree R (h x) (k (p x))"
  shows "agree R (then_do f h) (then_do g k)"
  unfolding agree_def
proof (intro allI impI)
  fix s t
  assume "R s t"
  then have "fst (then_do f (\<lambda>x. return (p x)) s) = fst (g t)" "R (snd (then_do f (\<lambda>x. return (p x)) s)) (snd (g t))"
    using assms(1) by (simp_all add: agree_def)
  then show "fst (then_do f h s) = fst (then_do g k t) \<and> R (snd (then_do f h s)) (snd (then_do g k t))"
    using assms(2)
    by (cases "f s"; cases "g t"; cases "fst (f s)") (auto simp: act_defs agree_def)
qed

text \<open>A step on the left that only changes what the relation does not see.\<close>

definition quiet :: "('s \<Rightarrow> 't \<Rightarrow> bool) \<Rightarrow> ('s, 'a) act \<Rightarrow> bool" where
  "quiet R f \<longleftrightarrow> (\<forall>s t. R s t \<longrightarrow> (\<exists>x. fst (f s) = Inr x) \<and> R (snd (f s)) t)"

lemma agree_skip:
  assumes "quiet R f" and "\<And>x. agree R (h x) g"
  shows "agree R (then_do f h) g"
  unfolding agree_def
proof (intro allI impI)
  fix s t
  assume "R s t"
  then obtain x where "f s = (Inr x, snd (f s))" "R (snd (f s)) t"
    using assms(1) unfolding quiet_def by (metis prod.collapse)
  then show "fst (then_do f h s) = fst (g t) \<and> R (snd (then_do f h s)) (snd (g t))"
    using assms(2) [of x] by (metis (mono_tags, lifting) agree_def case_prod_conv old.sum.simps(6) then_do_def)
qed

text \<open>
  A browser that does for its caller what a Stagehand does, and whose drawings change nothing that any of its calls
  depends on.
\<close>

locale cosmetic =
  fixes R :: "'s \<Rightarrow> 't \<Rightarrow> bool"
    and b :: "'s browser"
    and sh :: "'t stagehand"
  assumes acts: "agree R (then_do (br_act b i) (\<lambda>x. return (fst x, fst (snd x)))) (sh_act sh i)"
    and extracts: "agree R (br_extract b i) (sh_extract sh i)"
    and observes: "agree R (br_observe b i) (sh_observe sh i)"
    and agents: "agree R (br_agent b i) (sh_agent sh i)"
    and gotos: "agree R (br_goto b i) (sh_goto sh i)"
    and urls: "agree R (br_url b) (sh_url sh)"
    and titles: "agree R (br_title b) (sh_title sh)"
    and draws: "R s t \<Longrightarrow> R (snd (br_evaluate b p s)) t"
begin

lemma quiet_return: "quiet R (return x)"
  by (simp add: quiet_def return_def)

lemma quiet_draws:
  "quiet R (highlightElements (br_evaluate b) sels opts)"
  "quiet R (highlightElement (br_evaluate b) sel opts)"
  "quiet R (showStatusChip (br_evaluate b) label opts)"
  by (simp_all add: quiet_def highlightElement_def showStatusChip_def highlightElements_def swallow_def return_def
      Let_def draws)

lemma observe_cosmetic: "agree R (observe_shown b i) (observe_node sh i)"
  unfolding observe_shown_def observe_node_def
  by (rule agree_then_do [OF observes]) (auto intro!: agree_skip agree_return quiet_return quiet_draws)

lemma openUrl_cosmetic: "agree R (openUrl_shown hostname to_text b i) (openUrl sh i)"
  unfolding openUrl_shown_def openUrl_def
  by (intro agree_then_do [OF gotos] agree_skip [OF quiet_draws(3)] agree_then_do [OF urls] agree_then_do [OF titles] agree_return)

lemma extract_cosmetic: "agree R (extract_shown b i) (extract_node sh i)"
  unfolding extract_shown_def extract_node_def
  by (intro agree_skip [OF quiet_draws(3)] agree_then_do [OF extracts] agree_return)

lemma agent_cosmetic: "agree R (agent_shown b i) (agent_node sh i)"
  unfolding agent_shown_def agent_node_def
  by (intro agree_skip [OF quiet_draws(3)] agree_then_do [OF agents]) (simp add: agree_return split: prod.splits)

lemma act_cosmetic: "agree R (act_shown b i) (act_node sh i)"
proof -
  have shown: "agree R (then_do (if truthy sel then highlightElement (br_evaluate b) (nullish sel []) opts else return ())
      (\<lambda>_. then_do (br_url b) (\<lambda>url. return (f url)))) (then_do (sh_url sh) (\<lambda>url. return (f url)))" for sel opts f
    by (rule agree_skip [OF _ agree_then_do [OF urls agree_return]]) (simp add: quiet_return quiet_draws)
  then show ?thesis
    unfolding act_shown_def act_node_def by (intro agree_then_map [OF acts]) (simp only: case_prod_unfold fst_conv snd_conv shown)
qed

end

section \<open>The page that is drawn into\<close>

text \<open>
  A browser whose page is a document besides the site's own state: during a call the page goes through its events, and
  a drawing is evaluated in it, or throws when \<open>env\<close> answers nothing.
\<close>

definition on_site :: "('s \<Rightarrow> page_event list) \<Rightarrow> ('s, 'a) act \<Rightarrow> ('s \<times> 'e document, 'a) act" where
  "on_site during f = (\<lambda>(s, d). (case f s of (r, s') \<Rightarrow> (r, (s', fold page_step (during s') d))))"

definition draw_in ::
    "('s \<Rightarrow> ('e, 'n :: {zero, linorder}) dom_env option) \<Rightarrow> highlight_payload \<Rightarrow> ('s \<times> 'e document, nat) act" where
  "draw_in env p = (\<lambda>(s, d).
     (case env s of
        None \<Rightarrow> (Inl ''evaluate failed'', (s, d))
      | Some e \<Rightarrow> (case highlightInPage e p d of (n, d') \<Rightarrow> (Inr n, (s, d')))))"

definition drawn_browser ::
    "('s \<Rightarrow> ('e, 'n :: {zero, linorder}) dom_env option) \<Rightarrow> ('s \<Rightarrow> page_event list) \<Rightarrow> 's browser \<Rightarrow>
     ('s \<times> 'e document) browser" where
  "drawn_browser env during b =
     \<lparr>br_act = \<lambda>i. on_site during (br_act b i), br_extract = \<lambda>i. on_site during (br_extract b i),
      br_observe = \<lambda>i. on_site during (br_observe b i), br_agent = \<lambda>i. on_site during (br_agent b i),
      br_goto = \<lambda>i. on_site (\<lambda>s. Navigate # during s) (br_goto b i), br_url = on_site (\<lambda>s. []) (br_url b),
      br_title = on_site (\<lambda>s. []) (br_title b), br_evaluate = draw_in env\<rparr>"

definition stagehand_of :: "'s browser \<Rightarrow> 's stagehand" where
  "stagehand_of b =
     \<lparr>sh_act = \<lambda>i. then_do (br_act b i) (\<lambda>x. return (fst x, fst (snd x))), sh_extract = br_extract b,
      sh_observe = br_observe b, sh_agent = br_agent b, sh_goto = br_goto b, sh_url = br_url b, sh_title = br_title b\<rparr>"

text \<open>The site is the same, and there is at most one overlay.\<close>

definition same_site :: "'s \<times> 'e document \<Rightarrow> 's \<Rightarrow> bool" where
  "same_site x s \<longleftrightarrow> fst x = s \<and> overlay_ok (snd x)"

lemma on_site_agrees: "agree same_site (on_site during f) f"
  unfolding agree_def same_site_def on_site_def
  by (auto simp: case_prod_unfold overlay_ok_steps)

lemma draw_in_same_site: "same_site x s \<Longrightarrow> same_site (snd (draw_in env p x)) s"
  by (auto simp: same_site_def draw_in_def case_prod_unfold overlay_ok_draw split: option.splits)

lemma on_site_act:
  "agree same_site (then_do (on_site during f) (\<lambda>x. return (p x))) (then_do f (\<lambda>x. return (p x)))"
  by (intro agree_then_do on_site_agrees agree_return)

interpretation drawn: cosmetic same_site "drawn_browser env during b" "stagehand_of b" for env during b
  by unfold_locales
    (simp_all add: drawn_browser_def stagehand_of_def on_site_agrees on_site_act draw_in_same_site)


text \<open>A demonstration site with one button, and a new document.\<close>

definition new_document :: "'e document" where
  "new_document = \<lparr>dc_roots = [], dc_timers = [], dc_scrolled = None, dc_now = 0, dc_next = 0\<rparr>"

definition demo_browser :: "nat browser" where
  "demo_browser =
     \<lparr>br_act = \<lambda>i s. (Inr (True, ''clicked'', Some ''/html/body/button''), Suc s),
      br_extract = \<lambda>i s. (Inr JNull, s), br_observe = \<lambda>i s. (Inr [(''#a'', ''a link'')], s),
      br_agent = \<lambda>i s. (Inr (True, ''done'', True), s), br_goto = \<lambda>i s. (Inr (), 0),
      br_url = \<lambda>s. (Inr ''https://example.org/'', s), br_title = \<lambda>s. (Inr ''Example'', s),
      br_evaluate = \<lambda>p s. (Inr 0, s)\<rparr>"

definition demo_env :: "(string, int) dom_env" where
  "demo_env = \<lparr>de_xpath = Some, de_css = Some, de_size = \<lambda>e. (10, 10), de_parent = True\<rparr>"


section \<open>What a site that reads its page sees\<close>

text \<open>
  A Stagehand whose extraction reads the text of the whole page, as \<open>extract\<close> of a real page does, reads the chip that
  the step has just drawn.
\<close>

definition reading_browser :: "(nat \<times> string document) browser" where
  "reading_browser = (drawn_browser (\<lambda>s. Some demo_env) (\<lambda>s. []) demo_browser)
     \<lparr>br_extract := \<lambda>i (s, d). (Inr (JArr (map (\<lambda>r. JStr (ov_label r)) (dc_roots d))), (s, d))\<rparr>"

lemma extract_reads_chip:
  "fst (extract_shown reading_browser None (0, new_document)) =
     Inr (JObj [(''extraction'', JArr [JStr ''Extracting data...''])])"
  by (simp add: extract_shown_def then_do_def return_def reading_browser_def drawn_browser_def showStatusChip_def
      highlightElements_def swallow_def draw_in_def highlightInPage_def demo_env_def new_document_def resolve_def
      drop_first_root_def visible_box_def Let_def map_filter_simps)

text \<open>
  A chip outlives its step: the executor does not wait for it and nothing clears it, so the next step starts with the
  chip of the one before in its page.
\<close>

lemma chip_lingers:
  "map ov_label (dc_roots (snd (snd (agent_shown (drawn_browser (\<lambda>s. Some demo_env) (\<lambda>s. []) demo_browser) None
     (0, new_document))))) = [''Agent working...'']"
  by (simp add: agent_shown_def then_do_def return_def drawn_browser_def on_site_def demo_browser_def showStatusChip_def
      highlightElements_def swallow_def draw_in_def highlightInPage_def demo_env_def new_document_def resolve_def
      drop_first_root_def visible_box_def Let_def map_filter_simps)

end
