(* ===== verification/Polling.thy ===== *)
theory Polling
  imports Monitor "HOL-Library.Multiset"
begin

text \<open>
  The poll of a workflow's Evo runs over time: the effect of \<open>useEvoConsoleRuns\<close> in
  \<open>features/workflows/components/workflow-runs-provider.tsx\<close>, its requests, timers and cleanups in any order.
\<close>

section \<open>The effect\<close>

text \<open>
  A request in flight and a pending timer carry the number of the effect that made them and its workflow.
  \<open>po_cancelled\<close> is the ref that all effects share.  \<open>po_source\<close> and \<open>po_overlaps\<close> are for the proofs: the workflow
  whose answer is shown, and how many changes of the workflow found a request of the current effect in flight.
\<close>

record poller =
  po_workflow :: string
  po_mounted :: bool
  po_cancelled :: bool
  po_effect :: nat
  po_requests :: "(nat \<times> string) list"
  po_timers :: "(nat \<times> string) list"
  po_vms :: "view_model list"
  po_source :: "string option"
  po_overlaps :: nat

definition start_effect :: "string \<Rightarrow> poller \<Rightarrow> poller" where
  "start_effect w p = p\<lparr>po_workflow := w, po_mounted := True, po_cancelled := False, po_effect := Suc (po_effect p),
     po_requests := po_requests p @ [(Suc (po_effect p), w)]\<rparr>"

definition cleanup_effect :: "poller \<Rightarrow> poller" where
  "cleanup_effect p = p\<lparr>po_cancelled := True, po_timers := filter (\<lambda>t. fst t \<noteq> po_effect p) (po_timers p)\<rparr>"

definition change_workflow :: "string \<Rightarrow> poller \<Rightarrow> poller" where
  "change_workflow w p = start_effect w (cleanup_effect p)
     \<lparr>po_overlaps := po_overlaps p + (if po_effect p \<in> fst ` set (po_requests p) then 1 else 0)\<rparr>"

definition unmount :: "poller \<Rightarrow> poller" where
  "unmount p = cleanup_effect p\<lparr>po_mounted := False\<rparr>"

definition remove_nth :: "nat \<Rightarrow> 'a list \<Rightarrow> 'a list" where
  "remove_nth k xs = take k xs @ drop (Suc k) xs"

text \<open>\<open>tick\<close> after its await: the runs are taken and the next timer is set unless the ref says canceled.\<close>

definition tick_answered :: "(string \<Rightarrow> int) \<Rightarrow> nat \<Rightarrow> 'e + evo_run_dto list \<Rightarrow> poller \<Rightarrow> poller" where
  "tick_answered newDate k answer p =
     p\<lparr>po_requests := remove_nth k (po_requests p),
       po_vms := evo_tick newDate (po_vms p) answer (po_cancelled p),
       po_source := (case answer of
          Inl _ \<Rightarrow> po_source p
        | Inr _ \<Rightarrow> if po_cancelled p then po_source p else Some (snd (po_requests p ! k))),
       po_timers := po_timers p @ (if po_cancelled p then [] else [po_requests p ! k])\<rparr>"

definition timer_fired :: "nat \<Rightarrow> poller \<Rightarrow> poller" where
  "timer_fired k p =
     p\<lparr>po_timers := remove_nth k (po_timers p), po_requests := po_requests p @ [po_timers p ! k]\<rparr>"

definition new_poller :: "string \<Rightarrow> poller" where
  "new_poller w = start_effect w
     \<lparr>po_workflow = w, po_mounted = True, po_cancelled = False, po_effect = 0, po_requests = [], po_timers = [],
      po_vms = [], po_source = None, po_overlaps = 0\<rparr>"

inductive poll_step :: "(string \<Rightarrow> int) \<Rightarrow> poller \<Rightarrow> poller \<Rightarrow> bool" for newDate where
  changed: "po_mounted p \<Longrightarrow> w \<noteq> po_workflow p \<Longrightarrow> poll_step newDate p (change_workflow w p)"
| unmounted: "po_mounted p \<Longrightarrow> poll_step newDate p (unmount p)"
| answered: "k < length (po_requests p) \<Longrightarrow> poll_step newDate p (tick_answered newDate k (answer :: string + evo_run_dto list) p)"
| fired: "k < length (po_timers p) \<Longrightarrow> poll_step newDate p (timer_fired k p)"

inductive_cases poll_stepE: "poll_step newDate p p'"

section \<open>How many polls there are\<close>

text \<open>
  Every effect has at most one request or timer.  While the component is mounted the current effect has one, and every
  overlap has left one more.
\<close>

definition outstanding :: "poller \<Rightarrow> (nat \<times> string) list" where
  "outstanding p = po_requests p @ po_timers p"

definition polls_ok :: "poller \<Rightarrow> bool" where
  "polls_ok p \<longleftrightarrow> distinct (map fst (outstanding p)) \<and> (\<forall>x \<in> set (outstanding p). fst x \<le> po_effect p) \<and>
     po_cancelled p = (\<not> po_mounted p) \<and>
     length (outstanding p) \<le> Suc (po_overlaps p) \<and>
     (po_mounted p \<longrightarrow> (po_effect p, po_workflow p) \<in> set (outstanding p) \<and>
        length (outstanding p) = Suc (po_overlaps p))"

lemma remove_nth_mset: "k < length xs \<Longrightarrow> mset xs = add_mset (xs ! k) (mset (remove_nth k xs))"
  by (subst (1) id_take_nth_drop [of k xs]) (simp_all add: remove_nth_def del: append_take_drop_id)

lemma polls_ok_mset:
  "polls_ok p \<longleftrightarrow> (let m = mset (outstanding p) in
     distinct (map fst (outstanding p)) \<and> (\<forall>x \<in># m. fst x \<le> po_effect p) \<and> po_cancelled p = (\<not> po_mounted p) \<and>
     size m \<le> Suc (po_overlaps p) \<and>
     (po_mounted p \<longrightarrow> (po_effect p, po_workflow p) \<in># m \<and> size m = Suc (po_overlaps p)))"
  by (auto simp: polls_ok_def Let_def)

text \<open>A step that only moves a poll between the two lists keeps everything.\<close>

lemma polls_ok_moved:
  assumes "polls_ok p" and "mset (outstanding p') = mset (outstanding p)"
    and "po_effect p' = po_effect p" "po_workflow p' = po_workflow p" "po_mounted p' = po_mounted p"
      "po_cancelled p' = po_cancelled p" "po_overlaps p' = po_overlaps p"
  shows "polls_ok p'"
proof -
  have "mset (map fst (outstanding p')) = mset (map fst (outstanding p))"
    using assms(2) by (simp add: mset_map)
  then have "distinct (map fst (outstanding p'))"
    using assms(1) by (metis polls_ok_def mset_eq_imp_distinct_iff)
  then show ?thesis using assms by (simp add: polls_ok_mset Let_def)
qed

lemma polls_ok_lost:
  assumes "polls_ok p" and "mset (outstanding p) = add_mset x (mset (outstanding p'))" and "\<not> po_mounted p"
    and "po_effect p' = po_effect p" "po_mounted p' = po_mounted p"
      "po_cancelled p' = po_cancelled p" "po_overlaps p' = po_overlaps p"
  shows "polls_ok p'"
proof -
  have "mset (outstanding p) = mset (x # outstanding p')" using assms(2) by simp
  then have "mset (map fst (outstanding p)) = mset (map fst (x # outstanding p'))" unfolding mset_map by (rule arg_cong)
  then have "distinct (map fst (outstanding p'))"
    using assms(1) by (metis polls_ok_def mset_eq_imp_distinct_iff distinct.simps(2) list.simps(9))
  moreover have "size (mset (outstanding p)) = Suc (size (mset (outstanding p')))" using assms(2) by simp
  ultimately show ?thesis using assms by (auto simp: polls_ok_mset Let_def)
qed

lemma kept_effect: "e \<notin> fst ` set xs \<Longrightarrow> filter (\<lambda>x. fst x \<noteq> e) xs = xs"
  by (auto simp: filter_id_conv)

lemma drop_effect:
  "distinct (map fst xs) \<Longrightarrow> e \<in> fst ` set xs \<Longrightarrow> Suc (length (filter (\<lambda>x. fst x \<noteq> e) xs)) = length xs"
proof (induction xs)
  case (Cons x xs)
  show ?case
  proof (cases "fst x = e")
    case True
    then have "filter (\<lambda>x. fst x \<noteq> e) xs = xs" using Cons.prems by (intro kept_effect) auto
    then show ?thesis using True by simp
  qed (use Cons in auto)
qed simp

lemma polls_ok_change:
  assumes ok: "polls_ok p" and m: "po_mounted p"
  shows "polls_ok (change_workflow w p)"
proof -
  let ?ts = "filter (\<lambda>t. fst t \<noteq> po_effect p) (po_timers p)"
  have d: "distinct (map fst (po_requests p))" "distinct (map fst (po_timers p))"
    "fst ` set (po_requests p) \<inter> fst ` set (po_timers p) = {}"
    and low: "\<forall>x \<in> set (po_requests p) \<union> set (po_timers p). fst x \<le> po_effect p"
    and len: "length (po_requests p) + length (po_timers p) = Suc (po_overlaps p)"
    and cur: "po_effect p \<in> fst ` set (po_requests p) \<or> po_effect p \<in> fst ` set (po_timers p)"
    using ok m by (auto simp: polls_ok_def outstanding_def image_iff) force+
  have new: "outstanding (change_workflow w p) = po_requests p @ (Suc (po_effect p), w) # ?ts"
    by (simp add: outstanding_def change_workflow_def start_effect_def cleanup_effect_def)
  have ov: "po_overlaps (change_workflow w p) = po_overlaps p + (if po_effect p \<in> fst ` set (po_requests p) then 1 else 0)"
    by (simp add: change_workflow_def)
  have "Suc (length (outstanding (change_workflow w p))) = Suc (Suc (po_overlaps (change_workflow w p)))"
  proof (cases "po_effect p \<in> fst ` set (po_requests p)")
    case True
    then have "?ts = po_timers p" using d(3) by (intro kept_effect) blast
    then show ?thesis using True len by (simp add: new ov)
  next
    case False
    then have "Suc (length ?ts) = length (po_timers p)" using cur d(2) by (intro drop_effect) simp_all
    then show ?thesis using False len by (simp add: new ov)
  qed
  moreover have "distinct (map fst (outstanding (change_workflow w p)))"
  proof -
    have "Suc (po_effect p) \<notin> fst ` set (po_requests p)" "Suc (po_effect p) \<notin> fst ` set ?ts"
      using low by (auto dest: bspec)
    moreover have "fst ` set ?ts \<subseteq> fst ` set (po_timers p)" by auto
    moreover have "distinct (map fst ?ts)" using d(2) by (rule distinct_map_filter)
    ultimately show ?thesis using d unfolding new by auto
  qed
  moreover have "\<forall>x \<in> set (outstanding (change_workflow w p)). fst x \<le> Suc (po_effect p)"
    unfolding new using low by (auto intro: le_SucI)
  moreover have "(Suc (po_effect p), w) \<in> set (outstanding (change_workflow w p))" unfolding new by simp
  ultimately show ?thesis unfolding polls_ok_def
    by (simp add: change_workflow_def start_effect_def cleanup_effect_def)
qed

lemma polls_ok_step:
  assumes "poll_step newDate p p'" and ok: "polls_ok p"
  shows "polls_ok p'"
  using assms(1)
proof cases
  case (changed w)
  then show ?thesis using polls_ok_change [OF ok] by simp
next
  case unmounted
  have "length (po_requests p) + length (po_timers p) = Suc (po_overlaps p)"
    using ok unmounted by (simp add: polls_ok_def outstanding_def)
  then have "length (po_requests p) + length (filter (\<lambda>t. fst t \<noteq> po_effect p) (po_timers p)) \<le> Suc (po_overlaps p)"
    using length_filter_le [of "\<lambda>t. fst t \<noteq> po_effect p" "po_timers p"] by linarith
  then show ?thesis using ok unmounted
    by (auto simp: polls_ok_def outstanding_def unmount_def cleanup_effect_def distinct_map_filter)
next
  case (answered k answer)
  note moved = remove_nth_mset [OF answered(2)]
  show ?thesis
  proof (cases "po_cancelled p")
    case True
    then show ?thesis using ok moved
      by (intro polls_ok_lost [OF ok]) (auto simp: answered tick_answered_def outstanding_def polls_ok_def)
  next
    case False
    then show ?thesis using moved
      by (intro polls_ok_moved [OF ok]) (simp_all add: answered tick_answered_def outstanding_def)
  qed
next
  case (fired k)
  then show ?thesis using remove_nth_mset [OF fired(2)]
    by (intro polls_ok_moved [OF ok]) (simp_all add: timer_fired_def outstanding_def)
qed

lemma polls_ok_reachable: "(poll_step newDate)\<^sup>*\<^sup>* (new_poller w) p \<Longrightarrow> polls_ok p"
proof (induction rule: rtranclp_induct)
  case base
  show ?case by (simp add: new_poller_def start_effect_def polls_ok_def outstanding_def)
qed (rule polls_ok_step)

section \<open>Ending\<close>

text \<open>After the component is unmounted each step uses up a poll: a timer becomes a request, a request ends.\<close>

definition polls_left :: "poller \<Rightarrow> nat" where
  "polls_left p = length (po_requests p) + 2 * length (po_timers p)"

lemma unmounted_step:
  assumes "poll_step newDate p p'" and "polls_ok p" and "\<not> po_mounted p"
  shows "Suc (polls_left p') = polls_left p \<and> po_vms p' = po_vms p \<and> \<not> po_mounted p'"
  using assms(1)
proof cases
  case (answered k answer)
  then show ?thesis using assms(2,3)
    by (auto simp: polls_left_def tick_answered_def remove_nth_def polls_ok_def evo_tick_def split: sum.splits)
next
  case (fired k)
  then show ?thesis using assms(3) by (auto simp: polls_left_def timer_fired_def remove_nth_def)
qed (use assms(3) in simp_all)

lemma unmounted_steps:
  "(poll_step newDate ^^ n) p p' \<Longrightarrow> polls_ok p \<Longrightarrow> \<not> po_mounted p \<Longrightarrow>
     polls_left p' + n = polls_left p \<and> po_vms p' = po_vms p"
proof (induction n arbitrary: p')
  case (Suc n)
  obtain q where q: "(poll_step newDate ^^ n) p q" "poll_step newDate q p'" using Suc.prems(1) by auto
  have "(poll_step newDate)\<^sup>*\<^sup>* p q" using q(1) by (rule relpowp_imp_rtranclp)
  then have "polls_ok q \<and> \<not> po_mounted q"
    by (induction rule: rtranclp_induct) (use Suc.prems polls_ok_step unmounted_step in blast)+
  then show ?case using Suc.IH [OF q(1) Suc.prems(2,3)] unmounted_step [OF q(2)] by auto
qed simp

lemma outstanding_one:
  "polls_ok p \<Longrightarrow> po_mounted p \<Longrightarrow> po_overlaps p = 0 \<Longrightarrow> outstanding p = [(po_effect p, po_workflow p)]"
  by (auto simp: polls_ok_def length_Suc_conv)

text \<open>
  C38. While the console of a workflow is mounted its polls never die out and never multiply by themselves: there is one
  request or timer, and one more for each change of the workflow that found a request in flight; without such a change
  the only one is for the workflow that is shown.  Once it is unmounted the list no longer changes, and polling ends
  after at most two steps for each poll that was left.
\<close>

theorem polling_exact:
  assumes "(poll_step newDate)\<^sup>*\<^sup>* (new_poller w) p"
  shows "if po_mounted p
    then length (outstanding p) = Suc (po_overlaps p) \<and>
      (po_overlaps p = 0 \<longrightarrow> outstanding p = [(po_effect p, po_workflow p)])
    else \<forall>n p'. (poll_step newDate ^^ n) p p' \<longrightarrow> n \<le> 2 * Suc (po_overlaps p) \<and> po_vms p' = po_vms p"
proof (cases "po_mounted p")
  case True
  have "length (outstanding p) = Suc (po_overlaps p)"
    using polls_ok_reachable [OF assms] True by (simp add: polls_ok_def)
  then show ?thesis using True outstanding_one [OF polls_ok_reachable [OF assms] True] by presburger
next
  case False
  have "polls_left p \<le> 2 * length (outstanding p)" by (simp add: polls_left_def outstanding_def)
  also have "\<dots> \<le> 2 * Suc (po_overlaps p)"
    using polls_ok_reachable [OF assms] by (intro mult_le_mono2) (simp add: polls_ok_def)
  finally have bound: "polls_left p \<le> 2 * Suc (po_overlaps p)" .
  have "n \<le> 2 * Suc (po_overlaps p) \<and> po_vms p' = po_vms p" if "(poll_step newDate ^^ n) p p'" for n p'
    using unmounted_steps [OF that polls_ok_reachable [OF assms] False] bound by linarith
  then show ?thesis using False by simp
qed

section \<open>Polls that overlap\<close>

text \<open>
  The workflow changes while a request of the former one is in flight: its answer comes back after the answer for the
  current workflow, replaces the list that is shown, and its poll goes on.
\<close>

definition overlapping :: "(string \<Rightarrow> int) \<Rightarrow> view_model list \<Rightarrow> view_model list \<Rightarrow> poller" where
  "overlapping newDate old new =
     tick_answered newDate 0 (Inr (map (\<lambda>v. (v, None)) old) :: string + evo_run_dto list)
       (tick_answered newDate 1 (Inr (map (\<lambda>v. (v, None)) new) :: string + evo_run_dto list)
         (change_workflow ''b'' (new_poller ''a'')))"

lemma overlapping_reachable: "(poll_step newDate)\<^sup>*\<^sup>* (new_poller ''a'') (overlapping newDate old new)"
proof -
  let ?p = "change_workflow ''b'' (new_poller ''a'')"
  have "poll_step newDate (new_poller ''a'') ?p"
    by (rule poll_step.changed) (simp_all add: new_poller_def start_effect_def)
  moreover have "poll_step newDate ?p (tick_answered newDate 1 (Inr (map (\<lambda>v. (v, None)) new) :: string + evo_run_dto list) ?p)"
    by (rule poll_step.answered) (simp add: change_workflow_def start_effect_def cleanup_effect_def new_poller_def)
  moreover have "poll_step newDate (tick_answered newDate 1 (Inr (map (\<lambda>v. (v, None)) new) :: string + evo_run_dto list) ?p)
      (overlapping newDate old new)"
    unfolding overlapping_def
    by (rule poll_step.answered)
      (simp add: tick_answered_def remove_nth_def change_workflow_def start_effect_def cleanup_effect_def new_poller_def)
  ultimately show ?thesis
    by (meson converse_rtranclp_into_rtranclp rtranclp.rtrancl_refl)
qed

lemma former_workflow_shown:
  "po_workflow (overlapping newDate old new) = ''b'' \<and> po_source (overlapping newDate old new) = Some ''a'' \<and>
   map snd (outstanding (overlapping newDate old new)) = [''b'', ''a'']"
  by (simp add: overlapping_def tick_answered_def remove_nth_def change_workflow_def start_effect_def cleanup_effect_def
      new_poller_def outstanding_def)

theorem polling_exact_witness:
  "length (outstanding (overlapping (\<lambda>s. 0) [] [])) = Suc (po_overlaps (overlapping (\<lambda>s. 0) [] []))"
proof -
  have "po_mounted (overlapping (\<lambda>s. 0) [] [])"
    by (simp add: overlapping_def tick_answered_def change_workflow_def start_effect_def)
  then show ?thesis using polling_exact [OF overlapping_reachable [of "\<lambda>s. 0" "[]" "[]"]] by simp
qed

end
