(* ===== verification/Frame.thy ===== *)
theory Frame
  imports Editor Pages WorkerMain Monitor
begin

text \<open>
  The frame around the pages: the sidebar with its keyboard shortcut (\<open>components/ui/sidebar.tsx\<close>), the theme and its
  shortcut (\<open>components/theme-provider.tsx\<close>), the width query (\<open>hooks/use-mobile.ts\<close>), the plan of the organization
  (\<open>hooks/use-pro-plan.ts\<close>), the icon of a step (\<open>components/node-icon.tsx\<close>), the keys, chips and hints of the
  planner start screen (\<open>components/planner-start.tsx\<close>), the user lookup of the room (\<open>components/room.tsx\<close>) and the
  warm-up of the development server (\<open>instrumentation.ts\<close>).
\<close>

section \<open>Key events\<close>

record key_event =
  ke_key :: string
  ke_meta :: bool
  ke_ctrl :: bool
  ke_alt :: bool
  ke_repeat :: bool
  ke_defaultPrevented :: bool
  ke_target :: "(bool \<times> string) option"

section \<open>The sidebar\<close>

text \<open>
  The provider's own state, and the cookie of the document.  With \<open>openProp\<close> the caller decides what is shown; with
  \<open>controlled\<close> it is told instead of the provider's state being set.
\<close>

record sidebar_provider =
  sp_open :: bool
  sp_openMobile :: bool
  sp_cookie :: "string option"
  sp_told :: "bool list"

definition SIDEBAR_COOKIE_MAX_AGE :: nat where "SIDEBAR_COOKIE_MAX_AGE = 60 * 60 * 24 * 7"

definition bool_text :: "bool \<Rightarrow> string" where "bool_text b = (if b then ''true'' else ''false'')"

definition shown_open :: "bool option \<Rightarrow> sidebar_provider \<Rightarrow> bool" where
  "shown_open openProp s = nullish openProp (sp_open s)"

definition setOpen :: "bool option \<Rightarrow> bool \<Rightarrow> (bool \<Rightarrow> bool) \<Rightarrow> sidebar_provider \<Rightarrow> sidebar_provider" where
  "setOpen openProp controlled f s =
     (let openState = f (shown_open openProp s);
          s = (if controlled then s\<lparr>sp_told := sp_told s @ [openState]\<rparr> else s\<lparr>sp_open := openState\<rparr>)
      in s\<lparr>sp_cookie := Some (''sidebar_state='' @ bool_text openState @ ''; path=/; max-age='' @
            nat_text SIDEBAR_COOKIE_MAX_AGE)\<rparr>)"

text \<open>\<open>isMobile\<close> is the constant false of the provider.\<close>

definition provider_isMobile :: bool where "provider_isMobile = False"

definition toggleSidebar :: "bool option \<Rightarrow> bool \<Rightarrow> sidebar_provider \<Rightarrow> sidebar_provider" where
  "toggleSidebar openProp controlled s =
     (if provider_isMobile then s\<lparr>sp_openMobile := \<not> sp_openMobile s\<rparr> else setOpen openProp controlled Not s)"

text \<open>The answer also says whether the default action of the key is prevented.\<close>

definition sidebar_key :: "bool option \<Rightarrow> bool \<Rightarrow> key_event \<Rightarrow> sidebar_provider \<Rightarrow> bool \<times> sidebar_provider" where
  "sidebar_key openProp controlled e s =
     (if ke_key e = ''b'' \<and> (ke_meta e \<or> ke_ctrl e) then (True, toggleSidebar openProp controlled s) else (False, s))"

definition sidebar_state :: "bool option \<Rightarrow> sidebar_provider \<Rightarrow> string" where
  "sidebar_state openProp s = (if shown_open openProp s then ''expanded'' else ''collapsed'')"

datatype sidebar_shape =
    PlainSidebar
  | MobileSheet bool
  | DesktopSidebar string string

definition Sidebar :: "string \<Rightarrow> bool option \<Rightarrow> sidebar_provider \<Rightarrow> sidebar_shape" where
  "Sidebar collapsible openProp s =
     (if collapsible = ''none'' then PlainSidebar
      else if provider_isMobile then MobileSheet (sp_openMobile s)
      else DesktopSidebar (sidebar_state openProp s)
        (if sidebar_state openProp s = ''collapsed'' then collapsible else []))"

definition new_sidebar :: "bool option \<Rightarrow> sidebar_provider" where
  "new_sidebar defaultOpen = \<lparr>sp_open = nullish defaultOpen True, sp_openMobile = False, sp_cookie = None, sp_told = []\<rparr>"

definition useIsMobile :: "int option \<Rightarrow> bool" where
  "useIsMobile innerWidth = (case innerWidth of None \<Rightarrow> False | Some w \<Rightarrow> w < 768)"

section \<open>The theme\<close>

text \<open>The target of an event, if it is an HTML element: whether its content is editable, and its tag.\<close>

definition isTypingTarget :: "(bool \<times> string) option \<Rightarrow> bool" where
  "isTypingTarget target =
     (case target of
        None \<Rightarrow> False
      | Some (editable, tag) \<Rightarrow> editable \<or> tag = ''INPUT'' \<or> tag = ''TEXTAREA'' \<or> tag = ''SELECT'')"

definition theme_key :: "key_event \<Rightarrow> string \<Rightarrow> string" where
  "theme_key e resolvedTheme =
     (if ke_defaultPrevented e \<or> ke_repeat e then resolvedTheme
      else if ke_meta e \<or> ke_ctrl e \<or> ke_alt e then resolvedTheme
      else if ke_key e = [] \<or> to_lower (ke_key e) \<noteq> ''d'' then resolvedTheme
      else if isTypingTarget (ke_target e) then resolvedTheme
      else if resolvedTheme = ''dark'' then ''light'' else ''dark'')"

text \<open>
  The two shortcuts never meet: a key press toggles the sidebar or the theme or neither, and typing changes the theme
  never.
\<close>

lemma shortcuts_disjoint:
  "fst (sidebar_key openProp controlled e s) \<Longrightarrow> theme_key e t = t"
  "isTypingTarget (ke_target e) \<Longrightarrow> theme_key e t = t"
  by (auto simp: sidebar_key_def theme_key_def)

text \<open>
  However many keys are pressed, the sidebar of the dashboard is open exactly when the shortcut was pressed an even
  number of times, and the cookie names the state it is in.
\<close>

definition shortcut :: "key_event \<Rightarrow> bool" where
  "shortcut e \<longleftrightarrow> ke_key e = ''b'' \<and> (ke_meta e \<or> ke_ctrl e)"

lemma toggled: "toggleSidebar None False s =
    s\<lparr>sp_open := \<not> sp_open s, sp_cookie := Some (''sidebar_state='' @ bool_text (\<not> sp_open s) @ ''; path=/; max-age='' @
      nat_text SIDEBAR_COOKIE_MAX_AGE)\<rparr>"
  by (simp add: toggleSidebar_def provider_isMobile_def setOpen_def shown_open_def Let_def)

lemma sidebar_after_keys:
  fixes es :: "key_event list" and s :: sidebar_provider
  defines "s' \<equiv> fold (\<lambda>e. snd \<circ> sidebar_key None False e) es s"
  shows "sp_open s' = (sp_open s = even (length (filter shortcut es)))"
    and "filter shortcut es \<noteq> [] \<Longrightarrow> sp_cookie s' = Some (''sidebar_state='' @ bool_text (sp_open s') @
      ''; path=/; max-age='' @ nat_text SIDEBAR_COOKIE_MAX_AGE)"
proof -
  have "sp_open (fold (\<lambda>e. snd \<circ> sidebar_key None False e) es s) = (sp_open s = even (length (filter shortcut es)))" for s
    by (induction es arbitrary: s) (auto simp: sidebar_key_def shortcut_def toggled)
  then show "sp_open s' = (sp_open s = even (length (filter shortcut es)))" by (simp add: s'_def)
  have "filter shortcut es \<noteq> [] \<or> sp_cookie s = Some (''sidebar_state='' @ bool_text (sp_open s) @
        ''; path=/; max-age='' @ nat_text SIDEBAR_COOKIE_MAX_AGE) \<Longrightarrow>
      sp_cookie (fold (\<lambda>e. snd \<circ> sidebar_key None False e) es s) =
        Some (''sidebar_state='' @ bool_text (sp_open (fold (\<lambda>e. snd \<circ> sidebar_key None False e) es s)) @
        ''; path=/; max-age='' @ nat_text SIDEBAR_COOKIE_MAX_AGE)" for s
  proof (induction es arbitrary: s)
    case (Cons e es)
    show ?case
    proof (cases "shortcut e")
      case True
      then have "snd (sidebar_key None False e s) = toggleSidebar None False s" by (simp add: sidebar_key_def shortcut_def)
      then show ?thesis using Cons.IH [of "toggleSidebar None False s"] by (simp add: toggled)
    next
      case False
      then have "snd (sidebar_key None False e s) = s" by (auto simp: sidebar_key_def shortcut_def)
      then show ?thesis using Cons.IH [of s] Cons.prems False by simp
    qed
  qed simp
  then show "filter shortcut es \<noteq> [] \<Longrightarrow> sp_cookie s' = Some (''sidebar_state='' @ bool_text (sp_open s') @
      ''; path=/; max-age='' @ nat_text SIDEBAR_COOKIE_MAX_AGE)" by (simp add: s'_def)
qed

text \<open>The layout passes no initial state: a page that is loaded again shows the sidebar open, whatever the cookie says.\<close>

lemma cookie_not_read: "sp_open (new_sidebar None)"
  by (simp add: new_sidebar_def)

section \<open>Hooks outside their providers\<close>

text \<open>A hook that reads a context throws when no provider is above it.\<close>

definition useSidebar :: "'c option \<Rightarrow> string + 'c" where
  "useSidebar context =
     (case context of None \<Rightarrow> Inl ''useSidebar must be used within a SidebarProvider.'' | Some c \<Rightarrow> Inr c)"

definition useWorkflowRuns :: "(console_run list \<times> string option) option \<Rightarrow> string + console_run list \<times> string option" where
  "useWorkflowRuns ctx =
     (case ctx of None \<Rightarrow> Inl ''useWorkflowRuns must be used within a WorkflowRunsProvider'' | Some c \<Rightarrow> Inr c)"

definition useConsoleRuns :: "(console_run list \<times> string option) option \<Rightarrow> string + console_run list" where
  "useConsoleRuns ctx = map_sum id fst (useWorkflowRuns ctx)"

definition useRunsConnectionError :: "(console_run list \<times> string option) option \<Rightarrow> string + string option" where
  "useRunsConnectionError ctx = map_sum id snd (useWorkflowRuns ctx)"

definition useEvoRunView :: "(view_model option \<times> string option) option \<Rightarrow> string + view_model option" where
  "useEvoRunView ctx =
     (case ctx of
        None \<Rightarrow> Inl ''useEvoRunView must be used within an EvoRunEventsProvider''
      | Some (view, error) \<Rightarrow> Inr view)"

definition useEvoRunEventsError :: "(view_model option \<times> string option) option \<Rightarrow> string + string option" where
  "useEvoRunEventsError ctx =
     (case ctx of
        None \<Rightarrow> Inl ''useEvoRunEventsError must be used within an EvoRunEventsProvider''
      | Some (view, error) \<Rightarrow> Inr error)"

section \<open>The plan and the icon of a step\<close>

text \<open>\<open>useProPlan\<close>: \<open>has\<close> is the session's check of a plan, once it is loaded.\<close>

definition useProPlan :: "(string \<Rightarrow> bool) option \<Rightarrow> bool \<Rightarrow> bool \<times> bool \<times> string" where
  "useProPlan has isLoaded = (isLoaded, (case has of None \<Rightarrow> False | Some h \<Rightarrow> h ''pro''), ''/billing'')"

text \<open>
  \<open>NodeIcon\<close>: the registry is looked up by a plain string.  An inherited property has no icon, and React refuses to
  render the missing component.
\<close>

datatype step_icon = SpinnerIcon | HelpIcon | RegistryIcon string | RenderError

definition NodeIcon :: "string \<Rightarrow> bool \<Rightarrow> step_icon" where
  "NodeIcon type running =
     (case js_lookup nodeRegistry type of
        Missing \<Rightarrow> if running then SpinnerIcon else HelpIcon
      | Own def \<Rightarrow> if running then SpinnerIcon else RegistryIcon type
      | Inherited \<Rightarrow> if running then SpinnerIcon else RenderError)"

lemma NodeIcon_crashes: "NodeIcon type running = RenderError \<longleftrightarrow>
    \<not> running \<and> type \<notin> fst ` set nodeRegistry \<and> type \<in> set object_proto_names"
proof (cases "js_lookup nodeRegistry type")
  case Missing
  then show ?thesis using js_lookup_Missing_iff [of nodeRegistry type] by (auto simp: NodeIcon_def)
next
  case Inherited
  then have "map_of nodeRegistry type = None \<and> type \<in> set object_proto_names"
    by (cases "map_of nodeRegistry type") (auto simp: js_lookup_def split: if_splits)
  then show ?thesis using Inherited by (simp add: NodeIcon_def map_of_eq_None_iff)
next
  case (Own def)
  then have "map_of nodeRegistry type \<noteq> None" by (simp add: js_lookup_Own_iff)
  then have "type \<in> fst ` set nodeRegistry" unfolding map_of_eq_None_iff by blast
  then show ?thesis using Own by (simp add: NodeIcon_def)
qed

section \<open>The planner start screen\<close>

definition EXAMPLE_PROMPTS :: "string list" where
  "EXAMPLE_PROMPTS =
     [''Scrape product prices from a competitor and email me a summary'',
      ''Log into my dashboard, extract weekly metrics, and send a Slack digest'',
      ''Open a job board, find new listings matching my criteria, and save them'']"

text \<open>The answer says whether the default action is prevented and the goal that is submitted, if any.\<close>

definition prompt_key :: "key_event \<Rightarrow> planner_start \<Rightarrow> (bool \<times> string option) \<times> planner_start" where
  "prompt_key e p =
     (if ke_key e = ''Enter'' \<and> (ke_meta e \<or> ke_ctrl e)
      then (case submit_goal p of (goal, p') \<Rightarrow> ((True, goal), p'))
      else ((False, None), p))"

definition select_example :: "string \<Rightarrow> planner_start \<Rightarrow> planner_start" where
  "select_example example p = (if pl_isGenerating p then p else prompt_changed example p)"

text \<open>The label of a chip; the ellipsis is written as three dots.\<close>

definition chip_label :: "string \<Rightarrow> string" where
  "chip_label example = (if 50 < length example then take 47 example @ ''...'' else example)"

text \<open>\<open>locale\<close> is how the page writes a number.\<close>

definition prompt_feedback :: "(nat \<Rightarrow> string) \<Rightarrow> planner_start \<Rightarrow> string option" where
  "prompt_feedback localeText p =
     (if MAX_PROMPT_LENGTH < length (pl_prompt p)
      then Some (''Prompt exceeds maximum limit of '' @ localeText MAX_PROMPT_LENGTH @ '' characters.'')
      else if truthy (pl_shownError p) then pl_shownError p else None)"

definition prompt_counter :: "(nat \<Rightarrow> string) \<Rightarrow> planner_start \<Rightarrow> string" where
  "prompt_counter localeText p = localeText (length (pl_prompt p)) @ '' / '' @ localeText MAX_PROMPT_LENGTH"

definition generate_button :: "planner_start \<Rightarrow> bool \<times> string" where
  "generate_button p = (canGenerate p, if pl_isGenerating p then ''Generating...'' else ''Generate Workflow'')"

text \<open>
  Every example can be submitted as soon as it is chosen, and an enabled button, the shortcut and a submitted goal are
  the same thing.
\<close>

lemma trim_id:
  assumes "s \<noteq> []" and "\<not> js_space (hd s)" and "\<not> js_space (last s)"
  shows "trim s = s"
proof -
  have keep: "dropWhile js_space xs = xs" if "xs = [] \<or> \<not> js_space (hd xs)" for xs
    using that by (cases xs) auto
  show ?thesis using assms by (simp add: trim_def keep hd_rev)
qed

lemma examples_fit: "\<forall>ex \<in> set EXAMPLE_PROMPTS. trim ex = ex \<and> ex \<noteq> [] \<and> length ex \<le> MAX_PROMPT_LENGTH"
  by (simp add: EXAMPLE_PROMPTS_def trim_id js_space_def MAX_PROMPT_LENGTH_def)

lemma examples_submit:
  assumes "ex \<in> set EXAMPLE_PROMPTS" and "\<not> pl_isGenerating p"
  shows "fst (submit_goal (select_example ex p)) = Some ex \<and> prompt_feedback localeText (select_example ex p) = None"
  using examples_fit [rule_format, OF assms(1)] assms(2)
  by (cases "pl_shownError p")
    (auto simp: select_example_def prompt_changed_def submit_goal_def canGenerate_def prompt_feedback_def)

lemma shortcut_submits:
  "ke_key e = ''Enter'' \<Longrightarrow> ke_meta e \<or> ke_ctrl e \<Longrightarrow>
     (snd (fst (prompt_key e p)) \<noteq> None \<longleftrightarrow> fst (generate_button p)) \<and> fst (fst (prompt_key e p))"
  by (simp add: prompt_key_def generate_button_def submit_goal_def)

section \<open>The names of the users in a room\<close>

text \<open>
  \<open>resolveUsers\<close>: the fetch of the route either throws or answers whether it is ok and, in that case, what reading
  the body ends with; every failure leaves the users unknown.
\<close>

definition resolveUsers :: "(string list \<Rightarrow> string + (bool \<times> (string + 'u))) \<Rightarrow> string list \<Rightarrow> 'u option" where
  "resolveUsers fetch userIds =
     (case fetch userIds of
        Inl err \<Rightarrow> None
      | Inr (isOk, body) \<Rightarrow>
          if \<not> isOk then None
          else (case body of Inl err \<Rightarrow> None | Inr users \<Rightarrow> Some users))"

section \<open>Warming up the development server\<close>

datatype boot_call =
    ImportSentryServer
  | ImportSentryEdge
  | PostTo string
  | SleepFor nat
  | EveryMs nat

definition warm_paths :: "string list" where
  "warm_paths = [''/api/liveblocks/auth'', ''/api/liveblocks/users'']"

definition warm_base :: "environ \<Rightarrow> string" where
  "warm_base env = ''http://localhost:'' @ nullish (env ''PORT'') ''3000''"

text \<open>One round, given whether each request is answered.\<close>

definition warm :: "environ \<Rightarrow> (string \<Rightarrow> bool) \<Rightarrow> boot_call list \<times> bool" where
  "warm env answered =
     (map (\<lambda>p. PostTo (warm_base env @ p)) warm_paths, fold (\<lambda>p anyOk. anyOk \<or> answered p) warm_paths False)"

text \<open>\<open>boot\<close>: rounds until one is answered, which \<open>rounds i\<close> says of the \<open>i\<close>-th; then the interval is set.\<close>

partial_function (option) boot_from :: "environ \<Rightarrow> (nat \<Rightarrow> string \<Rightarrow> bool) \<Rightarrow> nat \<Rightarrow> boot_call list option" where
  "boot_from env rounds i =
     (case warm env (rounds i) of (calls, warmed) \<Rightarrow>
        if warmed then Some (calls @ [EveryMs 30000])
        else Option.bind (boot_from env rounds (Suc i)) (\<lambda>later. Some (calls @ SleepFor 2000 # later)))"

definition register :: "environ \<Rightarrow> (nat \<Rightarrow> string \<Rightarrow> bool) \<Rightarrow> boot_call list option" where
  "register env rounds =
     map_option (\<lambda>warming.
         (if env ''NEXT_RUNTIME'' = Some ''nodejs'' then ImportSentryServer # warming else []) @
         (if env ''NEXT_RUNTIME'' = Some ''edge'' then [ImportSentryEdge] else []))
       (if env ''NEXT_RUNTIME'' = Some ''nodejs'' \<and> env ''NODE_ENV'' = Some ''development''
        then map_option (Cons (SleepFor 1500)) (boot_from env rounds 0) else Some [])"

lemma warmed_iff: "snd (warm env answered) \<longleftrightarrow> (\<exists>p \<in> set warm_paths. answered p)"
  by (simp add: warm_def warm_paths_def)

text \<open>The warm-up ends with the first round in which a route answers, and makes two requests a round until then.\<close>

lemma boot_ends:
  "(\<exists>p \<in> set warm_paths. rounds (i + n) p) \<Longrightarrow> (\<And>j. j < n \<Longrightarrow> \<not> (\<exists>p \<in> set warm_paths. rounds (i + j) p)) \<Longrightarrow>
     \<exists>calls. boot_from env rounds i = Some (calls @ [EveryMs 30000]) \<and>
       length (filter (\<lambda>c. \<exists>u. c = PostTo u) calls) = 2 * Suc n"
proof (induction n arbitrary: i)
  case 0
  then have "snd (warm env (rounds i))" by (simp add: warmed_iff)
  then show ?case by (subst boot_from.simps) (auto simp: warm_def warm_paths_def)
next
  case (Suc n)
  have "\<not> snd (warm env (rounds i))" using Suc.prems(2) [of 0] by (simp add: warmed_iff)
  moreover obtain calls where "boot_from env rounds (Suc i) = Some (calls @ [EveryMs 30000])"
    "length (filter (\<lambda>c. \<exists>u. c = PostTo u) calls) = 2 * Suc n"
    using Suc.IH [of "Suc i"] Suc.prems by force
  ultimately show ?case
    by (subst boot_from.simps) (auto simp: warm_def warm_paths_def)
qed

lemma never_in_production:
  "env ''NODE_ENV'' \<noteq> Some ''development'' \<Longrightarrow> \<exists>calls. register env rounds = Some calls \<and> (\<forall>u. PostTo u \<notin> set calls)"
  by (simp add: register_def)

end
