(* ===== verification/Clients.thy ===== *)
theory Clients
  imports Overlays WorkerMain
begin

text \<open>
  The clients that a process keeps: \<open>lib/resend.ts\<close>, \<open>lib/liveblocks.ts\<close>, \<open>lib/browserbase.ts\<close>, \<open>lib/db/index.ts\<close>,
  \<open>lib/evo-redis.ts\<close>, \<open>lib/db/phase2.ts\<close> and the lazily loaded scheduler client of \<open>lib/evo-engine-adapter.ts\<close>; the protobuf root
  of \<open>worker/src/envelope-codec.ts\<close> and the screenshot of \<open>worker/src/browser-session-manager.ts\<close>.  A client is what it was made from; making one does not fail.
\<close>

section \<open>Checked keys and cached clients\<close>

text \<open>The check of the environment, done on every call, gives an error or the key to make a client from.\<close>

type_synonym 'k check = "environ \<Rightarrow> string + 'k"

definition cached_client :: "'k check \<Rightarrow> environ \<Rightarrow> 'k option \<Rightarrow> (string + 'k) \<times> 'k option" where
  "cached_client check env cached =
     (case check env of
        Inl err \<Rightarrow> (Inl err, cached)
      | Inr key \<Rightarrow> let client = nullish cached key in (Inr client, Some client))"

definition required :: "string \<Rightarrow> string \<Rightarrow> string check" where
  "required name message env = (if truthy (env name) then Inr (nullish (env name) []) else Inl message)"

definition getResendClient :: "environ \<Rightarrow> string option \<Rightarrow> (string + string) \<times> string option" where
  "getResendClient = cached_client (required ''RESEND_API_KEY'' ''RESEND_API_KEY is missing or empty'')"

definition getBrowserbaseClient :: "environ \<Rightarrow> string option \<Rightarrow> (string + string) \<times> string option" where
  "getBrowserbaseClient = cached_client (required ''BROWSERBASE_API_KEY'' ''BROWSERBASE_API_KEY is missing or empty'')"

definition getDb :: "environ \<Rightarrow> string option \<Rightarrow> (string + string) \<times> string option" where
  "getDb = cached_client (required ''DATABASE_URL'' ''DATABASE_URL is not set'')"

definition liveblocks_secret :: "string check" where
  "liveblocks_secret env =
     (case required ''LIVEBLOCKS_SECRET_KEY'' ''LIVEBLOCKS_SECRET_KEY is not set'' env of
        Inl err \<Rightarrow> Inl err
      | Inr secret \<Rightarrow>
          if starts_with secret ''sk_'' then Inr secret else Inl ''LIVEBLOCKS_SECRET_KEY must start with sk_'')"

definition getLiveblocksClient :: "environ \<Rightarrow> string option \<Rightarrow> (string + string) \<times> string option" where
  "getLiveblocksClient = cached_client liveblocks_secret"

text \<open>The two Phase-2 clients check nothing; they can be closed, whatever closing the connection answers.\<close>

definition getEvoRedis ::
    "(string \<Rightarrow> 'n) \<Rightarrow> environ \<Rightarrow> 'n redis_config option \<Rightarrow> (string + 'n redis_config) \<times> 'n redis_config option" where
  "getEvoRedis number = cached_client (\<lambda>env. Inr (getEvoRedisConfig number env))"

definition closeEvoRedis :: "'n redis_config option \<Rightarrow> 'n redis_config option" where
  "closeEvoRedis cached = (case cached of None \<Rightarrow> cached | Some c \<Rightarrow> None)"

definition getPhase2Db ::
    "(string \<Rightarrow> 'n) \<Rightarrow> environ \<Rightarrow> 'n phase2_config option \<Rightarrow> (string + 'n phase2_config) \<times> 'n phase2_config option" where
  "getPhase2Db number = cached_client (\<lambda>env. Inr (getPhase2DbConfig number env))"

definition closePhase2Db :: "'n phase2_config option \<Rightarrow> 'n phase2_config option" where
  "closePhase2Db cached = (case cached of None \<Rightarrow> cached | Some c \<Rightarrow> None)"

text \<open>The clients that a sequence of calls, each with the environment of its time, gets.\<close>

fun client_calls :: "'k check \<Rightarrow> environ list \<Rightarrow> 'k option \<Rightarrow> (string + 'k) list" where
  "client_calls check [] cached = []"
| "client_calls check (env # envs) cached =
     (case cached_client check env cached of (answer, cached) \<Rightarrow> answer # client_calls check envs cached)"

text \<open>
  A process uses one client: every call gets the error of the check of its own environment, or the client made by the
  first call whose check succeeded.  A key that is changed later is checked but not used.
\<close>

lemma client_calls_cached:
  "client_calls check envs (Some c) = map (\<lambda>env. case check env of Inl e \<Rightarrow> Inl e | Inr k \<Rightarrow> Inr c) envs"
  by (induction envs) (auto simp: cached_client_def split: sum.splits)

lemma one_client:
  "client_calls check envs None =
     (let failing = takeWhile (\<lambda>env. isl (check env)) envs; rest = dropWhile (\<lambda>env. isl (check env)) envs
      in map (\<lambda>env. Inl (projl (check env))) failing @
         (case rest of
            [] \<Rightarrow> []
          | env # _ \<Rightarrow> map (\<lambda>env'. case check env' of Inl e \<Rightarrow> Inl e | Inr k \<Rightarrow> Inr (projr (check env))) rest))"
proof (induction envs)
  case (Cons env envs)
  then show ?case
    by (cases "check env") (auto simp: cached_client_def client_calls_cached Let_def split: list.splits sum.splits)
qed simp

section \<open>The scheduler client\<close>

text \<open>
  \<open>clientPromise\<close> of an adapter: not asked for yet, or settled.  Loading the gRPC module may fail; its client is the
  address it was made for.
\<close>

definition scheduler_addr :: "string option \<Rightarrow> environ \<Rightarrow> string" where
  "scheduler_addr schedulerAddr env = nullish schedulerAddr (nullish (env ''EVO_SCHEDULER_ADDR'') ''127.0.0.1:50051'')"

definition getClient ::
    "string option \<Rightarrow> environ \<Rightarrow> string option \<Rightarrow> (string + string) option \<Rightarrow> (string + string) \<times> (string + string) option" where
  "getClient schedulerAddr env loadError clientPromise =
     (let p = (case clientPromise of
                 Some p \<Rightarrow> p
               | None \<Rightarrow> (case loadError of Some err \<Rightarrow> Inl err | None \<Rightarrow> Inr (scheduler_addr schedulerAddr env)))
      in (p, Some p))"

definition generateRunId :: "string \<Rightarrow> string" where
  "generateRunId uuid = ''evo_'' @ uuid"

text \<open>A failed load is kept: the adapter answers every later call with the same error, also once loading would work.\<close>

fun client_loads :: "string option \<Rightarrow> (environ \<times> string option) list \<Rightarrow> (string + string) option \<Rightarrow> (string + string) list" where
  "client_loads addr [] p = []"
| "client_loads addr ((env, err) # calls) p =
     (case getClient addr env err p of (answer, p) \<Rightarrow> answer # client_loads addr calls p)"

lemma loaded_once: "client_loads addr calls (Some p) = replicate (length calls) p"
  by (induction calls) (auto simp: getClient_def Let_def)

lemma failed_load_kept:
  "client_loads addr ((env, Some err) # calls) None = replicate (Suc (length calls)) (Inl err)"
  by (simp add: getClient_def loaded_once Let_def)

text \<open>\<open>closeGrpcEvoSchedulerClient\<close>: the next call of any client loads a channel to its own address.\<close>

definition closeGrpcEvoSchedulerClient :: "string option \<Rightarrow> string option" where
  "closeGrpcEvoSchedulerClient cachedClient = (case cachedClient of None \<Rightarrow> cachedClient | Some a \<Rightarrow> None)"

lemma closed_channel_reloads:
  "tp_load tp addr \<Longrightarrow>
     snd (snd (unary tp env addr call k (s, closeGrpcEvoSchedulerClient c))) = Some addr"
  by (cases c) (auto simp: unary_def closeGrpcEvoSchedulerClient_def split: prod.splits sum.splits)

section \<open>The protobuf root of the worker\<close>

text \<open>
  \<open>loadRoot\<close>: \<open>load\<close> reads a proto file, or throws; \<open>'r\<close> is a parsed root and \<open>add\<close> what adding one to another gives.
  The well-known types come from the first candidate that can be read, and else from the text in the source.
\<close>

definition WELL_KNOWN_CANDIDATES :: "string list" where
  "WELL_KNOWN_CANDIDATES =
     [''/opt/homebrew/include/google/protobuf/timestamp.proto'', ''/usr/local/include/google/protobuf/timestamp.proto'']"

definition timestamp_proto :: string where
  "timestamp_proto = ''syntax = '' @ [CHR 0x22] @ ''proto3'' @ [CHR 0x22] @
     ''; package google.protobuf; message Timestamp { int64 seconds = 1; int32 nanos = 2; }''"

fun first_loaded :: "(string \<Rightarrow> string + 'r) \<Rightarrow> string list \<Rightarrow> 'r option" where
  "first_loaded load [] = None"
| "first_loaded load (p # ps) = (case load p of Inl err \<Rightarrow> first_loaded load ps | Inr r \<Rightarrow> Some r)"

definition loadRoot ::
    "(string \<Rightarrow> string + 'r) \<Rightarrow> (string \<Rightarrow> 'r) \<Rightarrow> ('r \<Rightarrow> 'r \<Rightarrow> 'r) \<Rightarrow> string \<Rightarrow> 'r option \<Rightarrow> (string + 'r) \<times> 'r option" where
  "loadRoot load parse add PROTO_PATH cachedRoot =
     (case cachedRoot of
        Some root \<Rightarrow> (Inr root, cachedRoot)
      | None \<Rightarrow>
          (case load PROTO_PATH of
             Inl err \<Rightarrow> (Inl err, None)
           | Inr root \<Rightarrow>
               let root = add root (nullish (first_loaded load WELL_KNOWN_CANDIDATES) (parse timestamp_proto))
               in (Inr root, Some root)))"

text \<open>
  Loading needs the file of the engine only: the well-known types never make it fail, and a failure is not kept.  Once
  loaded, no file is read again.
\<close>

lemma loadRoot_exact:
  "isl (fst (loadRoot load parse add P c)) \<longleftrightarrow> c = None \<and> isl (load P)"
  "isl (fst (loadRoot load parse add P c)) \<Longrightarrow> snd (loadRoot load parse add P c) = None"
  "fst (loadRoot load parse add P c) = Inr r \<Longrightarrow> loadRoot load' parse' add' P' (snd (loadRoot load parse add P c)) = (Inr r, Some r)"
  by (auto simp: loadRoot_def Let_def split: option.splits sum.splits)

section \<open>The final screenshot of the worker\<close>

text \<open>
  \<open>pages\<close> is the list of pages, nothing when there is no context, and may throw; \<open>shoot\<close> takes the screenshot of a page
  and encodes it.
\<close>

definition worker_captureFinalScreenshot ::
    "('s, 'p list option) act \<Rightarrow> ('p \<Rightarrow> ('s, string) act) \<Rightarrow> 's \<Rightarrow> string option \<times> 's" where
  "worker_captureFinalScreenshot pages shoot s =
     (case then_do pages (\<lambda>ps.
             if nullish ps [] = [] then return None
             else then_do (shoot (last (nullish ps []))) (\<lambda>text. return (Some text))) s of
        (Inl err, s') \<Rightarrow> (None, s')
      | (Inr shot, s') \<Rightarrow> (shot, s'))"

section \<open>Names of new workflows\<close>

text \<open>\<open>namesGenerator\<close> is the package \<open>unique-names-generator\<close>: dictionaries, separator and number of words.\<close>

definition generateSlug :: "(string list list \<Rightarrow> string \<Rightarrow> nat \<Rightarrow> string) \<Rightarrow> string list \<Rightarrow> string list \<Rightarrow> string" where
  "generateSlug namesGenerator adjectives animals = namesGenerator [adjectives, animals] ''-'' 2"

end
