(* ===== verification/Screens.thy ===== *)
theory Screens
  imports LiveBrowser Frame
begin

text \<open>
  What the page of a workflow puts on the screen: the shell (\<open>components/workflow-shell.tsx\<close>), the canvas
  (\<open>components/canvas.tsx\<close>), the right sidebar (\<open>components/right-sidebar.tsx\<close>), the live browser
  (\<open>components/live-browser.tsx\<close>), the recording (\<open>components/session-replay.tsx\<close>) and the navigation
  (\<open>components/workflow-nav.tsx\<close>), each as the parts that are shown, with their texts and actions.
\<close>

section \<open>The canvas\<close>

text \<open>The theme is not known before the component is mounted in the browser.\<close>

definition colorMode :: "bool \<Rightarrow> string option \<Rightarrow> string" where
  "colorMode mounted resolvedTheme = (if mounted then nullish resolvedTheme ''light'' else ''light'')"

record canvas_view =
  cv_colors :: string
  cv_graph :: workflow_graph
  cv_banner :: "bool option"

text \<open>The banner of a preview, with the button that dismisses it if there is an action for it.\<close>

definition Canvas :: "bool \<Rightarrow> string option \<Rightarrow> room_flow \<Rightarrow> bool \<Rightarrow> bool \<Rightarrow> canvas_view" where
  "Canvas mounted resolvedTheme flow isPreview canDismiss =
     \<lparr>cv_colors = colorMode mounted resolvedTheme, cv_graph = canvas_graph flow,
      cv_banner = (if isPreview then Some canDismiss else None)\<rparr>"

definition dismiss_preview :: "shell \<Rightarrow> shell" where
  "dismiss_preview s = s\<lparr>wh_isPreview := False\<rparr>"

section \<open>The live browser\<close>

datatype pane_content =
    Frame string
  | WaitingNote "startup_diagnosis option"
  | ConnectingNote nat
  | UnavailableNote
  | EndedNote

record pane_view =
  pv_running :: "string option"
  pv_badge :: "string option"
  pv_content :: "pane_content list"

definition live_badge :: "live_status \<Rightarrow> string option" where
  "live_badge status =
     (case status of
        Live \<Rightarrow> Some ''LIVE''
      | Connecting \<Rightarrow> Some ''Connecting...''
      | live_status.Ended \<Rightarrow> Some ''Session ended''
      | _ \<Rightarrow> None)"

definition live_browser_view :: "live_props \<Rightarrow> console_run list \<Rightarrow> startup_diagnosis option \<Rightarrow> live_browser \<Rightarrow> pane_view" where
  "live_browser_view p runs diagnosis s =
     \<lparr>pv_running = (case activeStep (bp_isRunLive p) runs of
        Some step \<Rightarrow> if bp_isRunLive p then Some (''Running: '' @ st_title step) else None
      | None \<Rightarrow> None),
      pv_badge = live_badge (lv_status s),
      pv_content =
        (case iframe s of Some u \<Rightarrow> [Frame u] | None \<Rightarrow> []) @
        (if lv_status s = Waiting then [WaitingNote diagnosis] else []) @
        (if lv_status s = Connecting then [ConnectingNote (lv_connectElapsed s)] else []) @
        (if lv_status s = Unavailable then [UnavailableNote] else []) @
        (if lv_status s = live_status.Ended then [EndedNote] else [])\<rparr>"

text \<open>The pane shows one thing: the frame, or the note of its status; the badge says live only over the frame.\<close>

definition live_url :: "live_browser \<Rightarrow> bool" where
  "live_url s \<longleftrightarrow> (lv_status s = Live \<longrightarrow> truthy (lv_debugUrl s))"

lemma one_content:
  assumes "live_url s"
  shows "length (pv_content (live_browser_view p runs diagnosis s)) = 1"
    and "pv_badge (live_browser_view p runs diagnosis s) = Some ''LIVE'' \<longleftrightarrow>
      (\<exists>u. pv_content (live_browser_view p runs diagnosis s) = [Frame u])"
  using assms
  by (cases "lv_status s"; auto simp: live_browser_view_def live_url_def iframe_def live_badge_def truthy_iff)+

lemma live_url_kept:
  "live_url new_live_browser"
  "live_url s \<Longrightarrow> live_url (render_pass p s)"
  "live_url s \<Longrightarrow> live_url (tick s)"
  "live_url s \<Longrightarrow> live_url (connect_effect p s)"
  "live_url s \<Longrightarrow> live_url (LiveBrowser.on_reply cancelled url s)"
  "live_url s \<Longrightarrow> live_url (snd (handleIframeLoad p s))"
  by (auto simp: live_url_def new_live_browser_def render_pass_def tick_def connect_effect_def LiveBrowser.on_reply_def
      handleIframeLoad_def Let_def split: option.splits)

section \<open>The shell\<close>

datatype screen =
    PlannerScreen
  | CanvasScreen canvas_view "live_props option"

definition WorkflowShell :: "bool \<Rightarrow> string option \<Rightarrow> console_run list \<Rightarrow> room_flow \<Rightarrow> shell \<Rightarrow> screen" where
  "WorkflowShell mounted theme runs flow s =
     (if wh_viewMode s = PlannerView then PlannerScreen
      else
        let isRunLive = (useLiveRun runs \<noteq> None)
        in CanvasScreen (Canvas mounted theme flow (showPreview isRunLive s) True)
             (if isRunLive then Some (live_browser_props runs) else None))"

text \<open>
  The live browser is on the screen exactly while a run is live, and then the preview banner is not; building by hand
  shows the canvas without the banner.
\<close>

lemma shell_screen:
  "WorkflowShell mounted theme runs flow s = CanvasScreen v (Some lp) \<Longrightarrow>
     (\<exists>r \<in> set runs. cr_isLive r) \<and> cv_banner v = None \<and> bp_isRunLive lp"
  "wh_viewMode s = CanvasView \<Longrightarrow> r \<in> set runs \<Longrightarrow> cr_isLive r \<Longrightarrow>
     \<exists>v lp. WorkflowShell mounted theme runs flow s = CanvasScreen v (Some lp)"
  "\<exists>v lp. WorkflowShell mounted theme runs flow (handleBuildManually s) = CanvasScreen v lp \<and> cv_banner v = None"
  by (auto simp: WorkflowShell_def Canvas_def showPreview_def live_browser_props_def useLiveRun_def Let_def
      handleBuildManually_def find_None_iff find_Some_iff split: if_splits dest: nth_mem)

section \<open>The right sidebar\<close>

datatype sidebar_body = ToolbarBody | EditorBody "string option"

record right_sidebar =
  rs_tab :: string
  rs_body :: sidebar_body
  rs_deleteEnabled :: bool

text \<open>The menu can delete the workflow unless a deletion is under way.\<close>

definition RightSidebar :: "string option \<Rightarrow> bool \<Rightarrow> sidebar \<Rightarrow> right_sidebar" where
  "RightSidebar selected isPending sb =
     \<lparr>rs_tab = sb_tab sb, rs_body = (if sb_tab sb = ''editor'' then EditorBody selected else ToolbarBody),
      rs_deleteEnabled = (\<not> isPending)\<rparr>"

text \<open>\<open>deleteRoom\<close> is the call of Liveblocks that the action makes.\<close>

definition ActionsMenu ::
    "'s action_env \<Rightarrow> (string \<Rightarrow> 's \<Rightarrow> (string + unit) \<times> 's) \<Rightarrow> string \<Rightarrow> bool \<Rightarrow> 's sys \<Rightarrow> bool \<times> 's sys" where
  "ActionsMenu ax deleteRoom workflowId isPending st =
     (if isPending then (False, st) else (True, snd (deleteWorkflowAction ax deleteRoom workflowId st)))"

lemma selection_opens_editor:
  "selected \<noteq> None \<Longrightarrow> selected \<noteq> sb_prevSelectedId sb \<Longrightarrow>
     rs_body (RightSidebar selected isPending (sidebar_render selected sb)) = EditorBody selected"
  by (simp add: RightSidebar_def sidebar_render_def)

section \<open>The recording and the navigation\<close>

definition SessionReplay :: "player_status \<Rightarrow> bool \<times> string option" where
  "SessionReplay status =
     (status = PReady,
      case status of
        PLoading \<Rightarrow> Some ''Preparing recording...''
      | PError \<Rightarrow> Some (''This recording couldn'' @ [CHR 0x27] @ ''t be loaded.'')
      | PUnsupported \<Rightarrow> Some (''This browser can'' @ [CHR 0x27] @ ''t play the recording.'')
      | PReady \<Rightarrow> None)"

datatype nav_view =
    NavPopover bool "(string \<times> string \<times> bool) list"
  | NavGroup bool "(string \<times> string \<times> bool) list"

definition nav_screen :: "string \<Rightarrow> string \<Rightarrow> workflow_row list \<Rightarrow> bool \<Rightarrow> nav_view" where
  "nav_screen state pathname workflows isPending =
     (if state = ''collapsed'' then NavPopover (\<not> isPending) (WorkflowNav pathname workflows)
      else NavGroup (\<not> isPending) (WorkflowNav pathname workflows))"

lemma replay_or_note: "fst (SessionReplay st) \<longleftrightarrow> snd (SessionReplay st) = None"
  by (cases st) (simp_all add: SessionReplay_def)

end
