(* ===== verification/Spec2Isabelle.thy ===== *)
theory Spec2Isabelle
  imports Prelude Json Registry Schema RunView RunConsole RunEvents Interpolate Graph ConvertPlan Planner
    WorkflowData Versions RunRecords Access Engine Actions Leases Envelope Worker Sessions Storage Executors
    NodeRuns LegacyTask EventsClient Monitor WorkerMain ControlStream Shutdown Logger StepView Editor Console LiveBrowser Pages
    Overlays Polling Frame Clients Screens
begin

text \<open>
  Verification library of EvoBrowser, a workflow editor for browser automations: a Next.js application in which a team
  draws a graph of steps, has it planned by a language model, runs it on one of two engines and watches the browser.

  \<^bold>\<open>The program.\<close>  The editor keeps the graph in a Liveblocks room and asks for a run.  The server action checks
  shape, organization, plan and graph, stores an immutable version and a run row, and submits to the engine the
  environment names: the legacy engine runs the whole graph in one Trigger.dev task; the Evo engine sends a DAG to a
  C++ scheduler over gRPC, which hands single nodes over Redis streams to workers.  Workers hold a lease per attempt,
  run the node's executor in a browser session they own, and publish a result.  The scheduler's events are replayed
  and tailed to the browser as server-sent events, where they are reduced to one view of the run, the same shape as
  for a legacy run.  Two Postgres databases hold the application's rows and the Evo engine's.

  \<^bold>\<open>Foundations.\<close>  \<open>Prelude\<close>: the JavaScript idioms of the source (nullish, truthy, string and number texts, trim, lower
  case) with their simplification rules.  \<open>Json\<close>: the untyped values.  \<open>Schema\<close>: one record per table of
  \<open>lib/db/schema.ts\<close> and the keys it declares; a query is a function on the list of rows, a failing database is the
  left of a sum.

  \<^bold>\<open>Graphs and planning.\<close>  \<open>Registry\<close> (\<open>nodes/node-registry.ts\<close>, \<open>lib/planner-catalog.ts\<close>), \<open>Interpolate\<close>
  (\<open>lib/interpolate.ts\<close>, the regular expression as a matcher), \<open>Graph\<close> (\<open>lib/validate-graph.ts\<close>,
  \<open>hooks/use-upstream-connections.ts\<close>), \<open>ConvertPlan\<close> (\<open>lib/convert-plan.ts\<close>) and \<open>Planner\<close>
  (\<open>lib/planner-service.ts\<close>).  The packages toposort and React Flow are locales with their documented contracts,
  met by Kahn's algorithm and by a filter.  Shown: validation and conversion are exact, the layout terminates and
  draws edges downwards, an offered token resolves to the output it names, what the planner returns is well formed,
  and it makes at most five attempts.

  \<^bold>\<open>Stores and access.\<close>  \<open>WorkflowData\<close> (\<open>data.ts\<close>), \<open>Versions\<close> (\<open>lib/workflow-versions.ts\<close>), \<open>RunRecords\<close>
  (\<open>lib/run-records.ts\<close>), \<open>Access\<close> (\<open>lib/auth.ts\<close>, \<open>lib/run-authorization.ts\<close>, \<open>lib/evo-run-data.ts\<close> and the routes under
  \<open>app/api\<close>), \<open>Pages\<close> (the workflow page and the sidebar).  Other writers between two calls are a world function, so
  that a statement about a retry loop holds for any interleaving.  Shown: the version history is append only, a
  version is found as soon as one of the five attempts is undisturbed, artifacts are only served to the owner.

  \<^bold>\<open>Runs.\<close>  \<open>Engine\<close> (\<open>lib/execution-engine.ts\<close>, \<open>evo-engine-adapter.ts\<close>, \<open>evo-scheduler-client.ts\<close>,
  \<open>legacy-engine-adapter.ts\<close>) states the interface of an engine as the locale \<open>engine_adapter\<close>, interpreted for both;
  \<open>Actions\<close> (\<open>actions.ts\<close>, \<open>lib/action-schemas.ts\<close>) composes all of the above over one state of the system; \<open>Storage\<close>
  shows that every operation of every component keeps both stores well formed.  \<open>LegacyTask\<close> is
  \<open>tasks/run-workflow.ts\<close>, the whole task with its order, cancellation, live-view wait and clean-up.

  \<^bold>\<open>Workers.\<close>  \<open>Leases\<close> (\<open>worker/src/lease-store.ts\<close>) with the locale \<open>task_lease_store\<close>, an abstract lease, and the
  refinement of it by the SQL store; \<open>Envelope\<close> (\<open>envelope-codec.ts\<close>, \<open>redis-streams.ts\<close>) over an abstract protobuf
  codec; \<open>Worker\<close> (\<open>worker.ts\<close>), whose jobs advance one awaited call at a time, as a step relation with its
  reachable states, and as a function with fuel; \<open>Sessions\<close> (\<open>browser-session-manager.ts\<close>), cut at its awaits;
  \<open>Executors\<close> (the six executors under \<open>nodes/\<close>, \<open>node-executor-adapter.ts\<close>, \<open>durable-loaders.ts\<close>, the email sink and
  the synthetic executor) and \<open>NodeRuns\<close>, what they compute and how often they act, with the locale
  \<open>keyed_provider\<close> of a provider that drops repeated keys; \<open>WorkerMain\<close> (\<open>main.ts\<close>, the configurations, the lease
  timer), \<open>ControlStream\<close> (the control loop and the heartbeat of \<open>worker.ts\<close>, and the fleet of workers that share the
  control stream, over the locale \<open>consumer_groups\<close> of what Redis documents), \<open>Shutdown\<close> (the drain, the signals),
  \<open>Logger\<close> (\<open>logger.ts\<close>) and \<open>Overlays\<close> (\<open>lib/highlight-element.ts\<close>: the document that is drawn into, its timers, the
  executors with their drawings, and the locale \<open>cosmetic\<close> in which both versions of an executor agree).  Shown: a
  result is published before its message is acknowledged, leases exclude, cancels reach every worker, at most one
  email is sent for a node, drawing changes nothing that a step returns.

  \<^bold>\<open>What the user sees.\<close>  \<open>RunView\<close> (\<open>lib/run-view-model.ts\<close>), \<open>RunConsole\<close> (\<open>lib/run-console.ts\<close>), \<open>RunEvents\<close>
  (\<open>lib/evo-run-events.ts\<close>, \<open>lib/evo-run-events-route.ts\<close>, \<open>lib/evo-runs.ts\<close>), \<open>EventsClient\<close>
  (\<open>components/evo-run-events-provider.tsx\<close>), \<open>Monitor\<close> (\<open>workflow-runs-provider.tsx\<close>, the startup diagnosis) and
  \<open>Polling\<close> (its poll, as a step relation over effects, requests and timers), \<open>StepView\<close>, \<open>Console\<close>, \<open>LiveBrowser\<close>
  and \<open>Editor\<close> (the other components), \<open>Frame\<close> (sidebar, theme, shortcuts, warm-up), \<open>Screens\<close> (what the shell and its
  panes put on the screen) and \<open>Clients\<close> (the clients that a process keeps).  A component is its state, its callbacks and the texts,
  parts and actions it shows.  Shown: events are delivered once and in order over any reconnects and the client's
  view is the reduction of the run's own events, a live view is only shown for its own session, a generated plan
  gives a canvas that runs, and the canvas stays typed under any edits.

  \<^bold>\<open>Reading the definitions.\<close>  A function that may throw returns a sum, with the error on the left; one that awaits a
  service takes the service as a function on an abstract state \<open>'s\<close> and returns the new state.  Times are
  milliseconds as integers, ids and texts are character lists in UTF-8, an object used as a dictionary is an
  association list in insertion order, \<open>undefined\<close> and \<open>null\<close> are \<open>None\<close>.  Where an operation is interleaved with
  others it is cut at its awaits, and a step relation or a list of operations gives the interleaving.

  \<^bold>\<open>Bounds and fuel.\<close>  \<open>process\<close> of the worker needs eight steps, at most three of them publishing attempts, and is
  shown to end within them; the version loop has the source's five attempts; the layout's fuel is the number of
  nodes and edges plus one, and \<open>layout_total\<close> shows that it suffices for every plan, cyclic ones included; a
  live-view wait of the legacy task polls at most 61 times, which \<open>legacy_run_returns\<close> shows to be enough when the
  clock advances by the interval of a poll.  All other recursion is structural or has a measure.

  \<^bold>\<open>Assumptions.\<close>  Named hypotheses only: the contracts of toposort and React Flow, ids of stream entries that increase,
  a schema parser that returns what the schema allows, a JSON parser and printer where a theorem mentions them, fresh
  random ids, and a clock that moves while the task sleeps.  Each is met by the witness of the theorem that uses it.

  \<^bold>\<open>Not modelled.\<close>  The C++ scheduler, which is another language: its replies and events are inputs.  Markup, styles,
  layout of the panes and the vendored user-interface components.  What third-party clients do when they are made, the
  middleware, the options of the frameworks and the observability set-up.  The styles of the overlays and the text of
  the planner's prompt.  The sleeps between the worker's retries and the intervals of its timers, whose ticks are
  modelled.  JavaScript string lengths are counted in characters of the list, not in UTF-16 units.
\<close>

end
